(* ===== verification/Waf_Prelude.thy ===== *)
theory Waf_Prelude
  imports Main "HOL-Library.Word" "HOL-Library.Sublist"
begin

text \<open>
  Shared vocabulary of the development: bytes, UTF-8 text and machine integers as the
  modelled crates use them, with the lemmas the component theories lean on.

  A Rust \<^verbatim>\<open>str\<close> is modelled by its UTF-8 bytes: a \<^typ>\<open>string\<close> whose characters are
  bytes.  \<open>scalar_len\<close> and \<open>valid_utf8\<close> say when such a byte list is well-formed
  UTF-8, \<open>encode_utf8\<close> is \<^verbatim>\<open>String::push\<close> of one \<^verbatim>\<open>char\<close>, and a slice
  \<^verbatim>\<open>&s[..w]\<close> is \<open>str_prefix\<close>, which is \<open>None\<close> where Rust panics.
  Machine integers are words; \<open>saturating_add\<close> is the method of the same name.
\<close>

named_theorems waf_ascii "unfolding rules for the ASCII byte classes"
named_theorems waf_len "length bounds that the termination and fuel proofs use"
named_theorems waf_utf8 "closure rules for well-formed UTF-8"

type_synonym u8 = "8 word"
type_synonym u16 = "16 word"
type_synonym u32 = "32 word"

section \<open>Bytes and ASCII classes\<close>

abbreviation byte :: "char \<Rightarrow> nat" where
  "byte c \<equiv> of_char c"

definition is_ascii_digit :: "char \<Rightarrow> bool" where [waf_ascii]:
  "is_ascii_digit c \<longleftrightarrow> 48 \<le> byte c \<and> byte c \<le> 57"

definition is_ascii_uppercase :: "char \<Rightarrow> bool" where [waf_ascii]:
  "is_ascii_uppercase c \<longleftrightarrow> 65 \<le> byte c \<and> byte c \<le> 90"

definition is_ascii_lowercase :: "char \<Rightarrow> bool" where [waf_ascii]:
  "is_ascii_lowercase c \<longleftrightarrow> 97 \<le> byte c \<and> byte c \<le> 122"

definition is_ascii_alphanumeric :: "char \<Rightarrow> bool" where [waf_ascii]:
  "is_ascii_alphanumeric c \<longleftrightarrow>
     is_ascii_digit c \<or> is_ascii_uppercase c \<or> is_ascii_lowercase c"

definition is_ascii_hexdigit :: "char \<Rightarrow> bool" where [waf_ascii]:
  "is_ascii_hexdigit c \<longleftrightarrow>
     is_ascii_digit c \<or> (65 \<le> byte c \<and> byte c \<le> 70) \<or> (97 \<le> byte c \<and> byte c \<le> 102)"

definition is_ascii :: "char \<Rightarrow> bool" where [waf_ascii]:
  "is_ascii c \<longleftrightarrow> byte c < 128"

text \<open>Code equations over binary integers, so that evaluation never counts a byte in unary.\<close>

lemma byte_le_int: "byte c \<le> n \<longleftrightarrow> (of_char c :: int) \<le> int n" "n \<le> byte c \<longleftrightarrow> int n \<le> (of_char c :: int)"
  by (metis of_nat_le_iff of_nat_of_char)+

lemma byte_less_int: "byte c < n \<longleftrightarrow> (of_char c :: int) < int n"
  by (metis of_nat_less_iff of_nat_of_char)

lemma ascii_classes_code [code]:
  "is_ascii_digit c \<longleftrightarrow> (let i = of_char c :: int in 48 \<le> i \<and> i \<le> 57)"
  "is_ascii_uppercase c \<longleftrightarrow> (let i = of_char c :: int in 65 \<le> i \<and> i \<le> 90)"
  "is_ascii_lowercase c \<longleftrightarrow> (let i = of_char c :: int in 97 \<le> i \<and> i \<le> 122)"
  "is_ascii c \<longleftrightarrow> (of_char c :: int) < 128"
  by (simp_all add: waf_ascii byte_le_int byte_less_int Let_def)

definition ascii_lower :: "char \<Rightarrow> char" where
  "ascii_lower c = (if is_ascii_uppercase c then char_of (byte c + 32) else c)"

definition ascii_upper :: "char \<Rightarrow> char" where
  "ascii_upper c = (if is_ascii_lowercase c then char_of (byte c - 32) else c)"

definition to_ascii_lowercase :: "string \<Rightarrow> string" where
  "to_ascii_lowercase s = map ascii_lower s"

definition to_ascii_uppercase :: "string \<Rightarrow> string" where
  "to_ascii_uppercase s = map ascii_upper s"

definition eq_ignore_ascii_case :: "string \<Rightarrow> string \<Rightarrow> bool" where
  "eq_ignore_ascii_case a b \<longleftrightarrow> to_ascii_lowercase a = to_ascii_lowercase b"

lemma byte_char_of [simp]: "n < 256 \<Longrightarrow> byte (char_of n) = n"
  by simp

lemma byte_eq_iff: "byte a = byte b \<longleftrightarrow> a = b"
  by (metis char_of_char)

lemma byte_ascii_lower:
  "byte (ascii_lower c) = (if is_ascii_uppercase c then byte c + 32 else byte c)"
  by (simp add: ascii_lower_def waf_ascii)

lemma ascii_lower_idem [simp]: "ascii_lower (ascii_lower c) = ascii_lower c"
proof -
  have "\<not> is_ascii_uppercase (ascii_lower c)"
    by (auto simp: is_ascii_uppercase_def byte_ascii_lower)
  then show ?thesis by (simp add: ascii_lower_def [of "ascii_lower c"])
qed

lemma to_ascii_lowercase_idem [simp]:
  "to_ascii_lowercase (to_ascii_lowercase s) = to_ascii_lowercase s"
  by (simp add: to_ascii_lowercase_def)

lemma length_to_ascii_lowercase [simp]: "length (to_ascii_lowercase s) = length s"
  by (simp add: to_ascii_lowercase_def)

lemma eq_ignore_ascii_case_refl [simp]: "eq_ignore_ascii_case s s"
  by (simp add: eq_ignore_ascii_case_def)

lemma hexdigit_is_ascii: "is_ascii_hexdigit c \<Longrightarrow> is_ascii c"
  by (auto simp: waf_ascii)

lemma alphanumeric_is_ascii: "is_ascii_alphanumeric c \<Longrightarrow> is_ascii c"
  by (auto simp: waf_ascii)

section \<open>Well-formed UTF-8\<close>

definition is_cont :: "char \<Rightarrow> bool" where
  "is_cont c \<longleftrightarrow> 128 \<le> byte c \<and> byte c < 192"

text \<open>Length of the first scalar value of a byte list, if it is well-formed (the table
  of the Unicode standard that \<^verbatim>\<open>core::str::from_utf8\<close> implements).\<close>

fun scalar_len :: "string \<Rightarrow> nat option" where
  "scalar_len [] = None"
| "scalar_len (a # s) =
     (if byte a < 128 then Some 1
      else if 194 \<le> byte a \<and> byte a \<le> 223 then
        (case s of b # _ \<Rightarrow> if is_cont b then Some 2 else None | _ \<Rightarrow> None)
      else if 224 \<le> byte a \<and> byte a \<le> 239 then
        (case s of b # c # _ \<Rightarrow>
           if is_cont b \<and> is_cont c \<and> (byte a = 224 \<longrightarrow> 160 \<le> byte b)
              \<and> (byte a = 237 \<longrightarrow> byte b < 160)
           then Some 3 else None
         | _ \<Rightarrow> None)
      else if 240 \<le> byte a \<and> byte a \<le> 244 then
        (case s of b # c # d # _ \<Rightarrow>
           if is_cont b \<and> is_cont c \<and> is_cont d \<and> (byte a = 240 \<longrightarrow> 144 \<le> byte b)
              \<and> (byte a = 244 \<longrightarrow> byte b < 144)
           then Some 4 else None
         | _ \<Rightarrow> None)
      else None)"

lemma scalar_len_bounds [waf_len]:
  "scalar_len s = Some n \<Longrightarrow> 1 \<le> n \<and> n \<le> 4 \<and> n \<le> length s"
  by (cases s) (auto split: if_splits list.splits)

function valid_utf8 :: "string \<Rightarrow> bool" where
  "valid_utf8 s \<longleftrightarrow>
     s = [] \<or> (case scalar_len s of None \<Rightarrow> False | Some n \<Rightarrow> valid_utf8 (drop n s))"
  by pat_completeness auto
termination
  by (relation "measure length") (auto dest: scalar_len_bounds)

declare valid_utf8.simps [simp del]

lemma valid_utf8_Nil [simp]: "valid_utf8 []"
  by (simp add: valid_utf8.simps)

lemma valid_utf8_step:
  "scalar_len s = Some n \<Longrightarrow> valid_utf8 s \<longleftrightarrow> valid_utf8 (drop n s)"
  by (subst valid_utf8.simps) auto

lemma valid_utf8_scalar:
  assumes "valid_utf8 s" and "s \<noteq> []"
  obtains n where "scalar_len s = Some n" and "valid_utf8 (drop n s)"
  using assms by (subst (asm) valid_utf8.simps) (auto split: option.splits)

lemma valid_utf8_ascii_Cons [simp]:
  "is_ascii c \<Longrightarrow> valid_utf8 (c # s) \<longleftrightarrow> valid_utf8 s"
  by (subst valid_utf8_step [where n = 1]) (simp_all add: is_ascii_def)

lemma scalar_len_append:
  "scalar_len s = Some n \<Longrightarrow> scalar_len (s @ t) = Some n"
  by (cases s) (auto split: if_splits list.splits)

lemma valid_utf8_append [waf_utf8]:
  "valid_utf8 s \<Longrightarrow> valid_utf8 (s @ t) \<longleftrightarrow> valid_utf8 t"
proof (induction "length s" arbitrary: s rule: less_induct)
  case less
  show ?case
  proof (cases "s = []")
    case False
    with less.prems obtain n where n: "scalar_len s = Some n" and v: "valid_utf8 (drop n s)"
      by (rule valid_utf8_scalar)
    have b: "1 \<le> n" "n \<le> length s"
      using scalar_len_bounds [OF n] by auto
    with False have "length (drop n s) < length s" by simp
    from less.hyps [OF this v] b show ?thesis
      by (simp add: valid_utf8_step [OF scalar_len_append [OF n]])
  qed simp
qed

text \<open>The first byte of well-formed text is never a continuation byte, and the width
  announced by the lead byte is the length of the scalar.\<close>

definition boundary :: "string \<Rightarrow> bool" where
  "boundary s \<longleftrightarrow> (case s of [] \<Rightarrow> True | c # _ \<Rightarrow> \<not> is_cont c)"

lemma scalar_len_boundary: "scalar_len s = Some n \<Longrightarrow> boundary s"
  by (cases s) (auto simp: boundary_def is_cont_def split: if_splits)

lemma valid_utf8_boundary: "valid_utf8 s \<Longrightarrow> boundary s"
  by (metis boundary_def list.simps(4) scalar_len_boundary valid_utf8_scalar)

text \<open>\<^verbatim>\<open>&s[..w]\<close> at a character boundary; \<open>None\<close> is the panic of a slice that is out
  of range or cuts a character.\<close>

definition str_prefix :: "nat \<Rightarrow> string \<Rightarrow> string option" where
  "str_prefix w s =
     (if w \<le> length s \<and> boundary s \<and> boundary (drop w s) then Some (take w s) else None)"

lemma str_prefix_code [code]:
  "str_prefix w s =
     (let t = take w s; r = drop w s
      in if length t = w \<and> boundary s \<and> boundary r then Some t else None)"
  by (auto simp: str_prefix_def Let_def min_def)

lemma str_prefix_Some: "str_prefix w s = Some p \<Longrightarrow> p = take w s \<and> w \<le> length s"
  by (simp add: str_prefix_def split: if_splits)

lemma str_prefix_scalar:
  assumes "valid_utf8 s" and "scalar_len s = Some n"
  shows "str_prefix n s = Some (take n s)"
proof -
  have "valid_utf8 (drop n s)"
    using assms valid_utf8_step by blast
  then show ?thesis
    using assms scalar_len_bounds [of s n]
    by (simp add: str_prefix_def valid_utf8_boundary)
qed

lemma scalar_len_take:
  "scalar_len s = Some n \<Longrightarrow> scalar_len (take n s) = Some n"
  by (cases s) (auto split: if_splits list.splits)

lemma valid_utf8_take_scalar [waf_utf8]:
  assumes n: "scalar_len s = Some n"
  shows "valid_utf8 (take n s)"
  using scalar_len_bounds [OF n] by (simp add: valid_utf8_step [OF scalar_len_take [OF n]])

text \<open>Continuation bytes are not ASCII, so text splits into well-formed halves at an
  ASCII byte.\<close>

lemma scalar_len_not_ascii_tail:
  assumes "scalar_len s = Some n" and "0 < i" and "i < n"
  shows "\<not> is_ascii (s ! i)"
proof (cases s)
  case (Cons a t)
  with assms show ?thesis
    by (auto simp: is_cont_def is_ascii_def nth_Cons split: if_splits list.splits nat.splits)
qed (use assms in simp)


lemma scalar_len_append_left:
  assumes n: "scalar_len (s @ t) = Some n" and le: "n \<le> length s"
  shows "scalar_len s = Some n"
proof -
  from scalar_len_take [OF n] le have "scalar_len (take n s) = Some n" by simp
  from scalar_len_append [OF this, of "drop n s"] show ?thesis by simp
qed

lemma valid_utf8_split_ascii [waf_utf8]:
  assumes "valid_utf8 (s @ c # t)" and c: "is_ascii c"
  shows "valid_utf8 s \<and> valid_utf8 t"
  using assms(1)
proof (induction "length s" arbitrary: s rule: less_induct)
  case less
  show ?case
  proof (cases "s = []")
    case True
    with less.prems c show ?thesis by simp
  next
    case False
    from less.prems have "s @ c # t \<noteq> []" by simp
    with less.prems obtain n where n: "scalar_len (s @ c # t) = Some n"
      and v: "valid_utf8 (drop n (s @ c # t))"
      by (blast elim: valid_utf8_scalar)
    have le: "n \<le> length s"
    proof (rule ccontr)
      assume "\<not> n \<le> length s"
      with False have "\<not> is_ascii ((s @ c # t) ! length s)"
        by (intro scalar_len_not_ascii_tail [OF n]) auto
      with c show False by (simp add: nth_append)
    qed
    have n1: "1 \<le> n" using scalar_len_bounds [OF n] by simp
    from le v have "valid_utf8 (drop n s @ c # t)" by simp
    with n1 False le have "valid_utf8 (drop n s) \<and> valid_utf8 t"
      by (intro less.hyps) auto
    with valid_utf8_step [OF scalar_len_append_left [OF n le]] show ?thesis by simp
  qed
qed

lemma scalar_tail_cont:
  assumes "scalar_len s = Some n" and "0 < i" and "i < n"
  shows "is_cont (s ! i)"
proof (cases s)
  case (Cons a t)
  with assms show ?thesis
    by (auto simp: nth_Cons split: if_splits list.splits nat.splits)
qed (use assms in simp)

lemma valid_utf8_split_boundary:
  assumes "valid_utf8 (s @ t)" and b: "boundary t"
  shows "valid_utf8 s \<and> valid_utf8 t"
  using assms(1)
proof (induction "length s" arbitrary: s rule: less_induct)
  case less
  show ?case
  proof (cases "s = []")
    case True
    with less.prems show ?thesis by simp
  next
    case False
    with less.prems obtain n where n: "scalar_len (s @ t) = Some n" and v: "valid_utf8 (drop n (s @ t))"
      by (metis Nil_is_append_conv valid_utf8_scalar)
    have le: "n \<le> length s"
    proof (rule ccontr)
      assume "\<not> n \<le> length s"
      with False have c: "is_cont ((s @ t) ! length s)" by (intro scalar_tail_cont [OF n]) auto
      have "t \<noteq> []" using \<open>\<not> n \<le> length s\<close> scalar_len_bounds [OF n] by auto
      with c b show False by (cases t) (auto simp: boundary_def nth_append)
    qed
    have n1: "1 \<le> n" using scalar_len_bounds [OF n] by simp
    from le v have "valid_utf8 (drop n s @ t)" by simp
    with n1 False le have "valid_utf8 (drop n s) \<and> valid_utf8 t" by (intro less.hyps) auto
    with valid_utf8_step [OF scalar_len_append_left [OF n le]] show ?thesis by simp
  qed
qed

lemma valid_utf8_ascii_suffix: "valid_utf8 (s @ t) \<Longrightarrow> \<forall>x \<in> set t. is_ascii x \<Longrightarrow> valid_utf8 s"
proof -
  assume v: "valid_utf8 (s @ t)" and t: "\<forall>x \<in> set t. is_ascii x"
  have "boundary t" using t by (cases t) (auto simp: boundary_def is_ascii_def is_cont_def)
  with v valid_utf8_split_boundary show ?thesis by blast
qed

lemma valid_utf8_ascii_prefix:
  "\<forall>x \<in> set p. is_ascii x \<Longrightarrow> valid_utf8 (p @ t) \<longleftrightarrow> valid_utf8 t"
  by (induction p) auto

lemma scalar_bytes_not_ascii:
  assumes n: "scalar_len s = Some n" and "2 \<le> n"
  shows "\<forall>c \<in> set (take n s). \<not> is_ascii c"
proof
  fix c assume "c \<in> set (take n s)"
  then obtain i where i: "i < n" "i < length s" "c = s ! i"
    by (auto simp: in_set_conv_nth)
  show "\<not> is_ascii c"
  proof (cases i)
    case 0
    with i n assms(2) show ?thesis by (cases s) (auto simp: is_ascii_def split: if_splits)
  next
    case (Suc j)
    with i scalar_len_not_ascii_tail [OF n, of i] show ?thesis by simp
  qed
qed

text \<open>Rewriting the ASCII characters of a text keeps it well-formed.\<close>

lemma concat_map_id: "(\<And>c. c \<in> set s \<Longrightarrow> f c = [c]) \<Longrightarrow> concat (map f s) = s"
  by (induction s) auto

lemma valid_utf8_concat_map:
  assumes "valid_utf8 s" and f: "\<And>c. is_ascii c \<Longrightarrow> valid_utf8 (f c)"
    and g: "\<And>c. \<not> is_ascii c \<Longrightarrow> f c = [c]"
  shows "valid_utf8 (concat (map f s))"
  using assms(1)
proof (induction s rule: valid_utf8.induct)
  case (1 s)
  show ?case
  proof (cases s)
    case (Cons c t)
    with 1(2) obtain n where n: "scalar_len s = Some n" and v: "valid_utf8 (drop n s)"
      by (blast elim: valid_utf8_scalar)
    have IH: "valid_utf8 (concat (map f (drop n s)))" using 1(1) Cons n v by blast
    have split: "concat (map f s) = concat (map f (take n s)) @ concat (map f (drop n s))"
      by (metis append_take_drop_id concat_append map_append)
    have "valid_utf8 (concat (map f (take n s)))"
    proof (cases "2 \<le> n")
      case True
      then have "concat (map f (take n s)) = take n s"
        using scalar_bytes_not_ascii [OF n] g by (intro concat_map_id) blast
      then show ?thesis using valid_utf8_take_scalar [OF n] by simp
    next
      case False
      with scalar_len_bounds [OF n] have "n = 1" by simp
      with n Cons have "take n s = [c]" "is_ascii c"
        by (auto simp: is_ascii_def split: if_splits list.splits)
      then show ?thesis by (simp add: f)
    qed
    with IH split show ?thesis by (simp add: valid_utf8_append)
  qed simp
qed

lemma valid_utf8_map_ascii:
  assumes "valid_utf8 s" and "\<And>c. is_ascii c \<Longrightarrow> is_ascii (f c)" and "\<And>c. \<not> is_ascii c \<Longrightarrow> f c = c"
  shows "valid_utf8 (map f s)"
proof -
  have "map f s = concat (map (\<lambda>c. [f c]) s)" by simp
  also have "valid_utf8 \<dots>" by (rule valid_utf8_concat_map [OF assms(1)]) (simp_all add: assms(2,3))
  finally show ?thesis .
qed

text \<open>Unicode scalar values and their encoding.\<close>

definition scalar_value :: "nat \<Rightarrow> bool" where
  "scalar_value n \<longleftrightarrow> n < 55296 \<or> (57344 \<le> n \<and> n \<le> 1114111)"

definition char_from_u32 :: "nat \<Rightarrow> nat option" where
  "char_from_u32 n = (if scalar_value n then Some n else None)"

definition encode_utf8 :: "nat \<Rightarrow> string" where
  "encode_utf8 n =
     (if n < 128 then [char_of n]
      else if n < 2048 then [char_of (192 + n div 64), char_of (128 + n mod 64)]
      else if n < 65536 then
        [char_of (224 + n div 4096), char_of (128 + n div 64 mod 64), char_of (128 + n mod 64)]
      else
        [char_of (240 + n div 262144), char_of (128 + n div 4096 mod 64),
         char_of (128 + n div 64 mod 64), char_of (128 + n mod 64)])"

lemma mod_in_block: "k * m \<le> x \<Longrightarrow> x < k * m + m \<Longrightarrow> x mod m = x - k * m" for x :: nat
proof -
  assume le: "k * m \<le> x" and lt: "x < k * m + m"
  then have "x - k * m < m" by linarith
  then have "(x - k * m + k * m) mod m = x - k * m" by simp
  with le show ?thesis by simp
qed

lemma scalar_len_encode_utf8:
  assumes "scalar_value n"
  shows "scalar_len (encode_utf8 n) = Some (length (encode_utf8 n))"
proof -
  consider "n < 128" | "128 \<le> n" "n < 2048" | "2048 \<le> n" "n < 65536" | "65536 \<le> n"
    by linarith
  then show ?thesis
  proof cases
    case 1
    then show ?thesis by (simp add: encode_utf8_def)
  next
    case 2
    then have "n div 64 < 32" "2 \<le> n div 64" by linarith+
    with 2 show ?thesis by (simp add: encode_utf8_def is_cont_def)
  next
    case 3
    then have d: "n div 4096 < 16" by linarith
    have m: "n div 64 mod 64 < 64" "n mod 64 < 64" by simp_all
    have low: "32 \<le> n div 64 mod 64" if "n div 4096 = 0"
    proof -
      from that have "n < 4096" by (simp add: div_eq_0_iff)
      then have "n div 64 mod 64 = n div 64" by simp
      moreover have "32 \<le> n div 64" using 3 by linarith
      ultimately show ?thesis by simp
    qed
    have sur: "n div 64 mod 64 < 32" if "n div 4096 = 13"
    proof -
      from that assms have "n div 64 - 832 < 32" "832 \<le> n div 64" "n div 64 < 896"
        by (auto simp: scalar_value_def)
      moreover from this have "n div 64 mod 64 = n div 64 - 832"
        using mod_in_block [of 13 64 "n div 64"] by simp
      ultimately show ?thesis by simp
    qed
    from 3 d m low sur show ?thesis by (auto simp: encode_utf8_def is_cont_def)
  next
    case 4
    from 4 assms have d: "n div 262144 < 5" by (auto simp: scalar_value_def)
    have m: "n div 4096 mod 64 < 64" "n div 64 mod 64 < 64" "n mod 64 < 64" by simp_all
    have low: "16 \<le> n div 4096 mod 64" if "n div 262144 = 0"
    proof -
      from that have "n < 262144" by (simp add: div_eq_0_iff)
      then have "n div 4096 mod 64 = n div 4096" by simp
      moreover have "16 \<le> n div 4096" using 4 by linarith
      ultimately show ?thesis by simp
    qed
    have high: "n div 4096 mod 64 < 16" if "n div 262144 = 4"
    proof -
      from that 4 assms have "256 \<le> n div 4096" "n div 4096 < 272"
        by (auto simp: scalar_value_def)
      then have "n div 4096 mod 64 = n div 4096 - 256"
        using mod_in_block [of 4 64 "n div 4096"] by simp
      with \<open>n div 4096 < 272\<close> show ?thesis by simp
    qed
    from 4 d m low high show ?thesis by (auto simp: encode_utf8_def is_cont_def)
  qed
qed

lemma valid_utf8_encode_utf8 [waf_utf8]: "scalar_value n \<Longrightarrow> valid_utf8 (encode_utf8 n)"
  by (simp add: valid_utf8_step [OF scalar_len_encode_utf8])

lemma length_encode_utf8:
  "length (encode_utf8 n) = (if n < 128 then 1 else if n < 2048 then 2 else if n < 65536 then 3 else 4)"
  by (simp add: encode_utf8_def)

lemma length_encode_byte: "length (encode_utf8 (byte c)) \<le> 2"
proof -
  have "byte c < 2048" by (rule order.strict_trans [of _ 256]) simp_all
  then show ?thesis by (simp add: length_encode_utf8)
qed

lemma scalar_value_byte [simp]: "scalar_value (byte c)"
proof -
  have "byte c < 256" by simp
  then show ?thesis by (simp only: scalar_value_def) linarith
qed

section \<open>Saturating and clamped machine arithmetic\<close>

definition saturating_add :: "'a::len word \<Rightarrow> 'a word \<Rightarrow> 'a word" where
  "saturating_add a b =
     (if unat a + unat b < 2 ^ LENGTH('a) then a + b else - 1)"

lemma unat_minus_one_word: "unat (- 1 :: 'a::len word) = 2 ^ LENGTH('a) - 1"
  by (simp add: unat_eq_nat_uint uint_word_ariths(5) unsigned_minus_1_eq_mask mask_eq_exp_minus_1
      nat_diff_distrib' nat_power_eq)

lemma unat_saturating_add:
  "unat (saturating_add a b) = min (unat a + unat b) (2 ^ LENGTH('a) - 1)"
  for a b :: "'a::len word"
  by (auto simp: saturating_add_def unat_word_ariths unat_minus_one_word)

lemma saturating_add_mono:
  "a \<le> b \<Longrightarrow> saturating_add a c \<le> saturating_add b c" for a b :: "'a::len word"
  by (auto simp: word_le_nat_alt unat_saturating_add)

lemma saturating_add_ge: "a \<le> saturating_add a c" for a c :: "'a::len word"
proof -
  have "unat a < 2 ^ LENGTH('a)" by (rule unsigned_less)
  then have "unat a \<le> 2 ^ LENGTH('a) - 1" by linarith
  then show ?thesis by (simp add: word_le_nat_alt unat_saturating_add)
qed

end
