(* ===== verification/Rust_Text.thy ===== *)
theory Rust_Text
  imports Waf_Prelude
begin

text \<open>
  The \<^verbatim>\<open>str\<close> and integer-parsing methods of the Rust standard library that the modelled
  crates call, on the byte-list model of text of \<open>Waf_Prelude\<close>: substring search, splitting,
  trimming, \<^verbatim>\<open>from_str\<close> / \<^verbatim>\<open>from_str_radix\<close>, \<^verbatim>\<open>to_string\<close> of integers and the
  byte-wise order.  Each is executable; the lemmas give the facts the components use:
  reassembly after a split, preservation of well-formed UTF-8, and that parsing undoes printing.
\<close>

section \<open>Searching\<close>

fun find_str :: "string \<Rightarrow> string \<Rightarrow> nat option" where
  "find_str needle [] = (if needle = [] then Some 0 else None)"
| "find_str needle (c # cs) =
     (if prefix needle (c # cs) then Some 0 else map_option Suc (find_str needle cs))"

definition contains_str :: "string \<Rightarrow> string \<Rightarrow> bool" where
  "contains_str hay needle \<longleftrightarrow> find_str needle hay \<noteq> None"

abbreviation contains_char :: "string \<Rightarrow> char \<Rightarrow> bool" where
  "contains_char hay c \<equiv> c \<in> set hay"

lemma find_str_Some:
  "find_str needle hay = Some i \<Longrightarrow>
     i + length needle \<le> length hay \<and> hay = take i hay @ needle @ drop (i + length needle) hay"
proof (induction hay arbitrary: i)
  case (Cons c cs)
  show ?case
  proof (cases "prefix needle (c # cs)")
    case True
    with Cons.prems have "i = 0" by simp
    with True show ?thesis
      by (metis add_0 append_Nil append_take_drop_id prefix_length_le take_0 append_eq_conv_conj
          prefix_def)
  qed (use Cons in auto)
qed (auto split: if_splits)

lemma contains_str_iff: "contains_str hay needle \<longleftrightarrow> (\<exists>a b. hay = a @ needle @ b)"
proof -
  have "\<exists>i. find_str needle (a @ needle @ b) = Some i" for a b
  proof (induction a)
    case Nil
    have "prefix needle (needle @ b)" by simp
    then show ?case by (cases "needle @ b") (simp_all del: prefix_def)
  qed auto
  then show ?thesis
    unfolding contains_str_def using find_str_Some by (metis not_None_eq)
qed

lemma contains_str_refl [simp]: "contains_str s s"
  by (metis append_Nil append_Nil2 contains_str_iff)

text \<open>\<^verbatim>\<open>Iterator::find_map\<close>.\<close>

fun find_map :: "('a \<Rightarrow> 'b option) \<Rightarrow> 'a list \<Rightarrow> 'b option" where
  "find_map f [] = None"
| "find_map f (x # xs) = (case f x of Some y \<Rightarrow> Some y | None \<Rightarrow> find_map f xs)"

lemma find_map_Some: "find_map f xs = Some y \<Longrightarrow> \<exists>x \<in> set xs. f x = Some y"
  by (induction xs) (auto split: option.splits)

section \<open>Splitting\<close>

definition split_once_char :: "char \<Rightarrow> string \<Rightarrow> (string \<times> string) option" where
  "split_once_char c s =
     (case dropWhile (\<lambda>x. x \<noteq> c) s of
        [] \<Rightarrow> None
      | _ # r \<Rightarrow> Some (takeWhile (\<lambda>x. x \<noteq> c) s, r))"

definition split_once_str :: "string \<Rightarrow> string \<Rightarrow> (string \<times> string) option" where
  "split_once_str d s =
     (case find_str d s of
        None \<Rightarrow> None
      | Some i \<Rightarrow> Some (take i s, drop (i + length d) s))"

fun split_on :: "char \<Rightarrow> string \<Rightarrow> string list" where
  "split_on c [] = [[]]"
| "split_on c (x # xs) =
     (if x = c then [] # split_on c xs
      else (case split_on c xs of [] \<Rightarrow> [[x]] | w # ws \<Rightarrow> (x # w) # ws))"

lemma split_once_char_Some:
  "split_once_char c s = Some (a, b) \<Longrightarrow> s = a @ c # b \<and> c \<notin> set a"
  by (auto simp: split_once_char_def dropWhile_eq_Cons_conv dest: set_takeWhileD split: list.splits)

lemma split_once_char_None: "split_once_char c s = None \<longleftrightarrow> c \<notin> set s"
  by (auto simp: split_once_char_def dropWhile_eq_Cons_conv split: list.splits)
     (metis in_set_conv_decomp)

lemma split_once_char_append: "c \<notin> set a \<Longrightarrow> split_once_char c (a @ c # b) = Some (a, b)"
  by (induction a) (auto simp: split_once_char_def split: list.splits)

lemma split_on_not_Nil [simp]: "split_on c s \<noteq> []"
  by (cases s) (auto split: list.splits)

lemma split_on_no_sep: "w \<in> set (split_on c s) \<Longrightarrow> c \<notin> set w"
  by (induction s arbitrary: w) (auto split: if_splits list.splits)

text \<open>Joining the pieces with the separator gives the text back: nothing is dropped.\<close>

fun join_with :: "string \<Rightarrow> string list \<Rightarrow> string" where
  "join_with d [] = []"
| "join_with d [w] = w"
| "join_with d (w # v # ws) = w @ d @ join_with d (v # ws)"

lemma join_with_Cons: "ws \<noteq> [] \<Longrightarrow> join_with d (w # ws) = w @ d @ join_with d ws"
  by (cases ws) auto

lemma join_split_on: "join_with [c] (split_on c s) = s"
proof (induction s)
  case (Cons x xs)
  show ?case
  proof (cases "split_on c xs")
    case (Cons w ws)
    with Cons.IH show ?thesis
      by (cases ws) (auto simp: join_with_Cons)
  qed simp
qed simp

lemma split_on_no_occurrence: "c \<notin> set s \<Longrightarrow> split_on c s = [s]"
  by (induction s) auto

lemma valid_utf8_split_on [waf_utf8]:
  assumes "is_ascii c" and "valid_utf8 s" and "w \<in> set (split_on c s)"
  shows "valid_utf8 w"
proof -
  have "valid_utf8 (join_with [c] ws) \<Longrightarrow> \<forall>w \<in> set ws. valid_utf8 w" for ws
  proof (induction ws)
    case (Cons v vs)
    show ?case
    proof (cases "vs = []")
      case False
      with Cons.prems have "valid_utf8 (v @ c # join_with [c] vs)" by (simp add: join_with_Cons)
      with valid_utf8_split_ascii [OF this assms(1)] Cons.IH show ?thesis by auto
    qed (use Cons.prems in simp)
  qed simp
  from this [of "split_on c s"] assms show ?thesis by (simp add: join_split_on)
qed

lemma valid_utf8_split_once [waf_utf8]:
  "split_once_char c s = Some (a, b) \<Longrightarrow> is_ascii c \<Longrightarrow> valid_utf8 s \<Longrightarrow>
     valid_utf8 a \<and> valid_utf8 b"
  using split_once_char_Some valid_utf8_split_ascii by blast

section \<open>Prefixes, suffixes and trimming\<close>

definition strip_prefix :: "string \<Rightarrow> string \<Rightarrow> string option" where
  "strip_prefix p s = (if prefix p s then Some (drop (length p) s) else None)"

definition strip_suffix :: "string \<Rightarrow> string \<Rightarrow> string option" where
  "strip_suffix p s = (if suffix p s then Some (take (length s - length p) s) else None)"

definition unwrap_or :: "'a option \<Rightarrow> 'a \<Rightarrow> 'a" where
  "unwrap_or x d = (case x of None \<Rightarrow> d | Some v \<Rightarrow> v)"

lemma unwrap_or_simps [simp]: "unwrap_or None d = d" "unwrap_or (Some v) d = v"
  by (simp_all add: unwrap_or_def)

text \<open>\<^verbatim>\<open>str::trim\<close> removes the Unicode \<^verbatim>\<open>White_Space\<close> characters.\<close>

definition white_space :: "string list" where
  "white_space = map encode_utf8
     ([9, 10, 11, 12, 13, 32, 133, 160, 5760] @ [8192..<8203] @ [8232, 8233, 8239, 8287, 12288])"

lemma white_space_code [code]:
  "white_space =
    [[CHR 0x09],
     [CHR 0x0A],
     [CHR 0x0B],
     [CHR 0x0C],
     [CHR 0x0D],
     [CHR 0x20],
     [CHR 0xC2, CHR 0x85],
     [CHR 0xC2, CHR 0xA0],
     [CHR 0xE1, CHR 0x9A, CHR 0x80],
     [CHR 0xE2, CHR 0x80, CHR 0x80],
     [CHR 0xE2, CHR 0x80, CHR 0x81],
     [CHR 0xE2, CHR 0x80, CHR 0x82],
     [CHR 0xE2, CHR 0x80, CHR 0x83],
     [CHR 0xE2, CHR 0x80, CHR 0x84],
     [CHR 0xE2, CHR 0x80, CHR 0x85],
     [CHR 0xE2, CHR 0x80, CHR 0x86],
     [CHR 0xE2, CHR 0x80, CHR 0x87],
     [CHR 0xE2, CHR 0x80, CHR 0x88],
     [CHR 0xE2, CHR 0x80, CHR 0x89],
     [CHR 0xE2, CHR 0x80, CHR 0x8A],
     [CHR 0xE2, CHR 0x80, CHR 0xA8],
     [CHR 0xE2, CHR 0x80, CHR 0xA9],
     [CHR 0xE2, CHR 0x80, CHR 0xAF],
     [CHR 0xE2, CHR 0x81, CHR 0x9F],
     [CHR 0xE3, CHR 0x80, CHR 0x80]]"
  by (simp add: white_space_def encode_utf8_def upt_rec_numeral char_of_def bit_Suc_0_iff)

fun strip_any :: "string list \<Rightarrow> string \<Rightarrow> string option" where
  "strip_any [] s = None"
| "strip_any (w # ws) s =
     (if w \<noteq> [] \<and> prefix w s then Some (drop (length w) s) else strip_any ws s)"

lemma strip_any_length [waf_len]: "strip_any ws s = Some t \<Longrightarrow> length t < length s"
  by (induction ws s rule: strip_any.induct) (auto split: if_splits simp: prefix_def)

function strip_all :: "string list \<Rightarrow> string \<Rightarrow> string" where
  "strip_all ws s = (case strip_any ws s of None \<Rightarrow> s | Some t \<Rightarrow> strip_all ws t)"
  by pat_completeness auto
termination
  by (relation "measure (\<lambda>(ws, s). length s)") (auto dest: strip_any_length)

declare strip_all.simps [simp del]

definition trim_start :: "string \<Rightarrow> string" where
  "trim_start s = strip_all white_space s"

definition trim_end :: "string \<Rightarrow> string" where
  "trim_end s = rev (strip_all (map rev white_space) (rev s))"

definition trim_str :: "string \<Rightarrow> string" where
  "trim_str s = trim_end (trim_start s)"

definition trim_end_char :: "char \<Rightarrow> string \<Rightarrow> string" where
  "trim_end_char c s = rev (dropWhile (\<lambda>x. x = c) (rev s))"

definition trim_matches_char :: "char \<Rightarrow> string \<Rightarrow> string" where
  "trim_matches_char c s = trim_end_char c (dropWhile (\<lambda>x. x = c) s)"

lemma strip_all_length [waf_len]: "length (strip_all ws s) \<le> length s"
proof (induction ws s rule: strip_all.induct)
  case (1 ws s)
  show ?case
  proof (cases "strip_any ws s")
    case (Some t)
    with 1 have "length (strip_all ws t) \<le> length t" by blast
    with Some strip_any_length [OF Some] show ?thesis by (simp add: strip_all.simps [of ws s])
  qed (simp add: strip_all.simps [of ws s])
qed

lemma trim_str_length [waf_len]: "length (trim_str s) \<le> length s"
  using strip_all_length [of white_space s]
    strip_all_length [of "map rev white_space" "rev (strip_all white_space s)"]
  by (simp add: trim_str_def trim_end_def trim_start_def)

section \<open>Integers as text\<close>

definition digit_value :: "nat \<Rightarrow> char \<Rightarrow> nat option" where
  "digit_value radix c =
     (let d = (if is_ascii_digit c then byte c - 48
               else if is_ascii_lowercase c then byte c - 87
               else if is_ascii_uppercase c then byte c - 55
               else 36)
      in if d < radix then Some d else None)"

fun digits_value :: "nat \<Rightarrow> string \<Rightarrow> nat \<Rightarrow> nat option" where
  "digits_value r [] acc = Some acc"
| "digits_value r (c # cs) acc =
     (case digit_value r c of None \<Rightarrow> None | Some d \<Rightarrow> digits_value r cs (acc * r + d))"

definition u32_from_str_radix :: "string \<Rightarrow> nat \<Rightarrow> nat option" where
  "u32_from_str_radix s radix =
     (let ds = (case s of c # t \<Rightarrow> if c = CHR ''+'' then t else s | [] \<Rightarrow> [])
      in if ds = [] then None
         else case digits_value radix ds 0 of
                None \<Rightarrow> None
              | Some n \<Rightarrow> if n < 2 ^ 32 then Some n else None)"

definition i64_from_str :: "string \<Rightarrow> int option" where
  "i64_from_str s =
     (case s of
        [] \<Rightarrow> None
      | c # t \<Rightarrow>
          let (neg, ds) = (if c = CHR ''-'' then (True, t) else if c = CHR ''+'' then (False, t)
                           else (False, s))
          in if ds = [] then None
             else case digits_value 10 ds 0 of
                    None \<Rightarrow> None
                  | Some n \<Rightarrow>
                      if neg then (if n \<le> 2 ^ 63 then Some (- int n) else None)
                      else (if n < 2 ^ 63 then Some (int n) else None))"

lemma i64_from_str_code [code]:
  "i64_from_str s =
     (case s of
        [] \<Rightarrow> None
      | c # t \<Rightarrow>
          let (neg, ds) = (if c = CHR ''-'' then (True, t) else if c = CHR ''+'' then (False, t)
                           else (False, s))
          in if ds = [] then None
             else (case digits_value 10 ds 0 of
                    None \<Rightarrow> None
                  | Some n \<Rightarrow>
                      let i = int n
                      in if neg then (if i \<le> 9223372036854775808 then Some (- i) else None)
                         else (if i < 9223372036854775808 then Some i else None)))"
proof -
  have "n \<le> 2 ^ 63 \<longleftrightarrow> int n \<le> 9223372036854775808" "n < 2 ^ 63 \<longleftrightarrow> int n < 9223372036854775808" for n :: nat
    by simp_all
  then show ?thesis by (simp only: i64_from_str_def Let_def)
qed

definition USIZE_MAX :: nat where "USIZE_MAX = 2 ^ 64 - 1"

definition usize_from_str :: "string \<Rightarrow> nat option" where
  "usize_from_str s =
     (let ds = (case s of [] \<Rightarrow> [] | c # t \<Rightarrow> if c = CHR ''+'' then t else s) in
      if ds = [] then None
      else case digits_value 10 ds 0 of
             None \<Rightarrow> None
           | Some n \<Rightarrow> if n \<le> USIZE_MAX then Some n else None)"

fun show_nat :: "nat \<Rightarrow> string" where
  "show_nat n = (if n < 10 then [char_of (48 + n)]
                 else show_nat (n div 10) @ [char_of (48 + n mod 10)])"

declare show_nat.simps [simp del]

definition show_int :: "int \<Rightarrow> string" where
  "show_int i = (if i < 0 then CHR ''-'' # show_nat (nat (- i)) else show_nat (nat i))"

definition i64_range :: "int \<Rightarrow> bool" where
  "i64_range i \<longleftrightarrow> - (2 ^ 63) \<le> i \<and> i < 2 ^ 63"

lemma i64_from_str_range: "i64_from_str s = Some i \<Longrightarrow> i64_range i"
  by (auto simp: i64_from_str_def i64_range_def Let_def
      split: list.splits option.splits if_splits prod.splits)

lemma digits_value_append:
  "digits_value r (xs @ ys) acc = Option.bind (digits_value r xs acc) (digits_value r ys)"
  by (induction xs arbitrary: acc) (auto split: option.splits)

lemma digit_value_digit: "n < 10 \<Longrightarrow> digit_value 10 (char_of (48 + n)) = Some n"
  by (simp add: digit_value_def is_ascii_digit_def)

lemma digits_value_show_nat: "digits_value 10 (show_nat n) 0 = Some n"
proof (induction n rule: show_nat.induct)
  case (1 n)
  show ?case
  proof (cases "n < 10")
    case True
    then show ?thesis by (simp add: show_nat.simps [of n] digit_value_digit)
  next
    case False
    with 1 show ?thesis
      by (simp add: show_nat.simps [of n] digits_value_append digit_value_digit)
  qed
qed

lemma show_nat_digits: "c \<in> set (show_nat n) \<Longrightarrow> is_ascii_digit c"
proof (induction n rule: show_nat.induct)
  case (1 n)
  have d: "is_ascii_digit (char_of (48 + k))" if "k < 10" for k :: nat
    using that by (simp add: is_ascii_digit_def)
  from 1 show ?case
    by (subst (asm) (2) show_nat.simps) (auto simp: d split: if_splits)
qed

lemma show_nat_not_Nil [simp]: "show_nat n \<noteq> []"
  by (subst show_nat.simps) simp

lemma i64_show_int_roundtrip:
  assumes r: "i64_range i"
  shows "i64_from_str (show_int i) = Some i"
proof (cases "i < 0")
  case True
  with r have "nat (- i) \<le> 2 ^ 63" by (simp add: i64_range_def)
  with True show ?thesis
    by (simp add: i64_from_str_def show_int_def digits_value_show_nat)
next
  case False
  obtain c t where ct: "show_nat (nat i) = c # t"
    using show_nat_not_Nil by (meson neq_Nil_conv)
  then have "is_ascii_digit c" using show_nat_digits [of c "nat i"] by simp
  then have c: "c \<noteq> CHR ''-''" "c \<noteq> CHR ''+''" by (auto simp: is_ascii_digit_def)
  from r False have "nat i < 2 ^ 63" by (simp add: i64_range_def)
  with False c ct digits_value_show_nat [of "nat i"] show ?thesis
    by (simp add: i64_from_str_def show_int_def)
qed

section \<open>Order on text\<close>

fun str_less :: "string \<Rightarrow> string \<Rightarrow> bool" where
  "str_less [] ys \<longleftrightarrow> ys \<noteq> []"
| "str_less (x # xs) [] \<longleftrightarrow> False"
| "str_less (x # xs) (y # ys) \<longleftrightarrow> byte x < byte y \<or> (x = y \<and> str_less xs ys)"

lemma str_less_irrefl [simp]: "\<not> str_less s s"
  by (induction s) auto

lemma str_less_linear: "str_less a b \<or> a = b \<or> str_less b a"
proof (induction a b rule: str_less.induct)
  case (3 x xs y ys)
  then show ?case using byte_eq_iff [of x y] by (cases "byte x" "byte y" rule: linorder_cases) auto
next
  case (1 ys)
  then show ?case by (cases ys) auto
qed simp

lemma str_less_asym: "str_less a b \<Longrightarrow> \<not> str_less b a"
proof (induction a b rule: str_less.induct)
  case (1 ys)
  then show ?case by (cases ys) auto
qed auto

section \<open>Pieces of text are text\<close>

lemma strip_any_Some: "strip_any ws s = Some t \<Longrightarrow> \<exists>w \<in> set ws. s = w @ t"
  by (induction ws) (auto simp: strip_prefix_def prefix_def split: option.splits if_splits)

lemma strip_all_concat: "\<exists>us. set us \<subseteq> set ws \<and> s = concat us @ strip_all ws s"
proof (induction ws s rule: strip_all.induct)
  case (1 ws s)
  show ?case
  proof (cases "strip_any ws s")
    case None
    then show ?thesis by (subst strip_all.simps) (auto intro: exI [of _ "[]"])
  next
    case (Some t)
    with 1 obtain us where us: "set us \<subseteq> set ws" "t = concat us @ strip_all ws t" by blast
    from strip_any_Some [OF Some] obtain w where "w \<in> set ws" "s = w @ t" by blast
    with us Some show ?thesis by (subst strip_all.simps) (auto intro!: exI [of _ "w # us"])
  qed
qed

lemma white_space_valid: "w \<in> set white_space \<Longrightarrow> valid_utf8 w"
  unfolding white_space_def set_map by (auto simp: scalar_value_def intro!: valid_utf8_encode_utf8)

lemma valid_utf8_concat: "\<forall>w \<in> set ws. valid_utf8 w \<Longrightarrow> valid_utf8 (concat ws)"
  by (induction ws) (simp_all add: valid_utf8_append)

lemma valid_utf8_trim_start [waf_utf8]: "valid_utf8 s \<Longrightarrow> valid_utf8 (trim_start s)"
proof -
  assume v: "valid_utf8 s"
  obtain us where us: "set us \<subseteq> set white_space" "s = concat us @ trim_start s"
    unfolding trim_start_def using strip_all_concat by blast
  then have "valid_utf8 (concat us)" by (intro valid_utf8_concat) (auto intro: white_space_valid)
  with v us(2) show ?thesis by (metis valid_utf8_append)
qed

lemma valid_utf8_trim_end [waf_utf8]: "valid_utf8 s \<Longrightarrow> valid_utf8 (trim_end s)"
proof -
  assume v: "valid_utf8 s"
  obtain us where us: "set us \<subseteq> set (map rev white_space)"
    "rev s = concat us @ strip_all (map rev white_space) (rev s)" using strip_all_concat by blast
  define t where "t = rev (concat us)"
  have "t = concat (rev (map rev us))" unfolding t_def by (simp add: rev_concat rev_map)
  moreover have "\<forall>w \<in> set (rev (map rev us)). valid_utf8 w" using us(1) by (auto intro!: white_space_valid)
  ultimately have "valid_utf8 t" by (simp add: valid_utf8_concat)
  moreover have "s = trim_end s @ t" using us(2) unfolding trim_end_def t_def by (metis rev_append rev_rev_ident)
  ultimately show ?thesis using v valid_utf8_split_boundary [of "trim_end s" t] valid_utf8_boundary by metis
qed

lemma valid_utf8_trim_str [waf_utf8]: "valid_utf8 s \<Longrightarrow> valid_utf8 (trim_str s)"
  by (simp add: trim_str_def valid_utf8_trim_start valid_utf8_trim_end)

lemma split_once_str_length [waf_len]:
  "split_once_str d s = Some (a, b) \<Longrightarrow> d \<noteq> [] \<Longrightarrow> length b < length s"
proof -
  assume "split_once_str d s = Some (a, b)" and d: "d \<noteq> []"
  then obtain i where i: "find_str d s = Some i" and b: "b = drop (i + length d) s"
    by (auto simp: split_once_str_def split: option.splits)
  have "1 \<le> length d" using d by (cases d) auto
  with find_str_Some [OF i] show ?thesis unfolding b length_drop by linarith
qed

lemma valid_utf8_split_once_str:
  assumes "split_once_str d s = Some (a, b)" and "valid_utf8 s" and "valid_utf8 d"
  shows "valid_utf8 a \<and> valid_utf8 b"
proof -
  obtain i where i: "find_str d s = Some i" and ab: "a = take i s" "b = drop (i + length d) s"
    using assms(1) by (auto simp: split_once_str_def split: option.splits)
  have s: "s = a @ d @ b" using find_str_Some [OF i] by (simp add: ab)
  show ?thesis
  proof (cases "d = []")
    case True
    have "i = 0" using i True by (cases s) auto
    with ab True assms(2) show ?thesis by simp
  next
    case False
    have "boundary d" using assms(3) by (rule valid_utf8_boundary)
    with False have "boundary (d @ b)" by (cases d) (simp_all add: boundary_def)
    with valid_utf8_split_boundary [of a "d @ b"] assms(2) s have "valid_utf8 a" "valid_utf8 (d @ b)" by auto
    with assms(3) show ?thesis by (simp add: valid_utf8_append)
  qed
qed

lemma valid_utf8_dropWhile:
  assumes "valid_utf8 s" and "\<And>x. P x \<Longrightarrow> is_ascii x"
  shows "valid_utf8 (dropWhile P s)"
proof -
  have "\<forall>x \<in> set (takeWhile P s). is_ascii x" using assms(2) set_takeWhileD by fast
  with valid_utf8_ascii_prefix [of "takeWhile P s" "dropWhile P s"] assms(1) show ?thesis by simp
qed

lemma valid_utf8_trim_end_char: "valid_utf8 s \<Longrightarrow> is_ascii c \<Longrightarrow> valid_utf8 (trim_end_char c s)"
proof -
  assume v: "valid_utf8 s" and c: "is_ascii c"
  let ?t = "rev (takeWhile (\<lambda>x. x = c) (rev s))"
  have "s = trim_end_char c s @ ?t"
    unfolding trim_end_char_def by (metis rev_append rev_rev_ident takeWhile_dropWhile_id)
  moreover have "\<forall>x \<in> set ?t. is_ascii x" using c by (auto dest: set_takeWhileD)
  ultimately show ?thesis using v valid_utf8_ascii_suffix by metis
qed

lemma valid_utf8_trim_matches: "valid_utf8 s \<Longrightarrow> is_ascii c \<Longrightarrow> valid_utf8 (trim_matches_char c s)"
  unfolding trim_matches_char_def
  by (intro valid_utf8_trim_end_char valid_utf8_dropWhile) auto

end
