(* ===== verification/Circuit_Breaker.thy ===== *)
theory Circuit_Breaker
  imports Rust_Text Complex_Main
begin

text \<open>
  \<^verbatim>\<open>src/pingap-upstream/src/backend_stats.rs\<close> and
  \<^verbatim>\<open>src/pingap-upstream/src/backend_circuit_state.rs\<close>, with the three methods of
  \<^verbatim>\<open>src/pingap-upstream/src/upstream.rs\<close> that drive them: the outcome counters of the backends
  and the circuit breaker that takes a failing backend out of rotation.

  An \<^verbatim>\<open>Instant\<close> and a \<^verbatim>\<open>Duration\<close> are naturals (nanoseconds); the clock reading of a call is an argument, and so
  is the outcome of \<^verbatim>\<open>try_lock\<close>.  The rate estimators are a crate outside the repository: their
  state is a type parameter and \<open>RateLib\<close> holds what the code calls.  Floating-point numbers are
  reals, without rounding.  Every operation on a breaker first loads the atomic state and then acts,
  under the lock or by a store; the second half takes the loaded value as an argument, so that
  a run may interleave other operations in between.
\<close>

section \<open>Outcome counters\<close>

record ConsecutiveCounters =
  failures :: u32
  successes :: u32

definition counters_default :: ConsecutiveCounters where
  "counters_default = \<lparr>failures = 0, successes = 0\<rparr>"

definition counters_record :: "bool \<Rightarrow> ConsecutiveCounters \<Rightarrow> ConsecutiveCounters" where
  "counters_record failure c =
     (if failure then c\<lparr>successes := 0, failures := failures c + 1\<rparr>
      else c\<lparr>failures := 0, successes := successes c + 1\<rparr>)"

record WindowStats =
  failure_rate_percent :: real
  rps :: real
  total_requests :: "64 word"

text \<open>
  What the code uses of the estimator crate: a fresh estimator for an interval, recording an
  event for a key, and the rate per second it reads for a key.  Floating-point numbers are reals.
\<close>

record 'r RateLib =
  rate_new :: "nat \<Rightarrow> 'r"
  rate_observe :: "nat \<Rightarrow> string \<Rightarrow> nat \<Rightarrow> 'r \<Rightarrow> 'r"
  rate_of :: "nat \<Rightarrow> string \<Rightarrow> 'r \<Rightarrow> real"

record ('r, 's) BackendStats =
  failure_status_codes :: "'s set option"
  stats_interval :: nat
  total_rate :: 'r
  failure_rate :: 'r
  consecutive_counters :: "string \<rightharpoonup> ConsecutiveCounters"

definition stats_new :: "'r RateLib \<Rightarrow> (u16 \<Rightarrow> 's option) \<Rightarrow> nat \<Rightarrow> u16 list \<Rightarrow> ('r, 's) BackendStats" where
  "stats_new lib from_u16 interval codes =
     (let ok = set (List.map_filter from_u16 codes) in
      \<lparr>failure_status_codes = (if ok = {} then None else Some ok),
       stats_interval = interval,
       total_rate = rate_new lib interval,
       failure_rate = rate_new lib interval,
       consecutive_counters = Map.empty\<rparr>)"

definition stats_record ::
  "'r RateLib \<Rightarrow> nat \<Rightarrow> string \<Rightarrow> bool \<Rightarrow> ('r, 's) BackendStats \<Rightarrow> ('r, 's) BackendStats" where
  "stats_record lib now address failure st =
     (let st1 = st\<lparr>total_rate := rate_observe lib now address 1 (total_rate st)\<rparr>;
          st2 = (if failure
                 then st1\<lparr>failure_rate := rate_observe lib now address 1 (failure_rate st1)\<rparr>
                 else st1);
          c = unwrap_or (consecutive_counters st2 address) counters_default
      in st2\<lparr>consecutive_counters := (consecutive_counters st2)(address \<mapsto> counters_record failure c)\<rparr>)"

definition stats_on_transport_failure ::
  "'r RateLib \<Rightarrow> nat \<Rightarrow> string \<Rightarrow> ('r, 's) BackendStats \<Rightarrow> ('r, 's) BackendStats" where
  "stats_on_transport_failure lib now address st = stats_record lib now address True st"

definition stats_on_response ::
  "'r RateLib \<Rightarrow> ('s \<Rightarrow> bool) \<Rightarrow> nat \<Rightarrow> string \<Rightarrow> 's \<Rightarrow> ('r, 's) BackendStats
    \<Rightarrow> bool \<times> ('r, 's) BackendStats" where
  "stats_on_response lib is_server_error now address status st =
     (let failure = (case failure_status_codes st of
                       None \<Rightarrow> is_server_error status
                     | Some codes \<Rightarrow> status \<in> codes)
      in (failure, stats_record lib now address failure st))"

text \<open>The cast \<^verbatim>\<open>as u64\<close> drops the fraction and saturates.\<close>

definition f64_as_u64 :: "real \<Rightarrow> 64 word" where
  "f64_as_u64 x = word_of_nat (min (2 ^ 64 - 1) (nat \<lfloor>x\<rfloor>))"

definition get_window_stats :: "'r RateLib \<Rightarrow> nat \<Rightarrow> ('r, 's) BackendStats \<Rightarrow> string \<Rightarrow> WindowStats" where
  "get_window_stats lib now st address =
     (let interval = real (stats_interval st) / 10 ^ 9;
          r = rate_of lib now address (total_rate st);
          total = r * interval;
          failure = rate_of lib now address (failure_rate st) * interval;
          percent = (if total > 0 then (failure / total) * 100 else 0)
      in \<lparr>failure_rate_percent = percent, rps = r, total_requests = f64_as_u64 total\<rparr>)"

definition get_consecutive_successes :: "('r, 's) BackendStats \<Rightarrow> string \<Rightarrow> u32" where
  "get_consecutive_successes st address =
     unwrap_or (map_option successes (consecutive_counters st address)) 0"

definition get_consecutive_failures :: "('r, 's) BackendStats \<Rightarrow> string \<Rightarrow> u32" where
  "get_consecutive_failures st address =
     unwrap_or (map_option failures (consecutive_counters st address)) 0"

text \<open>The addresses are those of the upstream's current backends.\<close>

definition get_all_stats ::
  "'r RateLib \<Rightarrow> nat \<Rightarrow> string list \<Rightarrow> ('r, 's) BackendStats
    \<Rightarrow> (string \<rightharpoonup> WindowStats) \<times> ('r, 's) BackendStats" where
  "get_all_stats lib now backends st =
     (let st' = st\<lparr>consecutive_counters := (consecutive_counters st) |` set backends\<rparr>
      in ((\<lambda>a. if a \<in> set backends then Some (get_window_stats lib now st' a) else None), st'))"

section \<open>The breaker of one backend\<close>

record CircuitBreakerConfig =
  max_consecutive_failures :: u32
  max_failure_percent :: real
  min_requests_threshold :: "64 word"
  half_open_consecutive_success_threshold :: u32
  open_duration :: nat

definition breaker_config_default :: CircuitBreakerConfig where
  "breaker_config_default =
     \<lparr>max_consecutive_failures = 5, max_failure_percent = 50, min_requests_threshold = 10,
      half_open_consecutive_success_threshold = 5, open_duration = 10 * 10 ^ 9\<rparr>"

definition STATE_CLOSED :: u8 where "STATE_CLOSED = 0"

definition STATE_OPEN :: u8 where "STATE_OPEN = 1"

definition STATE_HALF_OPEN :: u8 where "STATE_HALF_OPEN = 2"

record BreakerStateData =
  open_until :: nat
  probes_sent :: u32
  half_open_until :: nat

definition breaker_data_new :: "nat \<Rightarrow> nat \<Rightarrow> BreakerStateData" where
  "breaker_data_new now dur =
     \<lparr>open_until = now + dur, probes_sent = 0, half_open_until = now\<rparr>"

record BackendCircuitState =
  current_state :: u8
  data :: BreakerStateData

definition circuit_state_new :: "nat \<Rightarrow> BackendCircuitState" where
  "circuit_state_new now =
     \<lparr>current_state = STATE_CLOSED,
      data = \<lparr>open_until = now, probes_sent = 0, half_open_until = now\<rparr>\<rparr>"

text \<open>\<open>locked\<close> is whether \<^verbatim>\<open>try_lock\<close> got the lock.\<close>

definition check_open_state_non_blocking ::
  "CircuitBreakerConfig \<Rightarrow> bool \<Rightarrow> nat \<Rightarrow> BackendCircuitState \<Rightarrow> bool \<times> BackendCircuitState" where
  "check_open_state_non_blocking cfg locked now state =
     (if \<not> locked then (False, state)
      else if open_until (data state) \<le> now
      then (True, state\<lparr>data := (data state)\<lparr>probes_sent := 1,
                                    half_open_until := now + open_duration cfg\<rparr>,
                        current_state := STATE_HALF_OPEN\<rparr>)
      else (False, state))"

definition check_half_open_state_non_blocking ::
  "CircuitBreakerConfig \<Rightarrow> bool \<Rightarrow> nat \<Rightarrow> BackendCircuitState \<Rightarrow> bool \<times> BackendCircuitState" where
  "check_half_open_state_non_blocking cfg locked now state =
     (if \<not> locked then (False, state)
      else if half_open_until (data state) \<le> now
      then (False, state\<lparr>data := (data state)\<lparr>probes_sent := 0,
                                     open_until := now + open_duration cfg\<rparr>,
                         current_state := STATE_OPEN\<rparr>)
      else if probes_sent (data state) < half_open_consecutive_success_threshold cfg
      then (True, state\<lparr>data := (data state)\<lparr>probes_sent := probes_sent (data state) + 1\<rparr>\<rparr>)
      else (False, state))"

text \<open>The admission check after the load of the state gave \<open>state_now\<close>.\<close>

definition acceptable_after_load ::
  "CircuitBreakerConfig \<Rightarrow> u8 \<Rightarrow> bool \<Rightarrow> nat \<Rightarrow> BackendCircuitState \<Rightarrow> bool \<times> BackendCircuitState" where
  "acceptable_after_load cfg state_now locked now state =
     (if state_now = STATE_CLOSED then (True, state)
      else if state_now = STATE_OPEN then check_open_state_non_blocking cfg locked now state
      else if state_now = STATE_HALF_OPEN
      then check_half_open_state_non_blocking cfg locked now state
      else (False, state))"

text \<open>
  The report of an outcome after the load gave \<open>state_now\<close>; \<open>succs\<close>, \<open>fails\<close> and \<open>win\<close> are
  what the counters and the window of the backend read.
\<close>

definition breaker_trips :: "CircuitBreakerConfig \<Rightarrow> u32 \<Rightarrow> WindowStats \<Rightarrow> bool" where
  "breaker_trips cfg fails win =
     (let is_fail = (max_consecutive_failures cfg > 0 \<and> max_consecutive_failures cfg \<le> fails)
      in if \<not> is_fail \<and> max_failure_percent cfg > 0 \<and> max_failure_percent cfg \<le> 100
            \<and> min_requests_threshold cfg \<le> total_requests win
            \<and> max_failure_percent cfg \<le> failure_rate_percent win
         then True else is_fail)"

definition update_after_load ::
  "CircuitBreakerConfig \<Rightarrow> u8 \<Rightarrow> bool \<Rightarrow> nat \<Rightarrow> bool \<Rightarrow> u32 \<Rightarrow> u32 \<Rightarrow> WindowStats
    \<Rightarrow> BackendCircuitState \<Rightarrow> BackendCircuitState" where
  "update_after_load cfg state_now locked now is_request_failure succs fails win state =
     (if \<not> is_request_failure
      then if state_now = STATE_CLOSED then state
           else if state_now = STATE_HALF_OPEN
                   \<and> half_open_consecutive_success_threshold cfg \<le> succs
           then state\<lparr>current_state := STATE_CLOSED\<rparr>
           else state
      else if \<not> locked then state
      else if state_now = STATE_CLOSED
      then if breaker_trips cfg fails win
           then state\<lparr>current_state := STATE_OPEN,
                      data := breaker_data_new now (open_duration cfg)\<rparr>
           else state
      else if state_now = STATE_HALF_OPEN
      then state\<lparr>current_state := STATE_OPEN,
                 data := breaker_data_new now (open_duration cfg)\<rparr>
      else state)"

section \<open>The key of a backend\<close>

text \<open>
  The address is displayed into a fixed buffer, piece by piece as the formatter emits it; a
  piece that does not fit makes the whole write fail, and the key is then allocated.
\<close>

definition ADDR_KEY_CAP :: nat where "ADDR_KEY_CAP = 64"

definition key_write_str :: "string \<Rightarrow> string \<Rightarrow> string option" where
  "key_write_str s buf =
     (if length buf + length s > ADDR_KEY_CAP then None else Some (buf @ s))"

fun key_write_all :: "string list \<Rightarrow> string \<Rightarrow> string option" where
  "key_write_all [] buf = Some buf"
| "key_write_all (s # ss) buf =
     (case key_write_str s buf of None \<Rightarrow> None | Some buf' \<Rightarrow> key_write_all ss buf')"

definition key_as_str :: "string \<Rightarrow> string" where
  "key_as_str buf = (if valid_utf8 buf then buf else [])"

definition addr_key :: "string list \<Rightarrow> string" where
  "addr_key pieces =
     (case key_write_all pieces [] of
        Some buf \<Rightarrow> key_as_str buf
      | None \<Rightarrow> concat pieces)"

section \<open>The breakers of an upstream\<close>

record BackendCircuitStates =
  backend_states :: "string \<rightharpoonup> BackendCircuitState"
  config :: CircuitBreakerConfig

definition circuit_states_new :: "CircuitBreakerConfig \<Rightarrow> BackendCircuitStates" where
  "circuit_states_new c = \<lparr>backend_states = Map.empty, config = c\<rparr>"

definition get_or_create_backend_circuit_state ::
  "nat \<Rightarrow> string \<Rightarrow> BackendCircuitStates \<Rightarrow> BackendCircuitState \<times> BackendCircuitStates" where
  "get_or_create_backend_circuit_state now address bs =
     (case backend_states bs address of
        Some state \<Rightarrow> (state, bs)
      | None \<Rightarrow> (let state = circuit_state_new now in
                 (state, bs\<lparr>backend_states := (backend_states bs)(address \<mapsto> state)\<rparr>)))"

definition get_state_code :: "BackendCircuitStates \<Rightarrow> string \<Rightarrow> u8" where
  "get_state_code bs address =
     unwrap_or (map_option current_state (backend_states bs address)) STATE_CLOSED"

definition get_all_state_codes :: "BackendCircuitStates \<Rightarrow> (string \<rightharpoonup> u8)" where
  "get_all_state_codes bs = map_option current_state \<circ> backend_states bs"

definition is_backend_acceptable ::
  "bool \<Rightarrow> nat \<Rightarrow> string list \<Rightarrow> BackendCircuitStates \<Rightarrow> bool \<times> BackendCircuitStates" where
  "is_backend_acceptable locked now addr bs =
     (let key = addr_key addr;
          (state, bs1) = get_or_create_backend_circuit_state now key bs;
          (ok, state') = acceptable_after_load (config bs) (current_state state) locked now state
      in (ok, bs1\<lparr>backend_states := (backend_states bs1)(key \<mapsto> state')\<rparr>))"

definition update_state_after_request ::
  "'r RateLib \<Rightarrow> bool \<Rightarrow> nat \<Rightarrow> string \<Rightarrow> bool \<Rightarrow> ('r, 's) BackendStats \<Rightarrow> BackendCircuitStates
    \<Rightarrow> BackendCircuitStates" where
  "update_state_after_request lib locked now address is_request_failure stats bs =
     (let (state, bs1) = get_or_create_backend_circuit_state now address bs;
          state' = update_after_load (config bs) (current_state state) locked now
                     is_request_failure (get_consecutive_successes stats address)
                     (get_consecutive_failures stats address)
                     (get_window_stats lib now stats address) state
      in bs1\<lparr>backend_states := (backend_states bs1)(address \<mapsto> state')\<rparr>)"

section \<open>The upstream's handlers\<close>

record ('r, 's) Upstream =
  backend_stats :: "('r, 's) BackendStats option"
  circuit_breaker_states :: "BackendCircuitStates option"

definition accept_backend ::
  "bool \<Rightarrow> nat \<Rightarrow> string list \<Rightarrow> bool \<Rightarrow> ('r, 's) Upstream \<Rightarrow> bool \<times> ('r, 's) Upstream" where
  "accept_backend locked now addr healthy up =
     (if \<not> healthy then (False, up)
      else case circuit_breaker_states up of
             None \<Rightarrow> (True, up)
           | Some states \<Rightarrow>
               (let (ok, states') = is_backend_acceptable locked now addr states
                in (ok, up\<lparr>circuit_breaker_states := Some states'\<rparr>)))"

definition on_transport_failure ::
  "'r RateLib \<Rightarrow> bool \<Rightarrow> nat \<Rightarrow> string \<Rightarrow> ('r, 's) Upstream \<Rightarrow> ('r, 's) Upstream" where
  "on_transport_failure lib locked now address up =
     (case backend_stats up of
        None \<Rightarrow> up
      | Some stats \<Rightarrow>
          (let stats' = stats_on_transport_failure lib now address stats;
               up1 = up\<lparr>backend_stats := Some stats'\<rparr>
           in case circuit_breaker_states up1 of
                None \<Rightarrow> up1
              | Some states \<Rightarrow>
                  up1\<lparr>circuit_breaker_states :=
                        Some (update_state_after_request lib locked now address True stats' states)\<rparr>))"

definition on_response ::
  "'r RateLib \<Rightarrow> ('s \<Rightarrow> bool) \<Rightarrow> bool \<Rightarrow> nat \<Rightarrow> string \<Rightarrow> 's \<Rightarrow> ('r, 's) Upstream \<Rightarrow> ('r, 's) Upstream" where
  "on_response lib is_server_error locked now address status up =
     (case backend_stats up of
        None \<Rightarrow> up
      | Some stats \<Rightarrow>
          (let (failed, stats') = stats_on_response lib is_server_error now address status stats;
               up1 = up\<lparr>backend_stats := Some stats'\<rparr>
           in case circuit_breaker_states up1 of
                None \<Rightarrow> up1
              | Some states \<Rightarrow>
                  up1\<lparr>circuit_breaker_states :=
                        Some (update_state_after_request lib locked now address failed stats' states)\<rparr>))"

section \<open>Interleaved runs of one breaker\<close>

text \<open>
  The operations on one breaker as events: an admission check, and the report of an outcome
  with what the statistics of the backend read at that moment.
\<close>

datatype BreakerEvent =
    Check bool nat
  | Report bool nat bool u32 u32 WindowStats

definition breaker_event ::
  "CircuitBreakerConfig \<Rightarrow> u8 \<Rightarrow> BreakerEvent \<Rightarrow> BackendCircuitState \<Rightarrow> bool \<times> BackendCircuitState" where
  "breaker_event cfg state_now ev state =
     (case ev of
        Check locked now \<Rightarrow> acceptable_after_load cfg state_now locked now state
      | Report locked now failed succs fails win \<Rightarrow>
          (False, update_after_load cfg state_now locked now failed succs fails win state))"

text \<open>
  A run: event \<open>n\<close> takes effect on \<open>\<sigma> n\<close>, with the state its load saw at the earlier moment
  \<open>load n\<close>.
\<close>

definition breaker_run ::
  "CircuitBreakerConfig \<Rightarrow> (nat \<Rightarrow> BreakerEvent) \<Rightarrow> (nat \<Rightarrow> nat) \<Rightarrow> (nat \<Rightarrow> BackendCircuitState) \<Rightarrow> bool" where
  "breaker_run cfg ev load \<sigma> \<longleftrightarrow>
     (\<forall>n. load n \<le> n \<and>
          \<sigma> (Suc n) = snd (breaker_event cfg (current_state (\<sigma> (load n))) (ev n) (\<sigma> n)))"

definition admitted ::
  "CircuitBreakerConfig \<Rightarrow> (nat \<Rightarrow> BreakerEvent) \<Rightarrow> (nat \<Rightarrow> nat) \<Rightarrow> (nat \<Rightarrow> BackendCircuitState) \<Rightarrow> nat \<Rightarrow> bool" where
  "admitted cfg ev load \<sigma> n =
     fst (breaker_event cfg (current_state (\<sigma> (load n))) (ev n) (\<sigma> n))"

text \<open>No operation is delayed forever between its load and its effect.\<close>

definition loads_progress :: "(nat \<Rightarrow> nat) \<Rightarrow> bool" where
  "loads_progress load \<longleftrightarrow> (\<forall>m. \<exists>N. \<forall>n \<ge> N. m \<le> load n)"

text \<open>Checks that get the lock keep coming, at ever later times.\<close>

definition checks_recur :: "(nat \<Rightarrow> BreakerEvent) \<Rightarrow> bool" where
  "checks_recur ev \<longleftrightarrow> (\<forall>N t. \<exists>n \<ge> N. \<exists>now \<ge> t. ev n = Check True now)"

text \<open>A sequential run: each operation loads the state it acts on.\<close>

fun breaker_seq ::
  "CircuitBreakerConfig \<Rightarrow> BackendCircuitState \<Rightarrow> BreakerEvent list \<Rightarrow> nat \<times> BackendCircuitState" where
  "breaker_seq cfg state [] = (0, state)"
| "breaker_seq cfg state (e # es) =
     (let (ok, state') = breaker_event cfg (current_state state) e state;
          (n, state'') = breaker_seq cfg state' es
      in ((if ok then 1 else 0) + n, state''))"

text \<open>Operations that all loaded \<open>state_now\<close> before the first of them took effect.\<close>

fun breaker_batch ::
  "CircuitBreakerConfig \<Rightarrow> u8 \<Rightarrow> BackendCircuitState \<Rightarrow> BreakerEvent list \<Rightarrow> nat \<times> BackendCircuitState" where
  "breaker_batch cfg state_now state [] = (0, state)"
| "breaker_batch cfg state_now state (e # es) =
     (let (ok, state') = breaker_event cfg state_now e state;
          (n, state'') = breaker_batch cfg state_now state' es
      in ((if ok then 1 else 0) + n, state''))"

section \<open>Lemmas\<close>

named_theorems breaker_defs "the effects of the operations on one breaker"

declare STATE_CLOSED_def [breaker_defs] STATE_OPEN_def [breaker_defs]
  STATE_HALF_OPEN_def [breaker_defs]

lemma breaker_states_distinct [simp]:
  "STATE_OPEN \<noteq> STATE_HALF_OPEN" "STATE_CLOSED \<noteq> STATE_HALF_OPEN" "STATE_CLOSED \<noteq> STATE_OPEN"
  "STATE_HALF_OPEN \<noteq> STATE_OPEN" "STATE_HALF_OPEN \<noteq> STATE_CLOSED" "STATE_OPEN \<noteq> STATE_CLOSED"
  by (simp_all add: breaker_defs)

declare acceptable_after_load_def [breaker_defs] check_open_state_non_blocking_def [breaker_defs]
  check_half_open_state_non_blocking_def [breaker_defs] update_after_load_def [breaker_defs]
  breaker_event_def [breaker_defs] breaker_data_new_def [breaker_defs]

lemma key_write_all_eq:
  "key_write_all ss buf = (if length buf + length (concat ss) \<le> ADDR_KEY_CAP \<or> ss = []
                           then Some (buf @ concat ss) else None)"
  by (induction ss arbitrary: buf) (auto simp: key_write_str_def)

lemma addr_key_concat: "\<forall>s \<in> set pieces. valid_utf8 s \<Longrightarrow> addr_key pieces = concat pieces"
  by (simp add: addr_key_def key_write_all_eq key_as_str_def valid_utf8_concat)

lemma acceptable_entry:
  "is_backend_acceptable locked now addr bs =
     (let k = addr_key addr;
          st = unwrap_or (backend_states bs k) (circuit_state_new now);
          r = acceptable_after_load (config bs) (current_state st) locked now st
      in (fst r, bs\<lparr>backend_states := (backend_states bs)(k \<mapsto> snd r)\<rparr>))"
  by (auto simp: is_backend_acceptable_def get_or_create_backend_circuit_state_def Let_def
      split: option.splits prod.splits)

lemma update_entry:
  "update_state_after_request lib locked now a failed stats bs =
     (let st = unwrap_or (backend_states bs a) (circuit_state_new now)
      in bs\<lparr>backend_states := (backend_states bs)(a \<mapsto>
           update_after_load (config bs) (current_state st) locked now failed
             (get_consecutive_successes stats a) (get_consecutive_failures stats a)
             (get_window_stats lib now stats a) st)\<rparr>)"
  by (auto simp: update_state_after_request_def get_or_create_backend_circuit_state_def Let_def
      split: option.splits)

subsection \<open>A breaker never stops probing\<close>

definition state_code_ok :: "BackendCircuitState \<Rightarrow> bool" where
  "state_code_ok st \<longleftrightarrow> current_state st \<in> {STATE_CLOSED, STATE_OPEN, STATE_HALF_OPEN}"

lemma event_code_ok: "state_code_ok st \<Longrightarrow> state_code_ok (snd (breaker_event c s e st))"
  by (auto simp: state_code_ok_def breaker_defs split: BreakerEvent.split)

lemma run_code_ok: "breaker_run c ev load \<sigma> \<Longrightarrow> state_code_ok (\<sigma> 0) \<Longrightarrow> state_code_ok (\<sigma> n)"
  by (induction n) (auto simp: breaker_run_def event_code_ok)

text \<open>Without an admission, what an event can do to the state it finds.\<close>

lemma silent_not_half_open:
  "\<not> fst (breaker_event c s e st) \<Longrightarrow> current_state st \<noteq> STATE_HALF_OPEN \<Longrightarrow>
   current_state (snd (breaker_event c s e st)) \<noteq> STATE_HALF_OPEN"
  by (auto simp: breaker_defs split: BreakerEvent.splits if_splits)

lemma silent_half_open_data:
  "\<not> fst (breaker_event c s e st) \<Longrightarrow> current_state (snd (breaker_event c s e st)) = STATE_HALF_OPEN \<Longrightarrow>
   half_open_until (data (snd (breaker_event c s e st))) = half_open_until (data st)"
  by (auto simp: breaker_defs split: BreakerEvent.splits if_splits)

lemma silent_open_stays:
  "\<not> fst (breaker_event c s e st) \<Longrightarrow> s \<noteq> STATE_HALF_OPEN \<Longrightarrow> current_state st = STATE_OPEN \<Longrightarrow>
   current_state (snd (breaker_event c s e st)) = STATE_OPEN"
  by (auto simp: breaker_defs split: BreakerEvent.splits if_splits)

lemma silent_open_unchanged:
  "\<not> fst (breaker_event c STATE_OPEN e st) \<Longrightarrow> snd (breaker_event c STATE_OPEN e st) = st"
  by (auto simp: breaker_defs split: BreakerEvent.splits if_splits)

lemma silent_check:
  assumes "\<not> fst (breaker_event c s (Check True now) st)"
  shows "s \<noteq> STATE_CLOSED"
    and "s = STATE_OPEN \<Longrightarrow> now < open_until (data st)"
    and "s = STATE_HALF_OPEN \<Longrightarrow> half_open_until (data st) \<le> now \<Longrightarrow>
         current_state (snd (breaker_event c s (Check True now) st)) = STATE_OPEN"
  using assms by (auto simp: breaker_defs split: if_splits)

lemma stays_from:
  assumes "P (\<sigma> m)" "\<And>n. m \<le> n \<Longrightarrow> P (\<sigma> n) \<Longrightarrow> P (\<sigma> (Suc n))" "m \<le> n"
  shows "P (\<sigma> n)"
  using assms(3) by (induction n rule: dec_induct) (auto intro: assms)

definition silent_from ::
  "CircuitBreakerConfig \<Rightarrow> (nat \<Rightarrow> BreakerEvent) \<Rightarrow> (nat \<Rightarrow> nat) \<Rightarrow> (nat \<Rightarrow> BackendCircuitState) \<Rightarrow> nat \<Rightarrow> bool" where
  "silent_from c ev load \<sigma> N \<longleftrightarrow> breaker_run c ev load \<sigma> \<and> (\<forall>n \<ge> N. \<not> admitted c ev load \<sigma> n)"

lemma silent_fromD:
  assumes "silent_from c ev load \<sigma> N" "N \<le> n"
  shows "\<not> fst (breaker_event c (current_state (\<sigma> (load n))) (ev n) (\<sigma> n))"
    and "\<sigma> (Suc n) = snd (breaker_event c (current_state (\<sigma> (load n))) (ev n) (\<sigma> n))"
  using assms by (auto simp: silent_from_def admitted_def breaker_run_def)

lemma silent_from_later: "silent_from c ev load \<sigma> N \<Longrightarrow> N \<le> M \<Longrightarrow> silent_from c ev load \<sigma> M"
  by (auto simp: silent_from_def)

lemma late_check:
  assumes "checks_recur ev" "loads_progress load"
  shows "\<exists>n now. M \<le> n \<and> M \<le> load n \<and> t \<le> now \<and> ev n = Check True now"
proof -
  obtain N where N: "\<forall>n \<ge> N. M \<le> load n" using assms(2) by (auto simp: loads_progress_def)
  obtain n now where "max M N \<le> n" "t \<le> now" "ev n = Check True now"
    using assms(1) unfolding checks_recur_def by blast
  with N show ?thesis by (intro exI [of _ n] exI [of _ now]) auto
qed

lemma silent_leaves_half_open:
  assumes s: "silent_from c ev load \<sigma> N" and fair: "checks_recur ev" "loads_progress load"
  shows "\<exists>n \<ge> N. current_state (\<sigma> n) \<noteq> STATE_HALF_OPEN"
proof (rule ccontr)
  assume "\<not> ?thesis"
  then have half: "\<And>n. N \<le> n \<Longrightarrow> current_state (\<sigma> n) = STATE_HALF_OPEN" by blast
  have const: "half_open_until (data (\<sigma> n)) = half_open_until (data (\<sigma> N))" if "N \<le> n" for n
    using that
  proof (induction n rule: dec_induct)
    case (step n)
    then show ?case
      using silent_half_open_data [OF silent_fromD(1) [OF s step.hyps(1)]]
        silent_fromD(2) [OF s step.hyps(1)] half [of "Suc n"]
      by simp
  qed simp
  obtain n now where n: "N \<le> n" "N \<le> load n" "half_open_until (data (\<sigma> N)) \<le> now"
      "ev n = Check True now"
    using late_check [OF fair] by blast
  have "current_state (\<sigma> (Suc n)) = STATE_OPEN"
    using silent_check(3) [OF silent_fromD(1) [OF s n(1), unfolded n(4)] half [OF n(2)]]
      silent_fromD(2) [OF s n(1)] const [OF n(1)] n(3,4)
    by simp
  then show False using half [of "Suc n"] n(1) by simp
qed

lemma silent_not_half_open_from:
  assumes "silent_from c ev load \<sigma> M" "current_state (\<sigma> M) \<noteq> STATE_HALF_OPEN" "M \<le> n"
  shows "current_state (\<sigma> n) \<noteq> STATE_HALF_OPEN"
proof (rule stays_from [where P = "\<lambda>s. current_state s \<noteq> STATE_HALF_OPEN" and \<sigma> = \<sigma> and m = M, OF assms(2) _ assms(3)])
  fix n assume n: "M \<le> n" "current_state (\<sigma> n) \<noteq> STATE_HALF_OPEN"
  show "current_state (\<sigma> (Suc n)) \<noteq> STATE_HALF_OPEN"
    using silent_not_half_open [OF silent_fromD(1) [OF assms(1) n(1)] n(2)] silent_fromD(2) [OF assms(1) n(1)]
    by simp
qed

lemma silent_open_impossible:
  assumes s: "silent_from c ev load \<sigma> M" and fair: "checks_recur ev" "loads_progress load"
    and no_half: "\<forall>n \<ge> M. current_state (\<sigma> (load n)) \<noteq> STATE_HALF_OPEN"
    and open_M: "current_state (\<sigma> M) = STATE_OPEN"
  shows False
proof -
  have opened: "current_state (\<sigma> n) = STATE_OPEN" if "M \<le> n" for n
  proof (rule stays_from [where P = "\<lambda>s. current_state s = STATE_OPEN" and \<sigma> = \<sigma> and m = M, OF open_M _ that])
    fix n assume n: "M \<le> n" "current_state (\<sigma> n) = STATE_OPEN"
    show "current_state (\<sigma> (Suc n)) = STATE_OPEN"
      using silent_open_stays [OF silent_fromD(1) [OF s n(1)] _ n(2)] silent_fromD(2) [OF s n(1)] no_half n(1)
      by simp
  qed
  obtain K where K: "\<forall>n \<ge> K. M \<le> load n" using fair(2) by (auto simp: loads_progress_def)
  define L where "L = max K M"
  have const: "\<sigma> n = \<sigma> L" if "L \<le> n" for n
    using that
  proof (induction n rule: dec_induct)
    case (step n)
    then have "current_state (\<sigma> (load n)) = STATE_OPEN" "M \<le> n" using opened K by (auto simp: L_def)
    then show ?case
      using silent_open_unchanged [of c "ev n" "\<sigma> n"] silent_fromD [OF s, of n] step.IH by simp
  qed simp
  obtain n now where n: "L \<le> n" "L \<le> load n" "open_until (data (\<sigma> L)) \<le> now" "ev n = Check True now"
    using late_check [OF fair] by blast
  moreover have "M \<le> n" "M \<le> load n" using n by (auto simp: L_def)
  ultimately show False
    using silent_check(2) [OF silent_fromD(1) [OF s, of n, unfolded n(4)]] opened [of "load n"] const [OF n(1)]
    by simp
qed

lemma silent_impossible:
  assumes s: "silent_from c ev load \<sigma> N" and ok: "state_code_ok (\<sigma> 0)"
    and fair: "checks_recur ev" "loads_progress load"
  shows False
proof -
  obtain A where A: "N \<le> A" "current_state (\<sigma> A) \<noteq> STATE_HALF_OPEN"
    using silent_leaves_half_open [OF s fair] by blast
  have nh: "current_state (\<sigma> n) \<noteq> STATE_HALF_OPEN" if "A \<le> n" for n
    using silent_not_half_open_from [OF silent_from_later [OF s A(1)] A(2) that] .
  obtain K where K: "\<forall>n \<ge> K. A \<le> load n" using fair(2) by (auto simp: loads_progress_def)
  have no_open: "current_state (\<sigma> n) \<noteq> STATE_OPEN" if "max A K \<le> n" for n
    using silent_open_impossible [OF silent_from_later [OF s, of n] fair] A(1) that nh K by fastforce
  have closed: "current_state (\<sigma> n) = STATE_CLOSED" if "max A K \<le> n" for n
    using run_code_ok [of c ev load \<sigma> n] ok s no_open [OF that] nh [of n] that
    by (auto simp: silent_from_def state_code_ok_def)
  obtain n now where n: "max A K \<le> n" "max A K \<le> load n" "ev n = Check True now"
    using late_check [OF fair] by blast
  then show False
    using silent_check(1) [OF silent_fromD(1) [OF s, of n, unfolded n(3)]] closed A(1) by simp
qed

text \<open>
  C6: an admission check keeps succeeding infinitely often: however the operations on a breaker
  interleave between their load of the state and their effect, a breaker that is asked again and
  again, at ever later times and not always while another thread holds its lock, never rejects
  its backend forever.  A probe that is never answered does not strand it.
\<close>

theorem breaker_keeps_probing:
  assumes "breaker_run cfg ev load \<sigma>" "state_code_ok (\<sigma> 0)"
    and "checks_recur ev" "loads_progress load"
  shows "\<forall>N. \<exists>n \<ge> N. admitted cfg ev load \<sigma> n"
  using silent_impossible [of cfg ev load \<sigma>] assms by (auto simp: silent_from_def)

definition demo_open :: BackendCircuitState where
  "demo_open = \<lparr>current_state = STATE_OPEN,
                data = \<lparr>open_until = 7, probes_sent = 0, half_open_until = 0\<rparr>\<rparr>"

primrec demo_run :: "nat \<Rightarrow> BackendCircuitState" where
  "demo_run 0 = demo_open"
| "demo_run (Suc n) =
     snd (breaker_event breaker_config_default (current_state (demo_run n)) (Check True n) (demo_run n))"

theorem breaker_keeps_probing_witness:
  "breaker_run breaker_config_default (Check True) (\<lambda>n. n) demo_run \<and> state_code_ok (demo_run 0) \<and>
   (\<forall>N. \<exists>n \<ge> N. admitted breaker_config_default (Check True) (\<lambda>n. n) demo_run n)"
proof -
  have run: "breaker_run breaker_config_default (Check True) (\<lambda>n. n) demo_run"
    by (simp add: breaker_run_def)
  have ok: "state_code_ok (demo_run 0)" by (simp add: state_code_ok_def demo_open_def)
  have "checks_recur (Check True)"
    unfolding checks_recur_def by (metis nat_le_linear order_refl)
  moreover have "loads_progress (\<lambda>n. n)" by (auto simp: loads_progress_def)
  ultimately have "\<forall>N. \<exists>n \<ge> N. admitted breaker_config_default (Check True) (\<lambda>n. n) demo_run n"
    by (rule breaker_keeps_probing [OF run ok])
  with run ok show ?thesis by blast
qed

subsection \<open>A failing backend is taken out\<close>

text \<open>
  The operations on one backend, at the address that \<open>addr\<close> displays: a selection, a connection
  that failed and a response; each with the outcome of its \<^verbatim>\<open>try_lock\<close> and its time.
\<close>

datatype 's BackendOp = Selected bool nat bool | Failed bool nat | Responded bool nat 's

definition backend_op ::
  "'r RateLib \<Rightarrow> ('s \<Rightarrow> bool) \<Rightarrow> string list \<Rightarrow> 's BackendOp \<Rightarrow> ('r, 's) Upstream \<Rightarrow> ('r, 's) Upstream" where
  "backend_op lib is_server_error addr op up =
     (case op of
        Selected locked now healthy \<Rightarrow> snd (accept_backend locked now addr healthy up)
      | Failed locked now \<Rightarrow> on_transport_failure lib locked now (concat addr) up
      | Responded locked now status \<Rightarrow> on_response lib is_server_error locked now (concat addr) status up)"

definition is_selection :: "'s BackendOp \<Rightarrow> bool" where
  "is_selection op \<longleftrightarrow> (case op of Selected _ _ _ \<Rightarrow> True | _ \<Rightarrow> False)"

definition op_failed :: "('s \<Rightarrow> bool) \<Rightarrow> 's set option \<Rightarrow> 's BackendOp \<Rightarrow> bool" where
  "op_failed is_server_error codes op \<longleftrightarrow>
     (case op of
        Selected _ _ _ \<Rightarrow> False
      | Failed _ _ \<Rightarrow> True
      | Responded _ _ status \<Rightarrow> (case codes of None \<Rightarrow> is_server_error status | Some cs \<Rightarrow> status \<in> cs))"

fun op_time :: "'s BackendOp \<Rightarrow> nat" where
  "op_time (Selected _ now _) = now"
| "op_time (Failed _ now) = now"
| "op_time (Responded _ now _) = now"

fun op_locked :: "'s BackendOp \<Rightarrow> bool" where
  "op_locked (Selected locked _ _) = locked"
| "op_locked (Failed locked _) = locked"
| "op_locked (Responded locked _ _) = locked"

text \<open>The end of the open period of a backend's breaker, if it is open.\<close>

definition open_period :: "('r, 's) Upstream \<Rightarrow> string \<Rightarrow> nat option" where
  "open_period up a =
     (case circuit_breaker_states up of
        None \<Rightarrow> None
      | Some bs \<Rightarrow>
          (case backend_states bs a of
             None \<Rightarrow> None
           | Some st \<Rightarrow> if current_state st = STATE_OPEN then Some (open_until (data st)) else None))"

text \<open>The counter of failures in a row is between \<open>lo\<close> and \<open>hi\<close>, and the state code is a known one.\<close>

definition tracked ::
  "CircuitBreakerConfig \<Rightarrow> 's set option \<Rightarrow> string \<Rightarrow> nat \<Rightarrow> nat \<Rightarrow> ('r, 's) Upstream \<Rightarrow> bool" where
  "tracked cfg codes a lo hi up \<longleftrightarrow>
     (\<exists>stats bs. backend_stats up = Some stats \<and> failure_status_codes stats = codes \<and>
        circuit_breaker_states up = Some bs \<and> config bs = cfg \<and>
        lo \<le> unat (get_consecutive_failures stats a) \<and> unat (get_consecutive_failures stats a) \<le> hi \<and>
        (\<forall>now. state_code_ok (unwrap_or (backend_states bs a) (circuit_state_new now))))"

text \<open>Both reports of an outcome record it and then tell the breaker.\<close>

lemma backend_op_report:
  assumes "\<not> is_selection op" "backend_stats up = Some stats" "circuit_breaker_states up = Some bs"
  shows "backend_op lib ise addr op up =
    (let failed = op_failed ise (failure_status_codes stats) op;
         stats' = stats_record lib (op_time op) (concat addr) failed stats
     in up\<lparr>backend_stats := Some stats', circuit_breaker_states :=
          Some (update_state_after_request lib (op_locked op) (op_time op) (concat addr) failed stats' bs)\<rparr>)"
  using assms
  by (cases op) (simp_all add: backend_op_def is_selection_def op_failed_def on_transport_failure_def
      on_response_def stats_on_transport_failure_def stats_on_response_def Let_def split: option.split)

lemma backend_op_selection:
  assumes "is_selection op" "circuit_breaker_states up = Some bs"
  shows "backend_op lib ise addr op up = up \<or>
    (\<exists>locked now. backend_op lib ise addr op up =
       up\<lparr>circuit_breaker_states := Some (snd (is_backend_acceptable locked now addr bs))\<rparr>)"
  using assms
  by (cases op) (auto simp: backend_op_def is_selection_def accept_backend_def split_beta)

lemma failure_codes_record [simp]:
  "failure_status_codes (stats_record lib now a f stats) = failure_status_codes stats"
  by (simp add: stats_record_def Let_def)

lemma failures_record:
  "get_consecutive_failures (stats_record lib now a f stats) a =
     (if f then get_consecutive_failures stats a + 1 else 0)"
  by (cases "consecutive_counters stats a")
    (simp_all add: get_consecutive_failures_def stats_record_def counters_record_def counters_default_def Let_def)

lemma circuit_state_new_ok [simp]: "state_code_ok (circuit_state_new now)"
  by (simp add: state_code_ok_def circuit_state_new_def)

lemma update_code_ok:
  "state_code_ok st \<Longrightarrow> state_code_ok (update_after_load cfg s locked now f succs fails win st)"
  using event_code_ok [of st cfg s "Report locked now f succs fails win"] by (simp add: breaker_event_def)

lemma acceptable_code_ok:
  "state_code_ok st \<Longrightarrow> state_code_ok (snd (acceptable_after_load cfg s locked now st))"
  using event_code_ok [of st cfg s "Check locked now"] by (simp add: breaker_event_def)

lemma tracked_step:
  assumes tr: "tracked cfg codes (concat addr) lo hi up" and wrap: "Suc hi < 2 ^ 32"
  shows "tracked cfg codes (concat addr)
    (if op_failed ise codes op then Suc lo else if is_selection op then lo else 0) (Suc hi)
    (backend_op lib ise addr op up)"
proof -
  obtain stats bs where up: "backend_stats up = Some stats" "failure_status_codes stats = codes"
      "circuit_breaker_states up = Some bs" "config bs = cfg"
      and n: "lo \<le> unat (get_consecutive_failures stats (concat addr))"
        "unat (get_consecutive_failures stats (concat addr)) \<le> hi"
      and ok: "\<And>now. state_code_ok (unwrap_or (backend_states bs (concat addr)) (circuit_state_new now))"
    using tr unfolding tracked_def by blast
  show ?thesis
  proof (cases "is_selection op")
    case True
    then have "\<not> op_failed ise codes op" by (cases op) (simp_all add: is_selection_def op_failed_def)
    moreover have "tracked cfg codes (concat addr) lo (Suc hi)
        (up\<lparr>circuit_breaker_states := Some (snd (is_backend_acceptable locked now addr bs))\<rparr>)" for locked now
      using up n ok by (auto simp: tracked_def acceptable_entry Let_def acceptable_code_ok)
    moreover have "tracked cfg codes (concat addr) lo (Suc hi) up" using up n ok by (auto simp: tracked_def)
    ultimately show ?thesis using backend_op_selection [OF True up(3), of lib ise addr] True by auto
  next
    case False
    have "unat (get_consecutive_failures stats (concat addr) + 1)
        = Suc (unat (get_consecutive_failures stats (concat addr)))"
      using wrap n(2) by (simp add: unat_word_ariths(1))
    then show ?thesis using up n ok False
      by (simp add: backend_op_report [OF False up(1,3)] tracked_def Let_def failures_record update_entry
          update_code_ok)
  qed
qed

lemma tracked_any:
  assumes "tracked cfg codes (concat addr) lo hi up" "hi + length ops < 2 ^ 32"
  shows "tracked cfg codes (concat addr) 0 (hi + length ops) (fold (backend_op lib ise addr) ops up)"
  using assms
proof (induction ops arbitrary: lo hi up)
  case Nil
  then show ?case by (auto simp: tracked_def)
next
  case (Cons op ops)
  then show ?case using Cons.IH [OF tracked_step [OF Cons.prems(1)]] by simp
qed

lemma tracked_failures:
  assumes "tracked cfg codes (concat addr) lo hi up" "hi + length ops < 2 ^ 32"
    and "list_all (\<lambda>op. is_selection op \<or> op_failed ise codes op) ops"
  shows "tracked cfg codes (concat addr) (lo + length (filter (op_failed ise codes) ops)) (hi + length ops)
    (fold (backend_op lib ise addr) ops up)"
  using assms
proof (induction ops arbitrary: lo hi up)
  case (Cons op ops)
  let ?lo = "if op_failed ise codes op then Suc lo else lo"
  have "tracked cfg codes (concat addr) ?lo (Suc hi) (backend_op lib ise addr op up)"
    using tracked_step [OF Cons.prems(1), of ise op lib] Cons.prems(2,3) by (auto split: if_splits)
  from Cons.IH [OF this] Cons.prems(2,3) show ?case by (simp split: if_splits)
qed simp

text \<open>The failure that reaches the limit, with the lock, leaves the breaker open.\<close>

lemma tracked_trips:
  assumes "tracked cfg codes (concat addr) lo hi up" "Suc hi < 2 ^ 32" "op_failed ise codes op" "op_locked op"
    and "0 < max_consecutive_failures cfg" "unat (max_consecutive_failures cfg) \<le> Suc lo"
  shows "\<exists>u. open_period (backend_op lib ise addr op up) (concat addr) = Some u
    \<and> (u = op_time op + open_duration cfg \<or> open_period up (concat addr) = Some u)"
proof -
  let ?a = "concat addr"
  obtain stats bs where up: "backend_stats up = Some stats" "failure_status_codes stats = codes"
      "circuit_breaker_states up = Some bs" "config bs = cfg"
      and n: "lo \<le> unat (get_consecutive_failures stats ?a)" "unat (get_consecutive_failures stats ?a) \<le> hi"
      and ok: "\<And>now. state_code_ok (unwrap_or (backend_states bs ?a) (circuit_state_new now))"
    using assms(1) unfolding tracked_def by blast
  have sel: "\<not> is_selection op" using assms(3) by (cases op) (simp_all add: is_selection_def op_failed_def)
  define st where "st = unwrap_or (backend_states bs ?a) (circuit_state_new (op_time op))"
  define stats' where "stats' = stats_record lib (op_time op) ?a True stats"
  have "unat (get_consecutive_failures stats ?a + 1) = Suc (unat (get_consecutive_failures stats ?a))"
    using assms(2) n(2) by (simp add: unat_word_ariths(1))
  then have trips: "breaker_trips cfg (get_consecutive_failures stats' ?a) win" for win
    using assms(5,6) n(1) by (simp add: breaker_trips_def stats'_def failures_record word_le_nat_alt)
  define st' where "st' = update_after_load cfg (current_state st) True (op_time op) True
    (get_consecutive_successes stats' ?a) (get_consecutive_failures stats' ?a)
    (get_window_stats lib (op_time op) stats' ?a) st"
  have st': "current_state st' = STATE_OPEN" "open_until (data st') = op_time op + open_duration cfg
      \<or> current_state st = STATE_OPEN \<and> st' = st"
    using ok [of "op_time op", folded st_def] trips
    by (auto simp: st'_def update_after_load_def breaker_data_new_def state_code_ok_def)
  have "open_period (backend_op lib ise addr op up) ?a = Some (open_until (data st'))"
    using up assms(3,4) st'(1)
    by (simp add: backend_op_report [OF sel up(1,3)] open_period_def Let_def update_entry
        stats'_def [symmetric] st_def [symmetric] st'_def [symmetric])
  moreover have "open_period up ?a = Some (open_until (data st))" if "current_state st = STATE_OPEN"
    using that up(3) by (cases "backend_states bs ?a") (simp_all add: st_def circuit_state_new_def open_period_def)
  ultimately show ?thesis using st'(2) by auto
qed

lemma open_rejects:
  assumes "open_period up (addr_key addr) = Some u" "now < u"
  shows "\<not> fst (accept_backend locked now addr healthy up)"
    and "open_period (snd (accept_backend locked now addr healthy up)) (addr_key addr) = Some u"
  using assms
  by (auto simp: accept_backend_def acceptable_entry Let_def acceptable_after_load_def open_period_def
      check_open_state_non_blocking_def split: prod.splits option.splits if_splits)

lemma open_period_kept:
  assumes "\<forall>s \<in> set addr. valid_utf8 s" "open_period up (concat addr) = Some u" "op_time op < u"
  shows "open_period (backend_op lib ise addr op up) (concat addr) = Some u"
proof -
  obtain bs st where bs: "circuit_breaker_states up = Some bs" "backend_states bs (concat addr) = Some st"
      "current_state st = STATE_OPEN" "open_until (data st) = u"
    using assms(2) by (auto simp: open_period_def split: option.splits if_splits)
  note key = addr_key_concat [OF assms(1)]
  show ?thesis
  proof (cases "is_selection op")
    case True
    then show ?thesis using open_rejects(2) [of up addr u] assms(2,3) unfolding key
      by (cases op) (simp_all add: backend_op_def is_selection_def)
  next
    case False
    have upd: "update_after_load (config bs) STATE_OPEN l t f x y w st = st" for l t f x y w
      by (simp add: update_after_load_def)
    show ?thesis
    proof (cases "backend_stats up")
      case None
      with False assms(2) show ?thesis
        by (cases op) (simp_all add: backend_op_def is_selection_def on_transport_failure_def on_response_def)
    next
      case (Some stats)
      then show ?thesis
        by (simp add: backend_op_report [OF False Some bs(1)] Let_def open_period_def update_entry bs upd)
    qed
  qed
qed

lemma open_period_fold:
  "\<forall>s \<in> set addr. valid_utf8 s \<Longrightarrow> open_period up (concat addr) = Some u \<Longrightarrow> list_all (\<lambda>op. op_time op < u) ops \<Longrightarrow>
   open_period (fold (backend_op lib ise addr) ops up) (concat addr) = Some u"
  by (induction ops arbitrary: up) (simp_all add: open_period_kept)

text \<open>
  C13: a backend that keeps failing is taken out of rotation.  Consider any operations on a backend,
  in whatever state its breaker is, then a stretch with no good response, and then one more
  failure that gets the breaker's lock and with which the stretch holds as many failures as the
  limit (failed connections and error responses count, with or without the lock; selections may
  fall between them; the 32-bit counter does not wrap).  The breaker is then open: for a full
  open duration from that failure, or, if it was open already, to the end of that period.  Until
  that end no selection accepts the backend, whatever the health check says and whatever other
  selections, failures and responses of it happen before.
\<close>

theorem failing_backend_rejected:
  assumes "backend_stats up = Some stats" "circuit_breaker_states up = Some bs"
    and "get_state_code bs (concat addr) \<in> {STATE_CLOSED, STATE_OPEN, STATE_HALF_OPEN}"
    and "\<forall>s \<in> set addr. valid_utf8 s" "0 < max_consecutive_failures (config bs)"
    and "unat (get_consecutive_failures stats (concat addr)) + length (before @ stretch) + 1 < 2 ^ 32"
    and "list_all (\<lambda>op. is_selection op \<or> op_failed ise (failure_status_codes stats) op) stretch"
    and "op_failed ise (failure_status_codes stats) final" "op_locked final"
    and "unat (max_consecutive_failures (config bs))
           \<le> length (filter (op_failed ise (failure_status_codes stats)) stretch) + 1"
    and "up1 = fold (backend_op lib ise addr) (before @ stretch) up" "up2 = backend_op lib ise addr final up1"
  shows "\<exists>u. open_period up2 (concat addr) = Some u
      \<and> (u = op_time final + open_duration (config bs) \<or> open_period up1 (concat addr) = Some u)
      \<and> (\<forall>after locked now healthy. list_all (\<lambda>op. op_time op < u) after \<and> now < u \<longrightarrow>
           \<not> fst (accept_backend locked now addr healthy (fold (backend_op lib ise addr) after up2)))"
proof -
  let ?f0 = "unat (get_consecutive_failures stats (concat addr))" and ?codes = "failure_status_codes stats"
  have "state_code_ok (unwrap_or (backend_states bs (concat addr)) (circuit_state_new now))" for now
    using assms(3) by (cases "backend_states bs (concat addr)")
      (simp_all add: get_state_code_def state_code_ok_def circuit_state_new_def)
  then have "tracked (config bs) ?codes (concat addr) 0 ?f0 up"
    using assms(1,2) by (simp add: tracked_def)
  from tracked_any [OF this, of before lib ise] assms(6)
  have "tracked (config bs) ?codes (concat addr) 0 (?f0 + length before) (fold (backend_op lib ise addr) before up)"
    by simp
  from tracked_failures [OF this _ assms(7), of lib] assms(6,11)
  have "tracked (config bs) ?codes (concat addr) (length (filter (op_failed ise ?codes) stretch))
      (?f0 + length before + length stretch) up1" by (simp add: add.assoc)
  from tracked_trips [OF this _ assms(8,9,5), of lib] assms(6,10,12)
  obtain u where u: "open_period up2 (concat addr) = Some u"
      "u = op_time final + open_duration (config bs) \<or> open_period up1 (concat addr) = Some u" by auto
  have "\<not> fst (accept_backend locked now addr healthy (fold (backend_op lib ise addr) after up2))"
    if "list_all (\<lambda>op. op_time op < u) after \<and> now < u" for "after" locked now healthy
    using open_rejects(1) [of "fold (backend_op lib ise addr) after up2" addr u now]
      open_period_fold [OF assms(4) u(1)] that by (simp add: addr_key_concat [OF assms(4)])
  with u show ?thesis by blast
qed

definition demo_rates :: "unit RateLib" where
  "demo_rates = \<lparr>rate_new = (\<lambda>_. ()), rate_observe = (\<lambda>_ _ _ r. r),
     rate_of = (\<lambda>_ _ _. 0)\<rparr>"

definition demo_upstream :: "(unit, u16) Upstream" where
  "demo_upstream =
     \<lparr>backend_stats = Some (stats_new demo_rates Some 60 [502]),
      circuit_breaker_states = Some (circuit_states_new breaker_config_default)\<rparr>"

definition demo_stretch :: "u16 BackendOp list" where
  "demo_stretch = [Failed True 3, Selected True 3 True, Failed False 4, Responded True 5 502, Failed True 6]"

abbreviation demo_backend_op :: "u16 BackendOp \<Rightarrow> (unit, u16) Upstream \<Rightarrow> (unit, u16) Upstream" where
  "demo_backend_op \<equiv> backend_op demo_rates (\<lambda>_. False) [''10.0.0.1'', '':80'']"

lemma demo_still_closed:
  "open_period (fold demo_backend_op ([Responded True 1 200] @ demo_stretch) demo_upstream) ''10.0.0.1:80'' = None"
  by (simp add: demo_stretch_def demo_upstream_def backend_op_def accept_backend_def on_transport_failure_def
      on_response_def stats_on_transport_failure_def stats_on_response_def stats_new_def stats_record_def
      counters_record_def counters_default_def update_entry acceptable_entry acceptable_after_load_def
      update_after_load_def breaker_trips_def get_consecutive_failures_def get_window_stats_def
      demo_rates_def circuit_states_new_def circuit_state_new_def breaker_config_default_def
      open_period_def addr_key_concat is_ascii_def f64_as_u64_def Let_def map_filter_simps word_le_nat_alt)

theorem failing_backend_rejected_witness:
  "let up = demo_backend_op (Failed True 7)
              (fold demo_backend_op ([Responded True 1 200] @ demo_stretch) demo_upstream)
   in open_period up ''10.0.0.1:80'' = Some (7 + 10 * 10 ^ 9)
      \<and> \<not> fst (accept_backend True 9 [''10.0.0.1'', '':80''] True (fold demo_backend_op [Failed True 8] up))"
proof -
  let ?addr = "[''10.0.0.1'', '':80'']"
  let ?up1 = "fold demo_backend_op ([Responded True 1 200] @ demo_stretch) demo_upstream"
  let ?up2 = "demo_backend_op (Failed True 7) ?up1"
  have a: "concat ?addr = ''10.0.0.1:80''" by simp
  have "\<exists>u. open_period ?up2 (concat ?addr) = Some u
      \<and> (u = op_time (Failed True 7 :: u16 BackendOp) + open_duration (config (circuit_states_new breaker_config_default))
          \<or> open_period ?up1 (concat ?addr) = Some u)
      \<and> (\<forall>after locked now healthy. list_all (\<lambda>op. op_time op < u) after \<and> now < u \<longrightarrow>
           \<not> fst (accept_backend locked now ?addr healthy (fold demo_backend_op after ?up2)))"
    by (rule failing_backend_rejected [where stats = "stats_new demo_rates Some 60 [502]", OF _ _ _ _ _ _ _ _ _ _ refl refl])
      (simp_all add: demo_upstream_def circuit_states_new_def get_state_code_def breaker_config_default_def
        stats_new_def get_consecutive_failures_def is_ascii_def is_selection_def op_failed_def demo_stretch_def
        map_filter_simps del: fold_simps)
  then obtain u where u: "open_period ?up2 ''10.0.0.1:80'' = Some u" "u = 7 + 10 * 10 ^ 9"
      "\<forall>after locked now healthy. list_all (\<lambda>op. op_time op < u) after \<and> now < u \<longrightarrow>
           \<not> fst (accept_backend locked now ?addr healthy (fold demo_backend_op after ?up2))"
    unfolding a demo_still_closed by (auto simp: circuit_states_new_def breaker_config_default_def simp del: fold_simps)
  from u(3) [rule_format, of "[Failed True 8]" 9 True True] u(1,2) show ?thesis
    unfolding Let_def by (simp del: fold_simps)
qed

subsection \<open>The probe budget\<close>

lemma half_open_event:
  assumes "current_state st = STATE_HALF_OPEN" "breaker_event cfg (current_state st) e st = (ok, st')"
    and "current_state st' = STATE_HALF_OPEN"
    and "unat (probes_sent (data st)) \<le> max 1 (unat (half_open_consecutive_success_threshold cfg))"
  shows "unat (probes_sent (data st')) = (if ok then 1 else 0) + unat (probes_sent (data st))"
    and "unat (probes_sent (data st')) \<le> max 1 (unat (half_open_consecutive_success_threshold cfg))"
proof -
  let ?p = "probes_sent (data st)" and ?thr = "half_open_consecutive_success_threshold cfg"
  have "unat ?thr < 2 ^ 32" using unsigned_less [of ?thr] by simp
  then have "unat (?p + 1) = unat ?p + 1" if "?p < ?thr"
    using that by (simp add: word_less_nat_alt unat_word_ariths(1))
  then show "unat (probes_sent (data st')) = (if ok then 1 else 0) + unat ?p"
    and "unat (probes_sent (data st')) \<le> max 1 (unat ?thr)"
    using assms by (auto simp: breaker_defs word_less_nat_alt split: BreakerEvent.splits if_splits)
qed

lemma half_open_probes:
  assumes "\<forall>i \<le> length es. current_state (snd (breaker_seq cfg st (take i es))) = STATE_HALF_OPEN"
    and "unat (probes_sent (data st)) \<le> max 1 (unat (half_open_consecutive_success_threshold cfg))"
  shows "fst (breaker_seq cfg st es) + unat (probes_sent (data st))
           \<le> max 1 (unat (half_open_consecutive_success_threshold cfg))"
  using assms
proof (induction es arbitrary: st)
  case (Cons e es)
  obtain ok st' where ev: "breaker_event cfg (current_state st) e st = (ok, st')" by fastforce
  have half: "current_state st = STATE_HALF_OPEN" using Cons.prems(1) by (metis breaker_seq.simps(1) le0 snd_conv take0)
  have rest: "current_state (snd (breaker_seq cfg st' (take i es))) = STATE_HALF_OPEN" if "i \<le> length es" for i
    using Cons.prems(1) [rule_format, of "Suc i"] that ev by (simp add: split_beta)
  from rest [of 0] have "current_state st' = STATE_HALF_OPEN" by simp
  from half_open_event [OF half ev this Cons.prems(2)] Cons.IH [of st'] rest show ?case
    using ev by (cases ok) (simp_all add: split_beta)
qed simp

text \<open>
  C26: the probe budget of an open breaker: from the moment a check turns it half-open until it
  leaves that state, sequential operations admit at most as many requests as successes are
  needed to close it, and at least the one that turned it.
\<close>

theorem probe_budget:
  assumes "check_open_state_non_blocking cfg True now st0 = (True, st)"
    and "\<forall>i \<le> length es. current_state (snd (breaker_seq cfg st (take i es))) = STATE_HALF_OPEN"
  shows "1 + fst (breaker_seq cfg st es) \<le> max 1 (unat (half_open_consecutive_success_threshold cfg))"
proof -
  have "probes_sent (data st) = 1"
    using assms(1) by (auto simp: check_open_state_non_blocking_def split: if_splits)
  then show ?thesis using half_open_probes [OF assms(2)] by (simp add: add.commute)
qed

definition demo_config :: CircuitBreakerConfig where
  "demo_config = breaker_config_default\<lparr>half_open_consecutive_success_threshold := 2, open_duration := 10\<rparr>"

definition demo_half_open :: BackendCircuitState where
  "demo_half_open = snd (check_open_state_non_blocking demo_config True 7 demo_open)"

theorem probe_budget_witness:
  "1 + fst (breaker_seq demo_config demo_half_open [Check True 8, Check True 9, Check False 9]) \<le> 2"
proof -
  have "check_open_state_non_blocking demo_config True 7 demo_open = (True, demo_half_open)"
    by (simp add: demo_half_open_def demo_open_def check_open_state_non_blocking_def)
  moreover have "\<forall>i \<le> length [Check True 8, Check True 9, Check False 9].
      current_state (snd (breaker_seq demo_config demo_half_open (take i [Check True 8, Check True 9, Check False 9])))
        = STATE_HALF_OPEN"
    by (auto simp: le_Suc_eq demo_half_open_def demo_open_def demo_config_def breaker_config_default_def breaker_defs)
  ultimately have "1 + fst (breaker_seq demo_config demo_half_open [Check True 8, Check True 9, Check False 9])
      \<le> max 1 (unat (half_open_consecutive_success_threshold demo_config))"
    by (rule probe_budget)
  then show ?thesis by (simp only: demo_config_def) (simp add: breaker_config_default_def)
qed

text \<open>
  C37: concurrent checks escape that budget.  The section that turns the breaker half-open does not
  look at the state again once it has the lock, so every check whose load saw the breaker open
  is admitted after the cooling period, and the count of probes restarts with each of them: any
  number of requests reaches the backend at once, whatever the threshold.
\<close>

theorem concurrent_checks_escape_budget:
  assumes "\<forall>e \<in> set es. \<exists>now \<ge> open_until (data st). e = Check True now"
  shows "fst (breaker_batch cfg STATE_OPEN st es) = length es"
  using assms
proof (induction es arbitrary: st)
  case (Cons e es)
  then obtain now where e: "e = Check True now" "open_until (data st) \<le> now" by auto
  let ?st = "snd (breaker_event cfg STATE_OPEN e st)"
  have "fst (breaker_event cfg STATE_OPEN e st)" "open_until (data ?st) = open_until (data st)"
    using e by (simp_all add: breaker_defs)
  then show ?case using Cons.IH [of ?st] Cons.prems by (simp add: split_beta)
qed simp

theorem concurrent_checks_escape_budget_witness:
  "fst (breaker_batch demo_config STATE_OPEN demo_open [Check True 7, Check True 7, Check True 8, Check True 9]) = 4"
  using concurrent_checks_escape_budget [of "[Check True 7, Check True 7, Check True 8, Check True 9]" demo_open demo_config]
  by (simp add: demo_open_def)

end
