(* ===== verification/Ip_Addr.thy ===== *)
theory Ip_Addr
  imports Rust_Text
begin

text \<open>
  \<^verbatim>\<open>std::net::IpAddr\<close> and its \<^verbatim>\<open>FromStr\<close>: the recursive-descent reader of the Rust
  standard library (\<^verbatim>\<open>core/src/net/parser.rs\<close>), which the expression evaluator and the engine
  call on rule literals and on the client address.  Each reader takes the remaining input and
  returns the value with the rest, or \<open>None\<close> and consumes nothing (\<^verbatim>\<open>read_atomically\<close>).
\<close>

datatype IpAddr = V4 "nat list" | V6 "nat list"

fun read_digits :: "nat \<Rightarrow> nat \<Rightarrow> nat \<Rightarrow> nat \<Rightarrow> string \<Rightarrow> (nat \<times> nat \<times> string) option" where
  "read_digits radix limit acc count [] = Some (acc, count, [])"
| "read_digits radix limit acc count (c # cs) =
     (case digit_value radix c of
        None \<Rightarrow> Some (acc, count, c # cs)
      | Some d \<Rightarrow>
          if limit \<le> acc * radix + d then None
          else read_digits radix limit (acc * radix + d) (Suc count) cs)"

definition read_number ::
  "nat \<Rightarrow> nat \<Rightarrow> nat \<Rightarrow> bool \<Rightarrow> string \<Rightarrow> (nat \<times> string) option" where
  "read_number radix limit max_digits allow_zero_prefix s =
     (case read_digits radix limit 0 0 s of
        None \<Rightarrow> None
      | Some (n, count, rest) \<Rightarrow>
          if count = 0 \<or> max_digits < count then None
          else if \<not> allow_zero_prefix \<and> 1 < count \<and> hd s = CHR ''0'' then None
          else Some (n, rest))"

definition read_char :: "char \<Rightarrow> string \<Rightarrow> string option" where
  "read_char c s = (case s of x # r \<Rightarrow> if x = c then Some r else None | [] \<Rightarrow> None)"

definition read_sep :: "char \<Rightarrow> bool \<Rightarrow> string \<Rightarrow> string option" where
  "read_sep c first s = (if first then Some s else read_char c s)"

fun read_octets :: "nat \<Rightarrow> bool \<Rightarrow> string \<Rightarrow> (nat list \<times> string) option" where
  "read_octets 0 first s = Some ([], s)"
| "read_octets (Suc n) first s =
     Option.bind (read_sep CHR ''.'' first s) (\<lambda>s1.
     Option.bind (read_number 10 256 3 False s1) (\<lambda>(o1, s2).
     Option.bind (read_octets n False s2) (\<lambda>(os, s3). Some (o1 # os, s3))))"

definition read_ipv4_addr :: "string \<Rightarrow> (nat list \<times> string) option" where
  "read_ipv4_addr s = read_octets 4 True s"

text \<open>\<^verbatim>\<open>read_groups\<close> over the \<open>k\<close> slots still free: the groups read, whether the last two
  came from an embedded IPv4 address, and the rest.\<close>

fun read_groups :: "nat \<Rightarrow> bool \<Rightarrow> string \<Rightarrow> nat list \<times> bool \<times> string" where
  "read_groups 0 first s = ([], False, s)"
| "read_groups (Suc k) first s =
     (case (if 1 \<le> k then Option.bind (read_sep CHR '':'' first s) read_ipv4_addr else None) of
        Some (os, r) \<Rightarrow> ([os ! 0 * 256 + os ! 1, os ! 2 * 256 + os ! 3], True, r)
      | None \<Rightarrow>
          (case Option.bind (read_sep CHR '':'' first s) (read_number 16 65536 4 True) of
             None \<Rightarrow> ([], False, s)
           | Some (g, r) \<Rightarrow>
               (case read_groups k False r of (gs, v4, r') \<Rightarrow> (g # gs, v4, r'))))"

definition read_ipv6_addr :: "string \<Rightarrow> (nat list \<times> string) option" where
  "read_ipv6_addr s =
     (case read_groups 8 True s of (hd_groups, hd_v4, r) \<Rightarrow>
        if length hd_groups = 8 then Some (hd_groups, r)
        else if hd_v4 then None
        else
          Option.bind (read_char CHR '':'' r) (\<lambda>r1.
          Option.bind (read_char CHR '':'' r1) (\<lambda>r2.
          case read_groups (7 - length hd_groups) True r2 of (tl_groups, _, r3) \<Rightarrow>
            Some (hd_groups @ replicate (8 - length hd_groups - length tl_groups) 0 @ tl_groups,
                  r3))))"

definition ip_from_str :: "string \<Rightarrow> IpAddr option" where
  "ip_from_str s =
     (case read_ipv4_addr s of
        Some (os, r) \<Rightarrow> if r = [] then Some (V4 os) else None
      | None \<Rightarrow>
          (case read_ipv6_addr s of
             Some (gs, r) \<Rightarrow> if r = [] then Some (V6 gs) else None
           | None \<Rightarrow> None))"

text \<open>Every accepted address is well-formed: four octets, or eight sixteen-bit groups.\<close>

definition ip_wf :: "IpAddr \<Rightarrow> bool" where
  "ip_wf ip = (case ip of V4 os \<Rightarrow> length os = 4 \<and> (\<forall>x \<in> set os. x < 256)
                        | V6 gs \<Rightarrow> length gs = 8 \<and> (\<forall>x \<in> set gs. x < 65536))"

lemma read_digits_less:
  "read_digits radix limit acc count s = Some (n, k, r) \<Longrightarrow> acc < limit \<Longrightarrow> n < limit"
  by (induction radix limit acc count s rule: read_digits.induct)
     (auto split: option.splits if_splits)

lemma read_number_less: "read_number radix limit m z s = Some (n, r) \<Longrightarrow> 0 < limit \<Longrightarrow> n < limit"
  by (auto simp: read_number_def dest: read_digits_less split: option.splits if_splits)

lemma read_octets_wf:
  "read_octets n first s = Some (os, r) \<Longrightarrow> length os = n \<and> (\<forall>x \<in> set os. x < 256)"
  by (induction n first s arbitrary: os r rule: read_octets.induct)
     (fastforce simp: bind_eq_Some_conv dest: read_number_less)+

lemma read_groups_wf:
  assumes "read_groups k first s = (gs, v4, r)"
  shows "length gs \<le> k \<and> (\<forall>x \<in> set gs. x < 65536)"
  using assms
proof (induction k first s arbitrary: gs v4 r rule: read_groups.induct)
  case (2 k first s)
  show ?case
  proof (cases "if 1 \<le> k then Option.bind (read_sep CHR '':'' first s) read_ipv4_addr else None")
    case (Some p)
    then obtain os r' where p: "p = (os, r')" by (cases p)
    with Some have k: "1 \<le> k" and "\<exists>s'. read_octets 4 True s' = Some (os, r')"
      by (auto simp: bind_eq_Some_conv read_ipv4_addr_def split: if_splits)
    then have "length os = 4" "\<forall>x \<in> set os. x < 256" using read_octets_wf by blast+
    then have "os ! 0 < 256" "os ! 1 < 256" "os ! 2 < 256" "os ! 3 < 256"
      by (auto simp: all_set_conv_all_nth)
    with 2(2) Some p k show ?thesis by auto
  next
    case None
    note outer = None
    show ?thesis
    proof (cases "Option.bind (read_sep CHR '':'' first s) (read_number 16 65536 4 True)")
      case None
      with 2(2) outer show ?thesis by simp
    next
      case (Some q)
      then obtain g r1 where q: "q = (g, r1)" by (cases q)
      with Some have "g < 65536" by (auto simp: bind_eq_Some_conv dest: read_number_less)
      moreover obtain gs' v4' r' where rec: "read_groups k False r1 = (gs', v4', r')"
        by (metis prod_cases3)
      moreover from 2(1) [OF outer Some] q rec
      have "length gs' \<le> k \<and> (\<forall>x \<in> set gs'. x < 65536)" by blast
      ultimately show ?thesis using 2(2) outer Some q by auto
    qed
  qed
qed simp

lemma ip_from_str_wf: "ip_from_str s = Some ip \<Longrightarrow> ip_wf ip"
proof -
  have v6: "length gs = 8 \<and> (\<forall>x \<in> set gs. x < 65536)"
    if "read_ipv6_addr s = Some (gs, r)" for gs r
  proof -
    obtain hs v4 r1 where h: "read_groups 8 True s = (hs, v4, r1)" by (metis prod_cases3)
    note hw = read_groups_wf [OF h]
    show ?thesis
    proof (cases "length hs = 8")
      case True
      with that h hw show ?thesis by (simp add: read_ipv6_addr_def)
    next
      case False
      with that h obtain r2 where
        r2: "(case read_groups (7 - length hs) True r2 of (tl_groups, _, r3) \<Rightarrow>
               Some (hs @ replicate (8 - length hs - length tl_groups) 0 @ tl_groups, r3))
             = Some (gs, r)"
        by (auto simp: read_ipv6_addr_def bind_eq_Some_conv split: if_split_asm)
      obtain ts v r3 where t: "read_groups (7 - length hs) True r2 = (ts, v, r3)"
        by (metis prod_cases3)
      with r2 have "gs = hs @ replicate (8 - length hs - length ts) 0 @ ts" by simp
      with read_groups_wf [OF t] hw False show ?thesis by auto
    qed
  qed
  assume "ip_from_str s = Some ip"
  then show ?thesis
    by (auto simp: ip_from_str_def ip_wf_def read_ipv4_addr_def dest: read_octets_wf v6
        split: option.splits prod.splits if_splits)
qed

end
