(* ===== verification/Http_Header.thy ===== *)
theory Http_Header
  imports Ip_Addr
begin

text \<open>
  \<^verbatim>\<open>src/pingap-core/src/http_header.rs\<close>: the host of a request, its cookies and query parameters,
  and the resolution of the client address and of the scheme through proxies the operator
  trusts.  The \<^verbatim>\<open>http\<close> and \<^verbatim>\<open>ipnet\<close> crates are outside the repository: header maps, URIs and
  networks are type parameters, and \<open>HttpLib\<close> and \<open>NetLib\<close> hold what the code calls of them.
  The lemmas show whose word decides the client address.
\<close>

section \<open>The crates the code calls\<close>

record ('h, 'u) HttpLib =
  hdr_get :: "'h \<Rightarrow> string \<Rightarrow> string option"
  hdr_get_all :: "'h \<Rightarrow> string \<Rightarrow> string list"
  hdr_iter :: "'h \<Rightarrow> (string \<times> string) list"
  hdr_remove :: "'h \<Rightarrow> string \<Rightarrow> 'h"
  hdr_insert :: "'h \<Rightarrow> string \<Rightarrow> string \<Rightarrow> 'h"
  to_str :: "string \<Rightarrow> string option"
  name_from_str :: "string \<Rightarrow> string option"
  value_from_str :: "string \<Rightarrow> string option"
  uri_host :: "'u \<Rightarrow> string option"
  uri_path :: "'u \<Rightarrow> string"
  uri_query :: "'u \<Rightarrow> string option"
  uri_from_str :: "string \<Rightarrow> 'u option"

record 'net NetLib =
  net_parse :: "string \<Rightarrow> 'net option"
  net_of_addr :: "IpAddr \<Rightarrow> 'net"
  net_trunc :: "'net \<Rightarrow> 'net"
  net_has :: "'net \<Rightarrow> IpAddr \<Rightarrow> bool"

datatype HttpVersion = HTTP_09 | HTTP_10 | HTTP_11 | HTTP_2 | HTTP_3

record ('h, 'u) RequestHeader =
  http_method :: string
  version :: HttpVersion
  uri :: 'u
  headers :: 'h

text \<open>A session as the code here reads it: the request head and the peer of the connection.\<close>

record ('h, 'u) Session =
  req_header :: "('h, 'u) RequestHeader"
  peer_addr :: "(IpAddr \<times> u16) option"

definition get_header :: "('h, 'u) HttpLib \<Rightarrow> ('h, 'u) Session \<Rightarrow> string \<Rightarrow> string option" where
  "get_header H session name = hdr_get H (headers (req_header session)) name"

section \<open>Addresses\<close>

text \<open>\<^verbatim>\<open>Display\<close> of the standard library's addresses.\<close>

definition lower_hex_digit :: "nat \<Rightarrow> char" where
  "lower_hex_digit n = (if n < 10 then char_of (48 + n) else char_of (87 + n))"

fun show_hex :: "nat \<Rightarrow> string" where
  "show_hex n = (if n < 16 then [lower_hex_digit n] else show_hex (n div 16) @ [lower_hex_digit (n mod 16)])"

declare show_hex.simps [simp del]

definition v4_to_string :: "nat list \<Rightarrow> string" where
  "v4_to_string os = join_with ''.'' (map show_nat os)"

text \<open>The run of zero groups at the front, and the first longest run of a list of groups.\<close>

fun zero_run :: "nat list \<Rightarrow> nat" where
  "zero_run (g # gs) = (if g = 0 then Suc (zero_run gs) else 0)"
| "zero_run [] = 0"

fun longest_zero_run :: "nat \<Rightarrow> nat list \<Rightarrow> nat \<times> nat" where
  "longest_zero_run i [] = (i, 0)"
| "longest_zero_run i (g # gs) =
     (let (j, n) = longest_zero_run (Suc i) gs; m = zero_run (g # gs)
      in if n \<le> m then (i, m) else (j, n))"

definition to_ipv4_mapped :: "nat list \<Rightarrow> nat list option" where
  "to_ipv4_mapped gs =
     (if length gs = 8 \<and> take 6 gs = [0, 0, 0, 0, 0, 65535]
      then Some [gs ! 6 div 256, gs ! 6 mod 256, gs ! 7 div 256, gs ! 7 mod 256] else None)"

definition v6_to_string :: "nat list \<Rightarrow> string" where
  "v6_to_string gs =
     (case to_ipv4_mapped gs of
        Some os \<Rightarrow> ''::ffff:'' @ v4_to_string os
      | None \<Rightarrow>
          (let (i, n) = longest_zero_run 0 gs
           in if n > 1
              then join_with '':'' (map show_hex (take i gs)) @ ''::''
                   @ join_with '':'' (map show_hex (drop (i + n) gs))
              else join_with '':'' (map show_hex gs)))"

definition ip_to_string :: "IpAddr \<Rightarrow> string" where
  "ip_to_string ip = (case ip of V4 os \<Rightarrow> v4_to_string os | V6 gs \<Rightarrow> v6_to_string gs)"

definition v4_is_loopback :: "nat list \<Rightarrow> bool" where
  "v4_is_loopback os \<longleftrightarrow> os ! 0 = 127"

definition v4_is_private :: "nat list \<Rightarrow> bool" where
  "v4_is_private os \<longleftrightarrow>
     os ! 0 = 10 \<or> os ! 0 = 172 \<and> 16 \<le> os ! 1 \<and> os ! 1 \<le> 31 \<or> os ! 0 = 192 \<and> os ! 1 = 168"

definition v6_is_loopback :: "nat list \<Rightarrow> bool" where
  "v6_is_loopback gs \<longleftrightarrow> gs = [0, 0, 0, 0, 0, 0, 0, 1]"

definition v6_is_unique_local :: "nat list \<Rightarrow> bool" where
  "v6_is_unique_local gs \<longleftrightarrow> gs ! 0 div 512 = 0xfc00 div 512"

section \<open>The host\<close>

definition normalize_host :: "string \<Rightarrow> string" where
  "normalize_host host = to_ascii_lowercase host"

definition strip_port :: "string \<Rightarrow> string" where
  "strip_port host =
     (if prefix ''['' host
      then (case split_once_char CHR '']'' host of Some (a, _) \<Rightarrow> a @ '']'' | None \<Rightarrow> host)
      else hd (split_on CHR '':'' host))"

definition get_host :: "('h, 'u) HttpLib \<Rightarrow> ('h, 'u) RequestHeader \<Rightarrow> string option" where
  "get_host H header =
     Option.bind
       (case uri_host H (uri header) of
          Some host \<Rightarrow> Some host
        | None \<Rightarrow> Option.bind (hdr_get H (headers header) ''host'') (to_str H))
       (\<lambda>raw. let host = strip_port raw;
                  host' = unwrap_or (strip_suffix ''.'' host) host
              in if host' = [] then None else Some (normalize_host host'))"

section \<open>Configured headers\<close>

datatype HeaderError = InvalidHeaderName string | InvalidHeaderValue string

definition convert_header ::
  "('h, 'u) HttpLib \<Rightarrow> string \<Rightarrow> HeaderError + (string \<times> string) option" where
  "convert_header H value =
     (case split_once_char CHR '':'' value of
        None \<Rightarrow> Inr None
      | Some (k, v) \<Rightarrow>
          (case name_from_str H (trim_str k) of
             None \<Rightarrow> Inl (InvalidHeaderName k)
           | Some n \<Rightarrow>
               (case value_from_str H (trim_str v) of
                  None \<Rightarrow> Inl (InvalidHeaderValue v)
                | Some w \<Rightarrow> Inr (Some (n, w)))))"

fun convert_headers ::
  "('h, 'u) HttpLib \<Rightarrow> string list \<Rightarrow> HeaderError + (string \<times> string) list" where
  "convert_headers H [] = Inr []"
| "convert_headers H (v # vs) =
     (case convert_header H v of
        Inl e \<Rightarrow> Inl e
      | Inr None \<Rightarrow> convert_headers H vs
      | Inr (Some h) \<Rightarrow>
          (case convert_headers H vs of Inl e \<Rightarrow> Inl e | Inr hs \<Rightarrow> Inr (h # hs)))"

definition request_tags :: "string list" where
  "request_tags = [''$host'', ''$scheme'', ''$remote_addr'', ''$remote_port'', ''$server_addr'',
     ''$server_port'', ''$proxy_add_x_forwarded_for'', ''$upstream_addr'']"

text \<open>\<open>hostname\<close> is the machine's name and \<open>env\<close> the environment of the process.\<close>

definition resolve_static_header_value ::
  "('h, 'u) HttpLib \<Rightarrow> string \<Rightarrow> (string \<rightharpoonup> string) \<Rightarrow> string \<Rightarrow> string" where
  "resolve_static_header_value H hostname env value =
     (if \<not> prefix ''$'' value then value
      else if value = ''$hostname'' then unwrap_or (value_from_str H hostname) value
      else if value \<in> set request_tags \<or> prefix ''$http_'' value then value
      else if \<not> valid_utf8 (tl value) then value
      else case env (tl value) of
             Some env_value \<Rightarrow> unwrap_or (value_from_str H env_value) value
           | None \<Rightarrow> value)"

section \<open>Values of a request\<close>

definition get_req_header_value ::
  "('h, 'u) HttpLib \<Rightarrow> ('h, 'u) RequestHeader \<Rightarrow> string \<Rightarrow> string option" where
  "get_req_header_value H header key = Option.bind (hdr_get H (headers header) key) (to_str H)"

text \<open>\<^verbatim>\<open>Iterator::find_map\<close>.\<close>

definition cookie_item :: "string \<Rightarrow> string \<Rightarrow> string option" where
  "cookie_item cookie_name item =
     Option.bind (strip_prefix cookie_name (trim_str item)) (\<lambda>rest.
       case strip_prefix ''='' rest of
         Some v \<Rightarrow> Some v
       | None \<Rightarrow>
           Option.bind (split_once_char CHR ''='' item) (\<lambda>(k, v).
             if trim_str k = cookie_name then Some (trim_str v) else None))"

definition get_cookie_value ::
  "('h, 'u) HttpLib \<Rightarrow> ('h, 'u) RequestHeader \<Rightarrow> string \<Rightarrow> string option" where
  "get_cookie_value H header cookie_name =
     Option.bind (get_req_header_value H header ''cookie'') (\<lambda>cookies.
       find_map (cookie_item cookie_name) (split_on CHR '';'' cookies))"

definition query_item :: "string \<Rightarrow> string \<Rightarrow> string option" where
  "query_item name item =
     Option.bind (split_once_char CHR ''='' item) (\<lambda>(k, v). if k = name then Some v else None)"

definition get_query_value ::
  "('h, 'u) HttpLib \<Rightarrow> ('h, 'u) RequestHeader \<Rightarrow> string \<Rightarrow> string option" where
  "get_query_value H header name =
     Option.bind (uri_query H (uri header)) (\<lambda>q. find_map (query_item name) (split_on CHR ''&'' q))"

definition query_key :: "string \<Rightarrow> string" where
  "query_key item = hd (split_on CHR ''='' item)"

definition push_query :: "string \<Rightarrow> string \<Rightarrow> string" where
  "push_query item new_query = (if new_query = [] then item else new_query @ ''&'' @ item)"

definition query_without :: "string \<Rightarrow> string \<Rightarrow> string" where
  "query_without name query =
     fold (\<lambda>item q. if query_key item \<noteq> name then push_query item q else q)
       (split_on CHR ''&'' query) []"

text \<open>\<open>None\<close> is the error of the URI parser.\<close>

definition remove_query_from_header ::
  "('h, 'u) HttpLib \<Rightarrow> string \<Rightarrow> ('h, 'u) RequestHeader \<Rightarrow> ('h, 'u) RequestHeader option" where
  "remove_query_from_header H name header =
     (case uri_query H (uri header) of
        None \<Rightarrow> Some header
      | Some query \<Rightarrow>
          (let new_query = query_without name query; path = uri_path H (uri header)
           in map_option (\<lambda>u. header\<lparr>uri := u\<rparr>)
                (uri_from_str H (if new_query = [] then path else path @ ''?'' @ new_query))))"

text \<open>The tokens of one \<^verbatim>\<open>Connection\<close> value; a value that is not text has none.\<close>

definition connection_tokens :: "('h, 'u) HttpLib \<Rightarrow> string \<Rightarrow> string list" where
  "connection_tokens H value =
     (case to_str H value of
        None \<Rightarrow> []
      | Some v \<Rightarrow> filter (\<lambda>t. t \<noteq> []) (map trim_str (split_on CHR '','' v)))"

definition nominated :: "string list \<Rightarrow> string \<Rightarrow> bool" where
  "nominated names token \<longleftrightarrow> list_ex (\<lambda>name. eq_ignore_ascii_case name token) names"

definition protect_from_connection_header ::
  "('h, 'u) HttpLib \<Rightarrow> string list \<Rightarrow> ('h, 'u) RequestHeader \<Rightarrow> ('h, 'u) RequestHeader" where
  "protect_from_connection_header H names req =
     (if names = [] \<or> hdr_get_all H (headers req) ''connection'' = [] then req
      else
        let tokens = concat (map (connection_tokens H) (hdr_get_all H (headers req) ''connection''));
            kept = filter (\<lambda>t. \<not> nominated names t) tokens
        in if \<not> list_ex (nominated names) tokens then req
           else
             let hs = hdr_remove H (headers req) ''connection'';
                 value = join_with '', '' kept
             in req\<lparr>headers := (if value = [] then hs else hdr_insert H hs ''connection'' value)\<rparr>)"

section \<open>The client address\<close>

record 'net TrustedProxies =
  nets :: "'net list"
  ips :: "IpAddr list"

definition proxies_parse_step :: "'net NetLib \<Rightarrow> string \<Rightarrow> 'net TrustedProxies \<Rightarrow> 'net TrustedProxies" where
  "proxies_parse_step N item t =
     (case net_parse N item of
        Some n \<Rightarrow> t\<lparr>nets := nets t @ [n]\<rparr>
      | None \<Rightarrow>
          (case ip_from_str item of
             Some ip \<Rightarrow> t\<lparr>ips := List.insert ip (ips t)\<rparr>
           | None \<Rightarrow> t))"

definition proxies_parse :: "'net NetLib \<Rightarrow> string list \<Rightarrow> 'net TrustedProxies" where
  "proxies_parse N values = fold (proxies_parse_step N) values \<lparr>nets = [], ips = []\<rparr>"

definition proxies_contain :: "'net NetLib \<Rightarrow> 'net TrustedProxies \<Rightarrow> IpAddr \<Rightarrow> bool" where
  "proxies_contain N t peer \<longleftrightarrow> peer \<in> set (ips t) \<or> list_ex (\<lambda>n. net_has N n peer) (nets t)"

text \<open>The two process-wide variables of the list.\<close>

record 'net ProxyGlobals =
  trusted_enabled :: bool
  trusted_proxies :: "'net TrustedProxies option"

definition set_trusted_proxies :: "'net NetLib \<Rightarrow> string list option \<Rightarrow> 'net ProxyGlobals" where
  "set_trusted_proxies N proxies =
     (let parsed = (case proxies of
                      Some list \<Rightarrow> if list \<noteq> [] then Some (proxies_parse N list) else None
                    | None \<Rightarrow> None)
      in \<lparr>trusted_enabled = (parsed \<noteq> None), trusted_proxies = parsed\<rparr>)"

definition is_trusted_proxy :: "'net NetLib \<Rightarrow> 'net ProxyGlobals \<Rightarrow> IpAddr \<Rightarrow> bool" where
  "is_trusted_proxy N G peer =
     (case trusted_proxies G of None \<Rightarrow> False | Some t \<Rightarrow> proxies_contain N t peer)"

definition is_plausible_internal_proxy :: "IpAddr \<Rightarrow> bool" where
  "is_plausible_internal_proxy peer =
     (case peer of
        V4 os \<Rightarrow> v4_is_loopback os \<or> v4_is_private os
      | V6 gs \<Rightarrow> v6_is_loopback gs \<or> v6_is_unique_local gs \<or>
          (case to_ipv4_mapped gs of None \<Rightarrow> False | Some os \<Rightarrow> v4_is_loopback os \<or> v4_is_private os))"

definition get_remote_addr :: "('h, 'u) Session \<Rightarrow> (string \<times> u16) option" where
  "get_remote_addr session = map_option (\<lambda>(ip, port). (ip_to_string ip, port)) (peer_addr session)"

definition first_forwarded :: "string \<Rightarrow> string" where
  "first_forwarded s = trim_str (hd (split_on CHR '','' s))"

definition forwarded_client_ip :: "('h, 'u) HttpLib \<Rightarrow> ('h, 'u) Session \<Rightarrow> string" where
  "forwarded_client_ip H session =
     (case Option.bind (get_header H session ''x-forwarded-for'') (to_str H) of
        Some s \<Rightarrow>
          if first_forwarded s \<noteq> [] then first_forwarded s
          else (case get_header H session ''x-real-ip'' of
                  Some value \<Rightarrow> unwrap_or (to_str H value) []
                | None \<Rightarrow> unwrap_or (map_option fst (get_remote_addr session)) [])
      | None \<Rightarrow>
          (case get_header H session ''x-real-ip'' of
             Some value \<Rightarrow> unwrap_or (to_str H value) []
           | None \<Rightarrow> unwrap_or (map_option fst (get_remote_addr session)) []))"

definition get_client_ip ::
  "('h, 'u) HttpLib \<Rightarrow> 'net NetLib \<Rightarrow> 'net ProxyGlobals \<Rightarrow> ('h, 'u) Session \<Rightarrow> string" where
  "get_client_ip H N G session =
     (case map_option fst (peer_addr session) of
        None \<Rightarrow> forwarded_client_ip H session
      | Some peer \<Rightarrow>
          if trusted_enabled G then
            (if \<not> is_trusted_proxy N G peer then ip_to_string peer else forwarded_client_ip H session)
          else
            (if \<not> is_plausible_internal_proxy peer then ip_to_string peer
             else forwarded_client_ip H session))"

text \<open>The address is resolved once and then read from the context.\<close>

definition ensure_client_ip ::
  "('h, 'u) HttpLib \<Rightarrow> 'net NetLib \<Rightarrow> 'net ProxyGlobals \<Rightarrow> ('h, 'u) Session \<Rightarrow> string option
    \<Rightarrow> string \<times> string option" where
  "ensure_client_ip H N G session client_ip =
     (let cached = (if client_ip = None then Some (get_client_ip H N G session) else client_ip)
      in (unwrap_or cached [], cached))"

section \<open>Trust of one site\<close>

record 'net ProxyTrust =
  trust_enabled :: bool
  trust_header :: string
  last_hop_only :: bool
  trusted_ranges :: "'net list"

definition trust_range :: "'net NetLib \<Rightarrow> string \<Rightarrow> 'net option" where
  "trust_range N r =
     (let raw = trim_str r in
      case net_parse N raw of
        Some net \<Rightarrow> Some (net_trunc N net)
      | None \<Rightarrow> map_option (net_of_addr N) (ip_from_str raw))"

definition proxy_trust_new :: "'net NetLib \<Rightarrow> bool \<Rightarrow> string \<Rightarrow> bool \<Rightarrow> string list \<Rightarrow> 'net ProxyTrust" where
  "proxy_trust_new N enabled header last_hop ranges =
     \<lparr>trust_enabled = enabled, trust_header = to_ascii_lowercase (trim_str header),
      last_hop_only = last_hop, trusted_ranges = List.map_filter (trust_range N) ranges\<rparr>"

definition peer_is_trusted :: "'net NetLib \<Rightarrow> 'net ProxyTrust \<Rightarrow> IpAddr \<Rightarrow> bool" where
  "peer_is_trusted N trust peer = list_ex (\<lambda>net. net_has N net peer) (trusted_ranges trust)"

definition resolve_client_ip_with_trust ::
  "('h, 'u) HttpLib \<Rightarrow> 'net NetLib \<Rightarrow> ('h, 'u) Session \<Rightarrow> 'net ProxyTrust \<Rightarrow> string option" where
  "resolve_client_ip_with_trust H N session trust =
     (if \<not> trust_enabled trust \<or> trust_header trust = [] then None
      else
        Option.bind (map_option fst (peer_addr session)) (\<lambda>peer.
          if \<not> peer_is_trusted N trust peer then Some (ip_to_string peer)
          else
            Option.bind (get_header H session (trust_header trust)) (\<lambda>hv.
            Option.bind (to_str H hv) (\<lambda>value.
              let raw = (if trust_header trust = ''x-forwarded-for''
                         then (if last_hop_only trust then last (split_on CHR '','' value)
                               else hd (split_on CHR '','' value))
                         else value)
              in case ip_from_str (trim_str raw) of
                   Some ip \<Rightarrow> Some (ip_to_string ip)
                 | None \<Rightarrow> Some (ip_to_string peer)))))"

text \<open>\<open>tls\<close> is whether the connection itself is encrypted.\<close>

definition resolve_scheme_with_trust ::
  "('h, 'u) HttpLib \<Rightarrow> 'net NetLib \<Rightarrow> ('h, 'u) Session \<Rightarrow> bool \<Rightarrow> 'net ProxyTrust \<Rightarrow> string" where
  "resolve_scheme_with_trust H N session tls trust =
     (let from_connection = (if tls then ''https'' else ''http'') in
      if \<not> trust_enabled trust then from_connection
      else case map_option fst (peer_addr session) of
             None \<Rightarrow> from_connection
           | Some peer \<Rightarrow>
               if \<not> peer_is_trusted N trust peer then from_connection
               else case get_req_header_value H (req_header session) ''x-forwarded-proto'' of
                      None \<Rightarrow> from_connection
                    | Some value \<Rightarrow>
                        (let v = trim_str (hd (split_on CHR '','' value)) in
                         if v = ''https'' then ''https''
                         else if v = ''http'' then ''http'' else from_connection))"

text \<open>
  The WAF plugin's use of both: a site with trust enabled overrides the address of the context;
  the context's own resolution fills in when it gives none.
\<close>

definition site_client_ip ::
  "('h, 'u) HttpLib \<Rightarrow> 'net NetLib \<Rightarrow> 'net ProxyGlobals \<Rightarrow> ('h, 'u) Session \<Rightarrow> 'net ProxyTrust option
    \<Rightarrow> string option \<Rightarrow> string \<times> string option" where
  "site_client_ip H N G session trust client_ip =
     (let resolved = (case trust of
                        None \<Rightarrow> None
                      | Some t \<Rightarrow> if trust_enabled t then resolve_client_ip_with_trust H N session t else None)
      in ensure_client_ip H N G session (case resolved of Some ip \<Rightarrow> Some ip | None \<Rightarrow> client_ip))"

section \<open>Addresses read back\<close>

lemma digits_value_ge: "digits_value r s acc = Some n \<Longrightarrow> 0 < r \<Longrightarrow> acc \<le> n"
proof (induction s arbitrary: acc)
  case (Cons c s)
  then obtain d where "digits_value r s (acc * r + d) = Some n" by (auto split: option.splits)
  from Cons.IH [OF this Cons.prems(2)] have "acc * r + d \<le> n" .
  moreover have "acc \<le> acc * r" using Cons.prems(2) by simp
  ultimately show ?case by linarith
qed simp

definition stops :: "nat \<Rightarrow> string \<Rightarrow> bool" where
  "stops radix rest \<longleftrightarrow> (case rest of [] \<Rightarrow> True | c # _ \<Rightarrow> digit_value radix c = None)"

lemma read_digits_value:
  assumes "digits_value radix s acc = Some n" "n < limit" "0 < radix" "stops radix rest"
  shows "read_digits radix limit acc count (s @ rest) = Some (n, count + length s, rest)"
  using assms(1)
proof (induction s arbitrary: acc count)
  case Nil
  then show ?case using assms(4) by (cases rest) (simp_all add: stops_def)
next
  case (Cons c s)
  then obtain d where d: "digit_value radix c = Some d" "digits_value radix s (acc * radix + d) = Some n"
    by (auto split: option.splits)
  from digits_value_ge [OF d(2) assms(3)] assms(2) have "\<not> limit \<le> acc * radix + d" by simp
  then show ?case using Cons.IH [OF d(2)] d(1) by simp
qed

lemma length_show_nat_3: "n < 1000 \<Longrightarrow> length (show_nat n) \<le> 3"
  by (subst show_nat.simps, subst show_nat.simps, subst show_nat.simps) auto

lemma hd_show_nat: "0 < n \<Longrightarrow> hd (show_nat n) \<noteq> CHR ''0''"
proof (induction n rule: show_nat.induct)
  case (1 n)
  show ?case
  proof (cases "n < 10")
    case True
    have "char_of (48 + n) \<noteq> CHR ''0''"
    proof
      assume "char_of (48 + n) = CHR ''0''"
      from arg_cong [OF this, of "of_char :: char \<Rightarrow> nat"] True 1(2) show False by simp
    qed
    then show ?thesis using True by (simp add: show_nat.simps [of n])
  next
    case False
    with 1 show ?thesis by (simp add: show_nat.simps [of n])
  qed
qed

lemma read_number_show_nat:
  assumes "n < 256" "stops 10 rest"
  shows "read_number 10 256 3 False (show_nat n @ rest) = Some (n, rest)"
proof -
  have "read_digits 10 256 0 0 (show_nat n @ rest) = Some (n, length (show_nat n), rest)"
    using read_digits_value [OF digits_value_show_nat assms(1) _ assms(2), of 0] by simp
  moreover have "length (show_nat n) \<le> 3" using assms(1) by (simp add: length_show_nat_3)
  moreover have "hd (show_nat n @ rest) \<noteq> CHR ''0''" if "1 < length (show_nat n)"
    using that hd_show_nat [of n] by (cases "n = 0") (simp_all add: show_nat.simps [of 0])
  ultimately show ?thesis by (auto simp: read_number_def not_le)
qed

lemma stops_sep [simp]: "stops 10 []" "stops 16 []" "stops 10 (CHR ''.'' # s)" "stops 10 (CHR '':'' # s)"
  "stops 16 (CHR '':'' # s)"
  by (simp_all add: stops_def digit_value_def is_ascii_digit_def is_ascii_lowercase_def is_ascii_uppercase_def)

lemma read_octets_v4:
  assumes "length os = 4" "\<forall>x \<in> set os. x < 256" "stops 10 rest"
  shows "read_ipv4_addr (v4_to_string os @ rest) = Some (os, rest)"
proof -
  have four: "4 = Suc (Suc (Suc (Suc 0)))" by simp
  from assms(1) obtain a b c d where os: "os = [a, b, c, d]"
    unfolding four by (auto simp: length_Suc_conv)
  have "v4_to_string os @ rest =
      show_nat a @ CHR ''.'' # show_nat b @ CHR ''.'' # show_nat c @ CHR ''.'' # show_nat d @ rest"
    by (simp add: os v4_to_string_def)
  moreover have "a < 256" "b < 256" "c < 256" "d < 256" using assms(2) by (simp_all add: os)
  ultimately show ?thesis
    using assms(3) by (simp add: os read_ipv4_addr_def four read_sep_def read_char_def read_number_show_nat del: One_nat_def)
qed

lemma lower_hex_digit_value: "n < 16 \<Longrightarrow> digit_value 16 (lower_hex_digit n) = Some n"
  by (auto simp: digit_value_def lower_hex_digit_def is_ascii_digit_def is_ascii_lowercase_def)

lemma digits_value_show_hex: "digits_value 16 (show_hex n) 0 = Some n"
proof (induction n rule: show_hex.induct)
  case (1 n)
  show ?case
  proof (cases "n < 16")
    case True
    then show ?thesis by (simp add: show_hex.simps [of n] lower_hex_digit_value)
  next
    case False
    with 1 show ?thesis by (simp add: show_hex.simps [of n] digits_value_append lower_hex_digit_value)
  qed
qed

lemma show_hex_not_Nil [simp]: "show_hex n \<noteq> []"
  by (subst show_hex.simps) simp

lemma show_hex_no_dot: "CHR ''.'' \<notin> set (show_hex n)"
proof (induction n rule: show_hex.induct)
  case (1 n)
  have d: "CHR ''.'' \<noteq> lower_hex_digit k" if "k < 16" for k
  proof
    assume "CHR ''.'' = lower_hex_digit k"
    with lower_hex_digit_value [OF that] have "digit_value 16 CHR ''.'' = Some k" by simp
    then show False by (simp add: digit_value_def is_ascii_digit_def is_ascii_lowercase_def is_ascii_uppercase_def)
  qed
  show ?case
    using 1 d [of n] d [of "n mod 16"] by (subst show_hex.simps) simp
qed

lemma length_show_hex: "n < 65536 \<Longrightarrow> length (show_hex n) \<le> 4"
  by (subst show_hex.simps, subst show_hex.simps, subst show_hex.simps, subst show_hex.simps) auto

lemma read_number_show_hex:
  assumes "n < 65536" "stops 16 rest"
  shows "read_number 16 65536 4 True (show_hex n @ rest) = Some (n, rest)"
  using read_digits_value [OF digits_value_show_hex assms(1) _ assms(2), of 0] length_show_hex [OF assms(1)]
  by (simp add: read_number_def not_less)

text \<open>Text without a dot holds no IPv4 address.\<close>

lemma read_digits_suffix: "read_digits radix limit acc count s = Some (n, k, rest) \<Longrightarrow> set rest \<subseteq> set s"
  by (induction s arbitrary: acc count) (auto split: option.splits if_splits)

lemma read_number_suffix: "read_number radix limit m z s = Some (n, rest) \<Longrightarrow> set rest \<subseteq> set s"
  using read_digits_suffix by (fastforce simp: read_number_def split: option.splits prod.splits if_splits)

lemma no_dot_no_ipv4:
  assumes "CHR ''.'' \<notin> set s"
  shows "read_ipv4_addr s = None"
proof -
  have "read_char CHR ''.'' r = None" if "set r \<subseteq> set s" for r
    using assms that by (auto simp: read_char_def split: list.splits)
  note no_char = this
  have "read_octets (Suc (Suc n)) True s = None" for n
  proof (cases "read_number 10 256 3 False s")
    case (Some p)
    then have "read_char CHR ''.'' (snd p) = None" using read_number_suffix no_char by (metis prod.collapse)
    with Some show ?thesis by (simp add: read_sep_def split_beta)
  qed (simp add: read_sep_def)
  from this [of 2] show ?thesis by (simp add: read_ipv4_addr_def numeral_eq_Suc)
qed

definition colon_hex :: "nat list \<Rightarrow> string" where
  "colon_hex gs = concat (map (\<lambda>g. CHR '':'' # show_hex g) gs)"

lemma colon_hex_simps [simp]: "colon_hex [] = []" "colon_hex (g # gs) = CHR '':'' # show_hex g @ colon_hex gs"
  by (simp_all add: colon_hex_def)

lemma join_hex: "join_with '':'' (map show_hex (g # gs)) = show_hex g @ colon_hex gs"
proof (induction gs arbitrary: g)
  case (Cons h gs)
  from Cons [of h] show ?case by simp
qed simp

lemma colon_hex_no_dot: "CHR ''.'' \<notin> set (colon_hex gs)"
  by (induction gs) (simp_all add: show_hex_no_dot)

lemma join_hex_no_dot: "CHR ''.'' \<notin> set (join_with '':'' (map show_hex gs))"
proof (cases gs)
  case (Cons g gs')
  show ?thesis unfolding Cons join_hex by (simp add: show_hex_no_dot colon_hex_no_dot)
qed simp

lemma stops_colon_hex: "stops 16 rest \<Longrightarrow> stops 16 (colon_hex gs @ rest)"
  by (cases gs) simp_all

lemma read_groups_colon_hex:
  assumes "\<forall>g \<in> set gs. g < 65536" "length gs \<le> k" "CHR ''.'' \<notin> set rest" "stops 16 rest"
    and "length gs < k \<Longrightarrow> Option.bind (read_char CHR '':'' rest) (read_number 16 65536 4 True) = None"
  shows "read_groups k False (colon_hex gs @ rest) = (gs, False, rest)"
  using assms(1,2,5)
proof (induction gs arbitrary: k)
  case Nil
  have "Option.bind (read_char CHR '':'' rest) read_ipv4_addr = None"
    using assms(3) by (auto simp: read_char_def no_dot_no_ipv4 split: list.splits)
  with Nil show ?case by (cases k) (simp_all add: read_sep_def)
next
  case (Cons g gs)
  then obtain k' where k: "k = Suc k'" by (cases k) auto
  have "read_ipv4_addr (show_hex g @ colon_hex gs @ rest) = None"
    using assms(3) by (intro no_dot_no_ipv4) (simp add: show_hex_no_dot colon_hex_no_dot)
  moreover have "read_number 16 65536 4 True (show_hex g @ colon_hex gs @ rest) = Some (g, colon_hex gs @ rest)"
    using Cons.prems(1) assms(4) by (intro read_number_show_hex) (simp_all add: stops_colon_hex)
  ultimately show ?case
    using Cons k by (simp add: read_sep_def read_char_def)
qed

lemma read_groups_hex:
  assumes "\<forall>g \<in> set gs. g < 65536" "length gs \<le> k" "CHR ''.'' \<notin> set rest" "stops 16 rest"
    and "length gs < k \<Longrightarrow> Option.bind (read_char CHR '':'' rest) (read_number 16 65536 4 True) = None"
    and "gs = [] \<Longrightarrow> read_number 16 65536 4 True rest = None"
  shows "read_groups k True (join_with '':'' (map show_hex gs) @ rest) = (gs, False, rest)"
proof (cases gs)
  case Nil
  with assms(3,6) show ?thesis by (cases k) (simp_all add: read_sep_def no_dot_no_ipv4)
next
  case (Cons g gs')
  then obtain k' where k: "k = Suc k'" using assms(2) by (cases k) auto
  have "read_ipv4_addr (show_hex g @ colon_hex gs' @ rest) = None"
    using assms(3) by (intro no_dot_no_ipv4) (simp add: show_hex_no_dot colon_hex_no_dot)
  moreover have "read_number 16 65536 4 True (show_hex g @ colon_hex gs' @ rest) = Some (g, colon_hex gs' @ rest)"
    using Cons assms(1,4) by (intro read_number_show_hex) (simp_all add: stops_colon_hex)
  moreover have "read_groups k' False (colon_hex gs' @ rest) = (gs', False, rest)"
    using Cons k assms by (intro read_groups_colon_hex) simp_all
  ultimately show ?thesis
    unfolding Cons k join_hex by (simp add: read_sep_def)
qed

lemma longest_zero_run_spec:
  "longest_zero_run i gs = (j, n) \<Longrightarrow>
     i \<le> j \<and> j - i + n \<le> length gs \<and> take n (drop (j - i) gs) = replicate n 0"
proof (induction gs arbitrary: i j n)
  case (Cons g gs)
  have zr: "zero_run xs \<le> length xs \<and> take (zero_run xs) xs = replicate (zero_run xs) 0" for xs
    by (induction xs) auto
  obtain j' n' where r: "longest_zero_run (Suc i) gs = (j', n')" by force
  show ?case
  proof (cases "n' \<le> zero_run (g # gs)")
    case True
    then show ?thesis using Cons.prems r zr [of "g # gs"] by (auto simp: Let_def)
  next
    case False
    then have "j = j'" "n = n'" using Cons.prems r by (simp_all add: Let_def split: if_splits)
    moreover have "j' - i = Suc (j' - Suc i)" using Cons.IH [OF r] by linarith
    ultimately show ?thesis using Cons.IH [OF r] by simp
  qed
qed simp

lemma read_number_colon: "read_number 16 65536 4 True (CHR '':'' # s) = None" "read_number 10 256 3 False (CHR '':'' # s) = None"
    "read_number 16 65536 4 True [] = None"
  by (simp_all add: read_number_def digit_value_def is_ascii_digit_def is_ascii_lowercase_def is_ascii_uppercase_def)

lemma read_ipv4_number: "read_number 10 256 3 False s = None \<Longrightarrow> read_ipv4_addr s = None"
proof -
  assume "read_number 10 256 3 False s = None"
  then have "read_octets (Suc n) True s = None" for n by (simp add: read_sep_def)
  from this [of 3] show ?thesis by (simp add: read_ipv4_addr_def)
qed

lemma read_v6_compressed:
  assumes gs: "length gs = 8" "\<forall>g \<in> set gs. g < 65536" and run: "longest_zero_run 0 gs = (i, n)" "1 < n"
  shows "read_ipv6_addr (join_with '':'' (map show_hex (take i gs)) @ ''::''
           @ join_with '':'' (map show_hex (drop (i + n) gs))) = Some (gs, [])"
proof -
  let ?tl = "join_with '':'' (map show_hex (drop (i + n) gs))"
  have spec: "i + n \<le> 8" "take n (drop i gs) = replicate n 0" using longest_zero_run_spec [OF run(1)] gs(1) by auto
  have bounded: "\<forall>g \<in> set (take i gs). g < 65536" "\<forall>g \<in> set (drop (i + n) gs). g < 65536"
    using gs(2) by (meson in_set_takeD in_set_dropD)+
  have hd: "read_groups 8 True (join_with '':'' (map show_hex (take i gs)) @ ''::'' @ ?tl) = (take i gs, False, ''::'' @ ?tl)"
    using bounded(1) gs(1) by (intro read_groups_hex) (simp_all add: join_hex_no_dot read_char_def read_number_colon)
  have tl: "read_groups (7 - i) True ?tl = (drop (i + n) gs, False, [])"
    using read_groups_hex [OF bounded(2), of "7 - i" "[]"] spec(1) run(2) gs(1)
    by (simp add: read_char_def read_number_colon)
  have "take i gs @ replicate n 0 @ drop (i + n) gs = gs"
    unfolding spec(2) [symmetric] by (metis add.commute append_take_drop_id drop_drop)
  moreover have "8 - i - length (drop (i + n) gs) = n" using spec(1) gs(1) by simp
  moreover have "length (take i gs) = i" "i \<noteq> 8" using spec(1) run(2) gs(1) by simp_all
  ultimately show ?thesis
    unfolding read_ipv6_addr_def hd by (simp add: read_char_def tl)
qed

lemma read_groups_colon: "read_groups 8 True (CHR '':'' # s) = ([], False, CHR '':'' # s)"
proof -
  have "read_groups (Suc k) True (CHR '':'' # s) = ([], False, CHR '':'' # s)" for k
    by (simp add: read_number_colon read_sep_def read_ipv4_number)
  from this [of 7] show ?thesis by simp
qed

lemma read_groups_mapped:
  assumes "read_ipv4_addr s = Some (os, [])"
  shows "read_groups 7 True (''ffff:'' @ s) = ([65535, os ! 0 * 256 + os ! 1, os ! 2 * 256 + os ! 3], True, [])"
proof -
  have "read_number 10 256 3 False (''ffff:'' @ s) = None"
    by (simp add: read_number_def digit_value_def is_ascii_digit_def is_ascii_lowercase_def)
  then have "read_ipv4_addr (''ffff:'' @ s) = None" by (rule read_ipv4_number)
  moreover have "read_number 16 65536 4 True (''ffff:'' @ s) = Some (65535, CHR '':'' # s)"
    by (simp add: read_number_def digit_value_def is_ascii_digit_def is_ascii_lowercase_def is_ascii_uppercase_def)
  moreover have "7 = Suc (Suc (Suc (Suc (Suc (Suc (Suc 0))))))" by simp
  ultimately show ?thesis using assms by (simp only: read_groups.simps) (simp add: read_sep_def read_char_def)
qed

lemma ip_roundtrip:
  assumes "ip_wf ip"
  shows "ip_from_str (ip_to_string ip) = Some ip"
proof (cases ip)
  case (V4 os)
  then show ?thesis
    using assms read_octets_v4 [of os "[]"] by (simp add: ip_wf_def ip_to_string_def ip_from_str_def)
next
  case (V6 gs)
  with assms have gs: "length gs = 8" "\<forall>g \<in> set gs. g < 65536" by (simp_all add: ip_wf_def)
  show ?thesis
  proof (cases "to_ipv4_mapped gs")
    case (Some os)
    have "length gs = Suc (Suc (Suc (Suc (Suc (Suc (Suc (Suc 0)))))))" using gs(1) by simp
    then obtain a b c d e f x y where "gs = [a, b, c, d, e, f, x, y]" by (auto simp only: length_Suc_conv length_0_conv)
    with Some have split: "gs = [0, 0, 0, 0, 0, 65535, x, y]" "os = [x div 256, x mod 256, y div 256, y mod 256]"
      by (auto simp: to_ipv4_mapped_def split: if_splits)
    have "x < 65536" "y < 65536" using gs(2) by (simp_all add: split)
    then have "x div 256 < 256" "y div 256 < 256" by linarith+
    then have "length os = 4" "\<forall>x \<in> set os. x < 256" by (simp_all add: split(2))
    from read_octets_v4 [OF this, of "[]"] have v4: "read_ipv4_addr (v4_to_string os) = Some (os, [])" by simp
    have "read_groups 7 True (''ffff:'' @ v4_to_string os) = ([65535, x, y], True, [])"
      using read_groups_mapped [OF v4] by (simp add: split(2))
    moreover have "replicate 5 (0 :: nat) = [0, 0, 0, 0, 0]" by code_simp
    ultimately have "read_ipv6_addr (''::ffff:'' @ v4_to_string os) = Some (gs, [])"
      by (simp add: read_ipv6_addr_def read_groups_colon read_char_def split(1))
    then show ?thesis
      using V6 Some by (simp add: ip_to_string_def v6_to_string_def ip_from_str_def read_ipv4_number read_number_colon)
  next
    case None
    obtain i n where run: "longest_zero_run 0 gs = (i, n)" by force
    have plain: "read_ipv6_addr (join_with '':'' (map show_hex gs)) = Some (gs, [])"
      using read_groups_hex [OF gs(2), of 8 "[]"] gs(1) by (auto simp: read_ipv6_addr_def read_number_colon)
    have "CHR ''.'' \<notin> set (v6_to_string gs)"
      using None run by (simp add: v6_to_string_def join_hex_no_dot)
    then have "read_ipv4_addr (v6_to_string gs) = None" by (rule no_dot_no_ipv4)
    moreover have "read_ipv6_addr (v6_to_string gs) = Some (gs, [])"
      using None run plain read_v6_compressed [OF gs run] by (simp add: v6_to_string_def)
    ultimately show ?thesis using V6 by (simp add: ip_from_str_def ip_to_string_def)
  qed
qed

section \<open>Whose word decides\<close>

definition peer_ignored :: "'net NetLib \<Rightarrow> 'net ProxyGlobals \<Rightarrow> IpAddr \<Rightarrow> bool" where
  "peer_ignored N G peer \<longleftrightarrow>
     (if trusted_enabled G then \<not> is_trusted_proxy N G peer else \<not> is_plausible_internal_proxy peer)"

lemma ignored_peer_address:
  "peer_addr session = Some (peer, port) \<Longrightarrow> peer_ignored N G peer \<Longrightarrow>
   get_client_ip H N G session = ip_to_string peer"
  by (auto simp: get_client_ip_def peer_ignored_def split: if_splits)

text \<open>
  C9: a client cannot choose its own address.  For a connection whose direct peer is not a proxy
  the operator named (or, with no list configured, not a loopback or private address), the
  resolved client address is the peer, and it reads back as exactly the peer, whatever headers
  the request carries.  The same holds for a site's own trust settings: an untrusted peer
  resolves to itself, and its word on the scheme is not taken.
\<close>

theorem client_address_not_spoofable:
  assumes "peer_addr session = Some (peer, port)" "ip_wf peer"
  shows "(peer_ignored N G peer \<longrightarrow> ip_from_str (fst (ensure_client_ip H N G session None)) = Some peer) \<and>
         (\<not> peer_is_trusted N trust peer \<longrightarrow>
            (trust_enabled trust \<and> trust_header trust \<noteq> [] \<longrightarrow>
               resolve_client_ip_with_trust H N session trust = Some (ip_to_string peer)) \<and>
            resolve_scheme_with_trust H N session tls trust = (if tls then ''https'' else ''http''))"
  using assms
  by (simp add: ensure_client_ip_def ignored_peer_address ip_roundtrip resolve_client_ip_with_trust_def
      resolve_scheme_with_trust_def Let_def)

text \<open>A header map as an association list and networks as address prefixes, for the witnesses.\<close>

definition demo_http :: "((string \<times> string) list, string option \<times> string \<times> string option) HttpLib" where
  "demo_http =
     \<lparr>hdr_get = map_of, hdr_get_all = (\<lambda>h k. map snd (filter (\<lambda>(n, _). n = k) h)), hdr_iter = (\<lambda>h. h),
      hdr_remove = (\<lambda>h k. filter (\<lambda>(n, _). n \<noteq> k) h), hdr_insert = (\<lambda>h k v. (k, v) # filter (\<lambda>(n, _). n \<noteq> k) h),
      to_str = Some, name_from_str = Some, value_from_str = Some,
      uri_host = fst, uri_path = fst \<circ> snd, uri_query = snd \<circ> snd,
      uri_from_str = (\<lambda>s. case split_once_char CHR ''?'' s of
                            None \<Rightarrow> Some (None, s, None) | Some (p, q) \<Rightarrow> Some (None, p, Some q))\<rparr>"

definition demo_nets :: "nat list NetLib" where
  "demo_nets =
     \<lparr>net_parse = (\<lambda>s. if s = ''10.0.0.0/8'' then Some [10] else None),
      net_of_addr = (\<lambda>ip. case ip of V4 os \<Rightarrow> os | V6 gs \<Rightarrow> gs), net_trunc = (\<lambda>n. n),
      net_has = (\<lambda>n ip. case ip of V4 os \<Rightarrow> prefix n os | V6 gs \<Rightarrow> False)\<rparr>"

definition demo_session :: "IpAddr \<Rightarrow> (string \<times> string) list \<Rightarrow>
    ((string \<times> string) list, string option \<times> string \<times> string option) Session" where
  "demo_session peer hs =
     \<lparr>req_header = \<lparr>http_method = ''GET'', version = HTTP_11, uri = (None, ''/'', None), headers = hs\<rparr>,
      peer_addr = Some (peer, 443)\<rparr>"

theorem client_address_not_spoofable_witness:
  "ip_from_str (fst (ensure_client_ip demo_http demo_nets (set_trusted_proxies demo_nets None)
     (demo_session (V4 [203, 0, 113, 9]) [(''x-forwarded-for'', ''10.0.0.1'')]) None)) = Some (V4 [203, 0, 113, 9])
   \<and> resolve_client_ip_with_trust demo_http demo_nets
       (demo_session (V4 [203, 0, 113, 9]) [(''x-forwarded-for'', ''10.0.0.1'')])
       (proxy_trust_new demo_nets True ''X-Forwarded-For'' False [''10.0.0.0/8'']) = Some ''203.0.113.9''"
proof -
  let ?s = "demo_session (V4 [203, 0, 113, 9]) [(''x-forwarded-for'', ''10.0.0.1'')]"
  let ?t = "proxy_trust_new demo_nets True ''X-Forwarded-For'' False [''10.0.0.0/8'']"
  have "peer_ignored demo_nets (set_trusted_proxies demo_nets None) (V4 [203, 0, 113, 9])"
    "\<not> peer_is_trusted demo_nets ?t (V4 [203, 0, 113, 9])" "trust_enabled ?t \<and> trust_header ?t \<noteq> []"
    "ip_to_string (V4 [203, 0, 113, 9]) = ''203.0.113.9''"
    by code_simp+
  moreover have "peer_addr ?s = Some (V4 [203, 0, 113, 9], 443)" "ip_wf (V4 [203, 0, 113, 9])"
    by (simp_all add: demo_session_def ip_wf_def)
  ultimately show ?thesis using client_address_not_spoofable [of ?s "V4 [203, 0, 113, 9]" 443] by metis
qed

text \<open>
  C38: what happens when a proxy the site trusts does not set the header the site reads.  If that
  header is absent, or is not text, the site's own resolution gives no address instead of the
  peer's, and the default resolution decides, from other headers.  For a request that carries an
  \<^verbatim>\<open>X-Forwarded-For\<close> header whose first entry is not empty, the resolved address is then: the peer,
  if the default resolution does not believe the peer (it is not in the configured list of
  proxies, or, without a list, is neither loopback nor private); and otherwise that first entry
  as it stands, which the client wrote unless the proxy replaced the header.
\<close>

theorem missing_trusted_header_spoofable:
  assumes "peer_addr session = Some (peer, port)" "peer_is_trusted N trust peer"
    and "Option.bind (get_header H session (trust_header trust)) (to_str H) = None"
    and "get_header H session ''x-forwarded-for'' = Some v" "to_str H v = Some s" "first_forwarded s \<noteq> []"
  shows "fst (site_client_ip H N G session (Some trust) None)
       = (if peer_ignored N G peer then ip_to_string peer else first_forwarded s)"
proof -
  have "resolve_client_ip_with_trust H N session trust = None"
    using assms(1-3) by (cases "get_header H session (trust_header trust)") (simp_all add: resolve_client_ip_with_trust_def)
  with assms show ?thesis
    by (simp add: site_client_ip_def ensure_client_ip_def get_client_ip_def forwarded_client_ip_def peer_ignored_def)
qed

theorem missing_trusted_header_spoofable_witness:
  "fst (site_client_ip demo_http demo_nets (set_trusted_proxies demo_nets None)
     (demo_session (V4 [10, 0, 0, 5]) [(''x-forwarded-for'', ''198.51.100.7, 10.0.0.9'')])
     (Some (proxy_trust_new demo_nets True ''cf-connecting-ip'' True [''10.0.0.0/8''])) None) = ''198.51.100.7''
   \<and> fst (site_client_ip demo_http demo_nets (set_trusted_proxies demo_nets (Some [''192.0.2.0/24'']))
     (demo_session (V4 [10, 0, 0, 5]) [(''x-forwarded-for'', ''198.51.100.7, 10.0.0.9'')])
     (Some (proxy_trust_new demo_nets True ''cf-connecting-ip'' True [''10.0.0.0/8''])) None) = ''10.0.0.5''"
proof -
  let ?s = "demo_session (V4 [10, 0, 0, 5]) [(''x-forwarded-for'', ''198.51.100.7, 10.0.0.9'')]"
  let ?t = "proxy_trust_new demo_nets True ''cf-connecting-ip'' True [''10.0.0.0/8'']"
  have f: "first_forwarded ''198.51.100.7, 10.0.0.9'' = ''198.51.100.7''"
    "peer_is_trusted demo_nets ?t (V4 [10, 0, 0, 5])" "trust_header ?t = ''cf-connecting-ip''"
    "\<not> peer_ignored demo_nets (set_trusted_proxies demo_nets None) (V4 [10, 0, 0, 5])"
    "peer_ignored demo_nets (set_trusted_proxies demo_nets (Some [''192.0.2.0/24''])) (V4 [10, 0, 0, 5])"
    "ip_to_string (V4 [10, 0, 0, 5]) = ''10.0.0.5''"
    by code_simp+
  have "fst (site_client_ip demo_http demo_nets G ?s (Some ?t) None)
      = (if peer_ignored demo_nets G (V4 [10, 0, 0, 5]) then ip_to_string (V4 [10, 0, 0, 5])
         else first_forwarded ''198.51.100.7, 10.0.0.9'')" for G
    by (rule missing_trusted_header_spoofable [where port = 443 and v = "''198.51.100.7, 10.0.0.9''"])
      (simp_all add: f demo_session_def demo_http_def get_header_def)
  then show ?thesis by (simp only: f if_True if_False simp_thms)
qed

end
