(* ===== verification/Location.thy ===== *)
theory Location
  imports Http_Header
begin

text \<open>
  \<^verbatim>\<open>src/pingap-location/src/location.rs\<close> and \<^verbatim>\<open>src/pingap-location/src/regex.rs\<close>: a location of the
  proxy, compiled from its configuration, with the selectors and conditions that decide which
  requests it serves, the path it sends upstream and the counters that limit its concurrency.
  The \<^verbatim>\<open>regex\<close> crate is a parameter: \<open>RegexLib\<close> holds what the code calls of it.  The lemmas show
  that the compiled hosts are in lower case, which the routing index relies on, and what the
  path rewriting does.
\<close>

section \<open>Regular expressions with named groups\<close>

text \<open>A match: the bounds of the whole match, the named groups and the expansion of a template.\<close>

record Found =
  found_start :: nat
  found_end :: nat
  found_name :: "string \<rightharpoonup> string"
  found_expand :: "string \<Rightarrow> string"

record 're RegexLib =
  re_new :: "string \<Rightarrow> 're option"
  re_as_str :: "'re \<Rightarrow> string"
  re_capture_names :: "'re \<Rightarrow> string list"
  re_is_match :: "'re \<Rightarrow> string \<Rightarrow> bool"
  re_captures :: "'re \<Rightarrow> string \<Rightarrow> Found option"

type_synonym variables = "string \<rightharpoonup> string"

record 're RegexCapture =
  rc_re :: 're
  rc_has_named_captures :: bool

definition regex_capture_new :: "'re RegexLib \<Rightarrow> string \<Rightarrow> 're RegexCapture option" where
  "regex_capture_new R value =
     map_option (\<lambda>re. \<lparr>rc_re = re, rc_has_named_captures = (re_capture_names R re \<noteq> [])\<rparr>) (re_new R value)"

definition insert_group :: "Found \<Rightarrow> string \<Rightarrow> variables option \<Rightarrow> variables option" where
  "insert_group found name vars =
     (case found_name found name of
        None \<Rightarrow> vars
      | Some v \<Rightarrow> Some ((unwrap_or vars Map.empty)(name \<mapsto> v)))"

definition captures :: "'re RegexLib \<Rightarrow> 're RegexCapture \<Rightarrow> string \<Rightarrow> bool \<times> variables option" where
  "captures R rc value =
     (if \<not> rc_has_named_captures rc then (re_is_match R (rc_re rc) value, None)
      else case re_captures R (rc_re rc) value of
             None \<Rightarrow> (False, None)
           | Some found \<Rightarrow> (True, fold (insert_group found) (re_capture_names R (rc_re rc)) None))"

section \<open>Selectors\<close>

datatype LocationError =
    Invalid string
  | RegexError string
  | TooManyRequest int
  | BodyTooLarge nat

datatype 're PathSelector =
    PathRegex "'re RegexCapture" | PathPrefix string | PathEqual string | PathAny

definition path_selector_new :: "'re RegexLib \<Rightarrow> string \<Rightarrow> LocationError + 're PathSelector" where
  "path_selector_new R path0 =
     (let path = trim_str path0 in
      if path = [] then Inr PathAny
      else case strip_prefix ''~'' path of
        Some re_path \<Rightarrow>
          (case regex_capture_new R (trim_str re_path) of
             None \<Rightarrow> Inl (RegexError (trim_str re_path))
           | Some re \<Rightarrow> Inr (PathRegex re))
      | None \<Rightarrow>
          (case strip_prefix ''='' path of
             Some eq_path \<Rightarrow> Inr (PathEqual (trim_str eq_path))
           | None \<Rightarrow> Inr (PathPrefix path)))"

definition path_is_match :: "'re RegexLib \<Rightarrow> 're PathSelector \<Rightarrow> string \<Rightarrow> bool \<times> variables option" where
  "path_is_match R sel path =
     (case sel of
        PathEqual value \<Rightarrow> (value = path, None)
      | PathRegex value \<Rightarrow> captures R value path
      | PathPrefix value \<Rightarrow> (prefix value path, None)
      | PathAny \<Rightarrow> (True, None))"

datatype 're HostSelector = HostRegex "'re RegexCapture" | HostEqual string | HostSuffix string

definition host_selector_new :: "'re RegexLib \<Rightarrow> string \<Rightarrow> LocationError + 're HostSelector" where
  "host_selector_new R host0 =
     (let host = trim_str host0 in
      case strip_prefix ''~'' host of
        Some re_host \<Rightarrow>
          (case regex_capture_new R (trim_str re_host) of
             None \<Rightarrow> Inl (RegexError (trim_str re_host))
           | Some re \<Rightarrow> Inr (HostRegex re))
      | None \<Rightarrow>
          (case strip_prefix ''*.'' host of
             Some d \<Rightarrow>
               (let domain = trim_str d in
                if domain = [] \<or> CHR ''*'' \<in> set domain
                then Inl (Invalid (''invalid host wildcard pattern: '' @ host))
                else Inr (HostSuffix (to_ascii_lowercase domain)))
           | None \<Rightarrow> Inr (HostEqual (to_ascii_lowercase host))))"

definition host_matches_suffix :: "string \<Rightarrow> string \<Rightarrow> bool" where
  "host_matches_suffix host domain =
     (if length host < length domain + 1 then False
      else let dot = length host - (length domain + 1)
           in dot > 0 \<and> host ! dot = CHR ''.'' \<and> eq_ignore_ascii_case (drop (dot + 1) host) domain)"

definition host_is_match :: "'re RegexLib \<Rightarrow> 're HostSelector \<Rightarrow> string \<Rightarrow> bool \<times> variables option" where
  "host_is_match R sel host =
     (case sel of
        HostEqual value \<Rightarrow> (eq_ignore_ascii_case value host, None)
      | HostSuffix domain \<Rightarrow> (host_matches_suffix host domain, None)
      | HostRegex value \<Rightarrow> captures R value host)"

datatype HostIndexEntry = Exact string | Suffix string | Regex | Any

section \<open>Paths sent upstream\<close>

definition stripped_path :: "string \<Rightarrow> string option \<Rightarrow> string option \<Rightarrow> string option" where
  "stripped_path path pre rewrite =
     Option.bind
       (case rewrite of
          Some r \<Rightarrow> Some r
        | None \<Rightarrow>
            Option.bind pre (\<lambda>p.
            Option.bind (strip_prefix p path) (\<lambda>rest.
              Some (if rest = [] then ''/''
                    else if prefix ''/'' rest then rest
                    else ''/'' @ rest))))
       (\<lambda>new_path. if new_path \<noteq> path then Some new_path else None)"

definition set_request_path ::
  "('h, 'u) HttpLib \<Rightarrow> string \<Rightarrow> ('h, 'u) RequestHeader \<Rightarrow> bool \<times> ('h, 'u) RequestHeader" where
  "set_request_path H new_path header =
     (let target = new_path @ (case uri_query H (uri header) of None \<Rightarrow> [] | Some q \<Rightarrow> ''?'' @ q)
      in case uri_from_str H target of
           Some u \<Rightarrow> (True, header\<lparr>uri := u\<rparr>)
         | None \<Rightarrow> (False, header))"

text \<open>\<^verbatim>\<open>str::split_whitespace\<close>.\<close>

fun take_word :: "string \<Rightarrow> string \<times> string" where
  "take_word [] = ([], [])"
| "take_word (c # s) =
     (if strip_any white_space (c # s) \<noteq> None then ([], c # s)
      else case take_word s of (w, r) \<Rightarrow> (c # w, r))"

lemma take_word_append: "take_word s = (w, r) \<Longrightarrow> s = w @ r"
  by (induction s arbitrary: w) (auto split: if_splits prod.splits)

lemma take_word_rest:
  assumes "(w, r) = take_word (trim_start s)" "w \<noteq> []"
  shows "length r < length s"
proof -
  have "trim_start s = w @ r" using assms(1) [symmetric] by (rule take_word_append)
  moreover have "length (trim_start s) \<le> length s" by (simp add: trim_start_def strip_all_length)
  ultimately show ?thesis using assms(2) by (cases w) auto
qed

function split_whitespace :: "string \<Rightarrow> string list" where
  "split_whitespace s =
     (case take_word (trim_start s) of
        (w, r) \<Rightarrow> if w = [] then [] else w # split_whitespace r)"
  by pat_completeness auto
termination by (relation "measure length") (auto simp: take_word_rest)

declare split_whitespace.simps [simp del]

record 're RegexRewrite =
  rw_re :: 're
  rw_value :: string
  rw_match_all :: bool
  rw_has_named_captures :: bool
  rw_has_variables :: bool

definition rewrite_parts :: "string list \<Rightarrow> string \<times> string" where
  "rewrite_parts parts =
     (case parts of
        [] \<Rightarrow> (''.*'', [])
      | [only] \<Rightarrow> if CHR ''$'' \<in> set only then (''.*'', only) else (only, [])
      | pattern # replacement # _ \<Rightarrow> (pattern, replacement))"

definition regex_rewrite_new :: "'re RegexLib \<Rightarrow> string \<Rightarrow> LocationError + 're RegexRewrite" where
  "regex_rewrite_new R value =
     (let parts = split_whitespace value; (pattern, replacement) = rewrite_parts parts in
      if 2 < length parts then Inl (Invalid value)
      else case re_new R pattern of
             None \<Rightarrow> Inl (RegexError pattern)
           | Some re \<Rightarrow>
               Inr \<lparr>rw_re = re, rw_value = replacement, rw_match_all = (re_as_str R re = ''.*''),
                    rw_has_named_captures = (re_capture_names R re \<noteq> []),
                    rw_has_variables = (CHR ''$'' \<in> set replacement)\<rparr>)"

definition name_char :: "char \<Rightarrow> bool" where
  "name_char c \<longleftrightarrow> is_ascii_alphanumeric c \<or> c = CHR ''_''"

function interpolate_variables :: "variables \<Rightarrow> string \<Rightarrow> string" where
  "interpolate_variables vars [] = []"
| "interpolate_variables vars (c # s) =
     (if c \<noteq> CHR ''$'' then c # interpolate_variables vars s
      else let name = takeWhile name_char s; rest = dropWhile name_char s
           in (case (if name \<noteq> [] then vars name else None) of
                 Some value \<Rightarrow> value
               | None \<Rightarrow> c # name) @ interpolate_variables vars rest)"
  by pat_completeness auto
termination by (relation "measure (length \<circ> snd)") (auto simp: length_dropWhile_le le_imp_less_Suc)

section \<open>Match conditions\<close>

type_synonym condition = "string \<times> string option"

definition parse_condition :: "string \<Rightarrow> condition option" where
  "parse_condition item0 =
     (let item = trim_str item0 in
      if item = [] then None
      else case split_once_char CHR '':'' item of
             Some (n, v) \<Rightarrow> Some (trim_str n, Some (trim_str v))
           | None \<Rightarrow> Some (item, None))"

definition parse_match_conditions :: "string list option \<Rightarrow> condition list" where
  "parse_match_conditions l =
     (case l of None \<Rightarrow> [] | Some items \<Rightarrow> List.map_filter parse_condition items)"

fun parse_ip_list :: "'net NetLib \<Rightarrow> string list \<Rightarrow> LocationError + 'net list" where
  "parse_ip_list N [] = Inr []"
| "parse_ip_list N (item0 # items) =
     (let item = trim_str item0 in
      if item = [] then parse_ip_list N items
      else case (case net_parse N item of
                   Some n \<Rightarrow> Some n
                 | None \<Rightarrow> map_option (net_of_addr N) (ip_from_str item)) of
             None \<Rightarrow> Inl (Invalid (''ip or cidr: '' @ item))
           | Some n \<Rightarrow>
               (case parse_ip_list N items of Inl e \<Rightarrow> Inl e | Inr ns \<Rightarrow> Inr (n # ns)))"

definition parse_ip_conditions :: "'net NetLib \<Rightarrow> string list option \<Rightarrow> LocationError + 'net list" where
  "parse_ip_conditions N l = (case l of None \<Rightarrow> Inr [] | Some items \<Rightarrow> parse_ip_list N items)"

definition normalize_client_ip :: "IpAddr \<Rightarrow> IpAddr" where
  "normalize_client_ip ip =
     (case ip of
        V6 v6 \<Rightarrow> (case to_ipv4_mapped v6 of None \<Rightarrow> V6 v6 | Some v4 \<Rightarrow> V4 v4)
      | V4 v4 \<Rightarrow> V4 v4)"

definition condition_met :: "string option \<Rightarrow> string option \<Rightarrow> bool" where
  "condition_met actual expected =
     (case actual of
        Some a \<Rightarrow> (case expected of None \<Rightarrow> True | Some v \<Rightarrow> v = a)
      | None \<Rightarrow> False)"

section \<open>Locations\<close>

definition MAX_REWRITE_PATH_LEN :: nat where "MAX_REWRITE_PATH_LEN = 2048"

datatype RewritePathError = BlankPath | PathTooLong | BadPathChar | PathNotAbsolute

text \<open>
  A character is a query or fragment mark, white space or a control character; the multi-byte
  ones are found by their encodings.
\<close>

definition bad_path_char :: "string \<Rightarrow> bool" where
  "bad_path_char value \<longleftrightarrow>
     list_ex (\<lambda>c. c = CHR ''?'' \<or> c = CHR ''#'' \<or> byte c < 32 \<or> byte c = 127) value \<or>
     list_ex (contains_str value) white_space \<or>
     list_ex (\<lambda>n. contains_str value [char_of (0xC2 :: nat), char_of n]) [128..<160 :: nat]"

definition validate_rewrite_path :: "string \<Rightarrow> RewritePathError option" where
  "validate_rewrite_path value =
     (if value = [] then None
      else if trim_str value = [] then Some BlankPath
      else if MAX_REWRITE_PATH_LEN < length value then Some PathTooLong
      else if bad_path_char value then Some BadPathChar
      else if \<not> prefix ''/'' value then Some PathNotAbsolute
      else None)"

record LocationConf =
  conf_upstream :: "string option"
  conf_path :: "string option"
  conf_host :: "string option"
  conf_upstream_host :: "string option"
  conf_site_hosts :: "string list option"
  conf_match_headers :: "string list option"
  conf_match_query :: "string list option"
  conf_match_cookies :: "string list option"
  conf_match_ip_ranges :: "string list option"
  conf_proxy_set_headers :: "string list option"
  conf_proxy_add_headers :: "string list option"
  conf_strip_prefix :: "bool option"
  conf_rewrite_path :: "string option"
  conf_rewrite :: "string option"
  conf_plugins :: "string list option"
  conf_client_max_body_size :: "nat option"
  conf_max_processing :: "int option"
  conf_grpc_web :: "bool option"
  conf_enable_reverse_proxy_headers :: "bool option"
  conf_max_retries :: "u8 option"
  conf_max_retry_window :: "nat option"
  conf_downstream_timeout_secs :: "u32 option"

text \<open>The counters are the atomics of the location; an \<^verbatim>\<open>i32\<close> is kept as a word.\<close>

record ('re, 'net) Location =
  loc_name :: string
  upstream :: string
  path_selector :: "'re PathSelector"
  hosts :: "'re HostSelector list"
  header_conditions :: "condition list"
  query_conditions :: "condition list"
  cookie_conditions :: "condition list"
  ip_conditions :: "'net list"
  reg_rewrite :: "'re RegexRewrite option"
  strip_prefix_on :: bool
  rewrite_path :: "string option"
  loc_headers :: "(string \<times> string \<times> bool) list option"
  upstream_host :: "string option"
  site_hosts :: "string list"
  plugins :: "string list option"
  accepted :: "64 word"
  processing :: "32 word"
  max_processing :: int
  grpc_web :: bool
  client_max_body_size :: nat
  downstream_timeout :: "nat option"
  max_retries :: "u8 option"
  max_retry_window :: "nat option"

definition DEFAULT_PROXY_SET_HEADERS :: "(string \<times> string) list" where
  "DEFAULT_PROXY_SET_HEADERS =
     [(''x-real-ip'', ''$remote_addr''), (''x-forwarded-for'', ''$proxy_add_x_forwarded_for''),
      (''x-forwarded-proto'', ''$scheme''), (''x-forwarded-host'', ''$host''),
      (''x-forwarded-port'', ''$server_port'')]"

definition format_headers ::
  "('h, 'u) HttpLib \<Rightarrow> string list option \<Rightarrow> LocationError + (string \<times> string) list option" where
  "format_headers H values =
     (case values of
        None \<Rightarrow> Inr None
      | Some vs \<Rightarrow>
          (case convert_headers H vs of
             Inl (InvalidHeaderName k) \<Rightarrow> Inl (Invalid k)
           | Inl (InvalidHeaderValue v) \<Rightarrow> Inl (Invalid v)
           | Inr hs \<Rightarrow> Inr (Some hs)))"

fun map_result :: "('a \<Rightarrow> 'e + 'b) \<Rightarrow> 'a list \<Rightarrow> 'e + 'b list" where
  "map_result f [] = Inr []"
| "map_result f (x # xs) =
     (case f x of
        Inl e \<Rightarrow> Inl e
      | Inr y \<Rightarrow> (case map_result f xs of Inl e \<Rightarrow> Inl e | Inr ys \<Rightarrow> Inr (y # ys)))"

definition sum_bind :: "'e + 'a \<Rightarrow> ('a \<Rightarrow> 'e + 'b) \<Rightarrow> 'e + 'b" where
  "sum_bind r f = (case r of Inl e \<Rightarrow> Inl e | Inr x \<Rightarrow> f x)"

definition parse_hosts :: "'re RegexLib \<Rightarrow> string option \<Rightarrow> LocationError + 're HostSelector list" where
  "parse_hosts R host =
     map_result (host_selector_new R)
       (filter (\<lambda>s. s \<noteq> []) (map trim_str (split_on CHR '','' (unwrap_or host []))))"

definition add_site_host :: "string \<Rightarrow> string list \<Rightarrow> string list" where
  "add_site_host host0 seen =
     (let host = to_ascii_lowercase (trim_str host0)
      in if host \<noteq> [] \<and> host \<notin> set seen then seen @ [host] else seen)"

definition trimmed_some :: "string option \<Rightarrow> string option" where
  "trimmed_some v = Option.bind v (\<lambda>s. if trim_str s = [] then None else Some (trim_str s))"

definition clamp_timeout :: "u32 \<Rightarrow> nat" where
  "clamp_timeout secs = max 1 (min 3600 (unat secs))"

text \<open>\<open>static\<close> resolves what is fixed for the life of the process in a configured header value.\<close>

definition location_new ::
  "('h, 'u) HttpLib \<Rightarrow> 're RegexLib \<Rightarrow> 'net NetLib \<Rightarrow> (string \<Rightarrow> string) \<Rightarrow> string \<Rightarrow> LocationConf
    \<Rightarrow> LocationError + ('re, 'net) Location" where
  "location_new H R N static nm conf =
     (if nm = [] then Inl (Invalid ''Name is required'')
      else
        sum_bind (case trimmed_some (conf_rewrite conf) of
                    None \<Rightarrow> Inr None
                  | Some v \<Rightarrow> (case regex_rewrite_new R v of Inl e \<Rightarrow> Inl e | Inr r \<Rightarrow> Inr (Some r)))
        (\<lambda>rw. sum_bind (parse_hosts R (conf_host conf))
        (\<lambda>hs. sum_bind (parse_ip_conditions N (conf_match_ip_ranges conf))
        (\<lambda>ipc. sum_bind (format_headers H (conf_proxy_set_headers conf))
        (\<lambda>set_hs. sum_bind (format_headers H (conf_proxy_add_headers conf))
        (\<lambda>add_hs. sum_bind (path_selector_new R (unwrap_or (conf_path conf) []))
        (\<lambda>sel. sum_bind (case trimmed_some (conf_upstream_host conf) of
                           None \<Rightarrow> Inr None
                         | Some v \<Rightarrow> (case value_from_str H v of
                                        None \<Rightarrow> Inl (Invalid (unwrap_or (conf_upstream_host conf) []))
                                      | Some hv \<Rightarrow> Inr (Some hv)))
        (\<lambda>uh.
          let hdrs = (if unwrap_or (conf_enable_reverse_proxy_headers conf) False
                      then map (\<lambda>(n, v). (n, v, False)) DEFAULT_PROXY_SET_HEADERS else [])
                     @ map (\<lambda>(n, v). (n, static v, False)) (unwrap_or set_hs [])
                     @ map (\<lambda>(n, v). (n, static v, True)) (unwrap_or add_hs [])
          in Inr
          \<lparr>loc_name = nm, upstream = unwrap_or (conf_upstream conf) [], path_selector = sel, hosts = hs,
           header_conditions = parse_match_conditions (conf_match_headers conf),
           query_conditions = parse_match_conditions (conf_match_query conf),
           cookie_conditions = parse_match_conditions (conf_match_cookies conf),
           ip_conditions = ipc, reg_rewrite = rw,
           strip_prefix_on = unwrap_or (conf_strip_prefix conf) False,
           rewrite_path = Option.bind (trimmed_some (conf_rewrite_path conf))
                            (\<lambda>v. if validate_rewrite_path v = None then Some v else None),
           loc_headers = (if hdrs = [] then None else Some hdrs),
           upstream_host = uh,
           site_hosts = fold add_site_host (unwrap_or (conf_site_hosts conf) []) [],
           plugins = conf_plugins conf, accepted = 0, processing = 0,
           max_processing = unwrap_or (conf_max_processing conf) 0,
           grpc_web = unwrap_or (conf_grpc_web conf) False,
           client_max_body_size = unwrap_or (conf_client_max_body_size conf) 0,
           downstream_timeout = map_option clamp_timeout (conf_downstream_timeout_secs conf),
           max_retries = conf_max_retries conf,
           max_retry_window = conf_max_retry_window conf\<rparr>))))))))"

section \<open>Operations of a location\<close>

text \<open>
  The plugins of a location, kept with the version of the provider they were resolved against.
  \<open>get\<close> is the provider's lookup and \<open>ver\<close> its current version.
\<close>

type_synonym 'p resolved_plugins = "(nat \<times> (string \<times> 'p) list) option"

definition plugins_for ::
  "('re, 'net) Location \<Rightarrow> nat \<Rightarrow> (string \<rightharpoonup> 'p) \<Rightarrow> 'p resolved_plugins
    \<Rightarrow> (string \<times> 'p) list option \<times> 'p resolved_plugins" where
  "plugins_for L ver get cache =
     (case plugins L of
        None \<Rightarrow> (None, cache)
      | Some names \<Rightarrow>
          (case cache of
             Some (v, ps) \<Rightarrow>
               if v = ver then (if ps \<noteq> [] then Some ps else None, cache)
               else let ps' = List.map_filter (\<lambda>n. map_option (Pair n) (get n)) names
                    in (if ps' \<noteq> [] then Some ps' else None, Some (ver, ps'))
           | None \<Rightarrow>
               let ps' = List.map_filter (\<lambda>n. map_option (Pair n) (get n)) names
               in (if ps' \<noteq> [] then Some ps' else None, Some (ver, ps'))))"

definition path_prefix :: "('re, 'net) Location \<Rightarrow> string option" where
  "path_prefix L = (case path_selector L of PathPrefix value \<Rightarrow> Some value | _ \<Rightarrow> None)"

definition rewrite_upstream_path ::
  "('h, 'u) HttpLib \<Rightarrow> ('re, 'net) Location \<Rightarrow> ('h, 'u) RequestHeader \<Rightarrow> ('h, 'u) RequestHeader" where
  "rewrite_upstream_path H L header =
     (if rewrite_path L = None \<and> \<not> strip_prefix_on L then header
      else let path = uri_path H (uri header) in
           if \<not> prefix ''/'' path then header
           else case stripped_path path (path_prefix L) (rewrite_path L) of
                  None \<Rightarrow> header
                | Some new_path \<Rightarrow> snd (set_request_path H new_path header))"

definition get_content_length :: "('h, 'u) HttpLib \<Rightarrow> ('h, 'u) RequestHeader \<Rightarrow> nat option" where
  "get_content_length H header =
     Option.bind (hdr_get H (headers header) ''content-length'')
       (\<lambda>v. usize_from_str (unwrap_or (to_str H v) []))"

definition validate_content_length ::
  "('h, 'u) HttpLib \<Rightarrow> ('re, 'net) Location \<Rightarrow> ('h, 'u) RequestHeader \<Rightarrow> LocationError option" where
  "validate_content_length H L header =
     (if client_max_body_size L = 0 then None
      else if client_max_body_size L < unwrap_or (get_content_length H header) 0
      then Some (BodyTooLarge (client_max_body_size L)) else None)"

definition host_index_entry :: "'re HostSelector \<Rightarrow> HostIndexEntry" where
  "host_index_entry sel =
     (case sel of
        HostEqual value \<Rightarrow> Exact value
      | HostSuffix domain \<Rightarrow> Suffix domain
      | HostRegex _ \<Rightarrow> Regex)"

definition host_index_entries :: "('re, 'net) Location \<Rightarrow> HostIndexEntry list" where
  "host_index_entries L = (if hosts L = [] then [Any] else map host_index_entry (hosts L))"

fun match_hosts ::
  "'re RegexLib \<Rightarrow> string \<Rightarrow> 're HostSelector list \<Rightarrow> variables option \<Rightarrow> bool \<times> variables option" where
  "match_hosts R host [] caps = (False, caps)"
| "match_hosts R host (sel # sels) caps =
     (let (matched, cs) = host_is_match R sel host;
          caps' = (case cs of
                     None \<Rightarrow> caps
                   | Some c \<Rightarrow> (case caps of None \<Rightarrow> Some c | Some values \<Rightarrow> Some (values ++ c)))
      in if matched then (True, caps') else match_hosts R host sels caps')"

definition match_host_path ::
  "'re RegexLib \<Rightarrow> ('re, 'net) Location \<Rightarrow> string \<Rightarrow> string \<Rightarrow> bool \<times> variables option" where
  "match_host_path R L host path =
     (let (matched, capture_values) = path_is_match R (path_selector L) path in
      if \<not> matched then (False, None)
      else if hosts L = [] then (True, capture_values)
      else match_hosts R host (hosts L) capture_values)"

definition match_conditions ::
  "('h, 'u) HttpLib \<Rightarrow> 'net NetLib \<Rightarrow> ('re, 'net) Location \<Rightarrow> ('h, 'u) RequestHeader \<Rightarrow> IpAddr option \<Rightarrow> bool" where
  "match_conditions H N L header client_ip =
     ((ip_conditions L \<noteq> [] \<longrightarrow>
         (case map_option normalize_client_ip client_ip of
            None \<Rightarrow> False
          | Some ip \<Rightarrow> list_ex (\<lambda>network. net_has N network ip) (ip_conditions L))) \<and>
      list_all (\<lambda>(n, e). condition_met (get_req_header_value H header n) e) (header_conditions L) \<and>
      list_all (\<lambda>(n, e). condition_met (get_query_value H header n) e) (query_conditions L) \<and>
      list_all (\<lambda>(n, e). condition_met (get_cookie_value H header n) e) (cookie_conditions L))"

text \<open>The counters; the error carries the limit.\<close>

definition loc_on_request ::
  "('re, 'net) Location \<Rightarrow> (LocationError + 64 word \<times> 32 word) \<times> ('re, 'net) Location" where
  "loc_on_request L =
     (let a = accepted L + 1; p = processing L + 1; L' = L\<lparr>accepted := a, processing := p\<rparr>
      in if max_processing L \<noteq> 0 \<and> max_processing L < sint p
         then (Inl (TooManyRequest (max_processing L)), L') else (Inr (a, p), L'))"

definition loc_on_response :: "('re, 'net) Location \<Rightarrow> ('re, 'net) Location" where
  "loc_on_response L = L\<lparr>processing := processing L - 1\<rparr>"

definition rewrite_replacement :: "'re RegexRewrite \<Rightarrow> variables option \<Rightarrow> string" where
  "rewrite_replacement rw vars =
     (case vars of
        Some vs \<Rightarrow> if rw_has_variables rw \<and> vs \<noteq> Map.empty then interpolate_variables vs (rw_value rw) else rw_value rw
      | None \<Rightarrow> rw_value rw)"

definition rewrite ::
  "('h, 'u) HttpLib \<Rightarrow> 're RegexLib \<Rightarrow> ('re, 'net) Location \<Rightarrow> ('h, 'u) RequestHeader \<Rightarrow> variables option
    \<Rightarrow> bool \<times> ('h, 'u) RequestHeader \<times> variables option" where
  "rewrite H R L header vars =
     (case reg_rewrite L of
        None \<Rightarrow> (False, header, vars)
      | Some rw \<Rightarrow>
          (let path = uri_path H (uri header);
               replacement = rewrite_replacement rw vars;
               found = (if rw_match_all rw then None else re_captures R (rw_re rw) path)
           in if \<not> rw_match_all rw \<and> found = None then (False, header, vars)
              else
                let new_path = (case found of
                                  None \<Rightarrow> replacement
                                | Some f \<Rightarrow> take (found_start f) path @ found_expand f replacement
                                            @ drop (found_end f) path)
                in if new_path = path then (False, header, vars)
                   else
                     let vars' = (case found of
                                    Some f \<Rightarrow> if rw_has_named_captures rw
                                              then fold (insert_group f) (re_capture_names R (rw_re rw)) vars
                                              else vars
                                  | None \<Rightarrow> vars);
                         target = new_path @ (case uri_query H (uri header) of None \<Rightarrow> [] | Some q \<Rightarrow> ''?'' @ q)
                     in (True,
                         (case uri_from_str H target of Some u \<Rightarrow> header\<lparr>uri := u\<rparr> | None \<Rightarrow> header),
                         vars')))"

section \<open>Lemmas\<close>

definition lowercased :: "string \<Rightarrow> bool" where
  "lowercased s \<longleftrightarrow> to_ascii_lowercase s = s"

fun selector_lowercased :: "'re HostSelector \<Rightarrow> bool" where
  "selector_lowercased (HostEqual v) = lowercased v"
| "selector_lowercased (HostSuffix d) = lowercased d"
| "selector_lowercased (HostRegex r) = True"

lemma host_selector_lowercased: "host_selector_new R h = Inr sel \<Longrightarrow> selector_lowercased sel"
  by (auto simp: host_selector_new_def Let_def lowercased_def split: option.splits if_splits)

lemma map_result_Inr: "map_result f xs = Inr ys \<Longrightarrow> \<forall>y \<in> set ys. \<exists>x \<in> set xs. f x = Inr y"
  by (induction xs arbitrary: ys) (auto split: sum.splits)

lemma location_new_hosts:
  assumes "location_new H R N static nm conf = Inr L"
  shows "parse_hosts R (conf_host conf) = Inr (hosts L)"
  using assms by (auto simp: location_new_def sum_bind_def Let_def split: if_splits sum.splits)

lemma location_hosts_lowercased:
  assumes "location_new H R N static nm conf = Inr L"
  shows "\<forall>sel \<in> set (hosts L). selector_lowercased sel"
  using location_new_hosts [OF assms] host_selector_lowercased
  by (fastforce simp: parse_hosts_def dest!: map_result_Inr)

lemma match_hosts_ex: "fst (match_hosts R host sels caps) \<longleftrightarrow> (\<exists>sel \<in> set sels. fst (host_is_match R sel host))"
  by (induction sels arbitrary: caps) (auto simp: split_beta Let_def)

lemma match_host_path_iff:
  "fst (match_host_path R L host path) \<longleftrightarrow>
     fst (path_is_match R (path_selector L) path) \<and>
     (hosts L = [] \<or> (\<exists>sel \<in> set (hosts L). fst (host_is_match R sel host)))"
  by (simp add: match_host_path_def split_beta match_hosts_ex)

text \<open>A cache that was filled against the provider's current content gives what a lookup gives.\<close>

definition plugins_coherent ::
  "('re, 'net) Location \<Rightarrow> (nat \<Rightarrow> string \<rightharpoonup> 'p) \<Rightarrow> 'p resolved_plugins \<Rightarrow> bool" where
  "plugins_coherent L content cache \<longleftrightarrow>
     (\<forall>v ps. cache = Some (v, ps) \<longrightarrow>
        ps = List.map_filter (\<lambda>n. map_option (Pair n) (content v n)) (unwrap_or (plugins L) []))"

lemma plugins_for_transparent:
  assumes "plugins_coherent L content cache"
  shows "fst (plugins_for L ver (content ver) cache) = fst (plugins_for L ver (content ver) None)"
    and "plugins_coherent L content (snd (plugins_for L ver (content ver) cache))"
  using assms by (auto simp: plugins_for_def plugins_coherent_def Let_def split: option.splits)

lemma location_new_rewrite_path:
  assumes "location_new H R N static nm conf = Inr L" "rewrite_path L = Some p"
  shows "p \<noteq> [] \<and> validate_rewrite_path p = None"
proof -
  have "rewrite_path L = Option.bind (trimmed_some (conf_rewrite_path conf))
      (\<lambda>v. if validate_rewrite_path v = None then Some v else None)"
    using assms(1) by (auto simp: location_new_def sum_bind_def Let_def split: if_splits sum.splits)
  with assms(2) show ?thesis
    by (auto simp: trimmed_some_def split: bind_splits if_splits)
qed

text \<open>What the http crate documents of a URI: a text that starts with a slash is read as a path, up to
  the first question mark, and a query; and no path holds a question mark or a hash, no query
  a hash.\<close>

definition origin_form_law :: "('h, 'u) HttpLib \<Rightarrow> bool" where
  "origin_form_law H \<longleftrightarrow>
     (\<forall>p q u. prefix ''/'' p \<and> CHR ''?'' \<notin> set p \<and> CHR ''#'' \<notin> set p \<and> (\<forall>t. q = Some t \<longrightarrow> CHR ''#'' \<notin> set t) \<and>
        uri_from_str H (p @ (case q of None \<Rightarrow> [] | Some t \<Rightarrow> ''?'' @ t)) = Some u \<longrightarrow>
        uri_path H u = p \<and> uri_query H u = q)"

definition uri_wf :: "('h, 'u) HttpLib \<Rightarrow> 'u \<Rightarrow> bool" where
  "uri_wf H u \<longleftrightarrow> CHR ''?'' \<notin> set (uri_path H u) \<and> CHR ''#'' \<notin> set (uri_path H u)
     \<and> (case uri_query H u of None \<Rightarrow> True | Some q \<Rightarrow> CHR ''#'' \<notin> set q)"

lemma origin_formD:
  assumes "origin_form_law H" "uri_from_str H (p @ (case q of None \<Rightarrow> [] | Some t \<Rightarrow> ''?'' @ t)) = Some u"
    and "prefix ''/'' p" "CHR ''?'' \<notin> set p" "CHR ''#'' \<notin> set p" "\<forall>t. q = Some t \<longrightarrow> CHR ''#'' \<notin> set t"
  shows "uri_path H u = p \<and> uri_query H u = q"
  using assms unfolding origin_form_law_def by blast

text \<open>The path the configuration asks for: the fixed one, or what is left behind the prefix.\<close>

definition upstream_path :: "('re, 'net) Location \<Rightarrow> string \<Rightarrow> string" where
  "upstream_path L path =
     (case rewrite_path L of
        Some r \<Rightarrow> r
      | None \<Rightarrow>
          (case (if strip_prefix_on L then Option.bind (path_prefix L) (\<lambda>p. strip_prefix p path) else None) of
             None \<Rightarrow> path
           | Some rest \<Rightarrow> if prefix ''/'' rest then rest else ''/'' @ rest))"

lemma strip_prefix_subset: "strip_prefix p path = Some rest \<Longrightarrow> set rest \<subseteq> set path"
  by (auto simp: strip_prefix_def split: if_splits dest: in_set_dropD)

lemma stripped_upstream_path:
  assumes "rewrite_path L \<noteq> None \<or> strip_prefix_on L"
  shows "stripped_path path (path_prefix L) (rewrite_path L)
       = (if upstream_path L path = path then None else Some (upstream_path L path))"
  using assms by (auto simp: stripped_path_def upstream_path_def split: option.split bind_split)

lemma upstream_path_wf:
  assumes "location_new H R N static nm conf = Inr L"
    and "prefix ''/'' path" "CHR ''?'' \<notin> set path" "CHR ''#'' \<notin> set path"
  shows "prefix ''/'' (upstream_path L path) \<and> CHR ''?'' \<notin> set (upstream_path L path)
       \<and> CHR ''#'' \<notin> set (upstream_path L path)"
proof (cases "rewrite_path L")
  case None
  then show ?thesis using assms(2-4) strip_prefix_subset [of _ path]
    by (auto simp: upstream_path_def split: option.split bind_splits)
next
  case (Some r)
  from location_new_rewrite_path [OF assms(1) Some] have "\<not> bad_path_char r" "prefix ''/'' r"
    by (auto simp: validate_rewrite_path_def split: if_splits)
  with Some show ?thesis by (auto simp: upstream_path_def bad_path_char_def list_ex_iff)
qed

text \<open>
  C24: what the upstream is asked for, after the step that strips the matched prefix or puts in the
  fixed path (the regular-expression \<^verbatim>\<open>rewrite\<close> is another step).  For a location compiled from its
  configuration, the method, version and headers are kept.  A target that is no absolute path
  (\<^verbatim>\<open>CONNECT\<close>, \<^verbatim>\<open>OPTIONS *\<close>) is left alone.  Otherwise the new path is exactly the one the
  configuration asks for, or the old one if the URI parser refuses the new target; it is
  absolute, brings in no query and no fragment, and the query of the request is kept.
\<close>

theorem upstream_path_absolute:
  assumes "location_new H R N static nm conf = Inr L" and "origin_form_law H" "uri_wf H (uri header)"
    and "header' = rewrite_upstream_path H L header" "path = uri_path H (uri header)"
    and "target = upstream_path L path @ (case uri_query H (uri header) of None \<Rightarrow> [] | Some q \<Rightarrow> ''?'' @ q)"
  shows "header' = header\<lparr>uri := uri header'\<rparr>
       \<and> (if \<not> prefix ''/'' path then uri header' = uri header
          else uri_path H (uri header') = (if uri_from_str H target = None then path else upstream_path L path)
             \<and> prefix ''/'' (uri_path H (uri header')) \<and> uri_wf H (uri header')
             \<and> uri_query H (uri header') = uri_query H (uri header))"
proof (cases "prefix ''/'' path \<and> (rewrite_path L \<noteq> None \<or> strip_prefix_on L)
    \<and> upstream_path L path \<noteq> path \<and> uri_from_str H target \<noteq> None")
  case True
  then obtain u where u: "uri_from_str H target = Some u" by auto
  have h: "header' = header\<lparr>uri := u\<rparr>"
    using True u by (auto simp: assms(4-6) rewrite_upstream_path_def stripped_upstream_path set_request_path_def Let_def)
  note wf = upstream_path_wf [OF assms(1), of path]
  have "uri_path H u = upstream_path L path \<and> uri_query H u = uri_query H (uri header)"
    using wf True assms(3) by (intro origin_formD [OF assms(2) u [unfolded assms(6)]]) (auto simp: uri_wf_def assms(5))
  then show ?thesis using True wf assms(3) by (auto simp: h uri_wf_def assms(5))
next
  case False
  have same: "header' = header" if "prefix ''/'' path"
    using False that by (auto simp: assms(4-6) rewrite_upstream_path_def stripped_upstream_path set_request_path_def Let_def)
  have "header' = header" if "\<not> prefix ''/'' path"
    using that by (simp add: assms(4,5) rewrite_upstream_path_def)
  with same have h: "header' = header" by blast
  have "upstream_path L path = path" if "rewrite_path L = None" "\<not> strip_prefix_on L"
    using that by (simp add: upstream_path_def)
  with False assms(3) show ?thesis by (auto simp: h assms(5))
qed

definition plain_conf :: LocationConf where
  "plain_conf =
     \<lparr>conf_upstream = None, conf_path = None, conf_host = None, conf_upstream_host = None,
      conf_site_hosts = None, conf_match_headers = None, conf_match_query = None,
      conf_match_cookies = None, conf_match_ip_ranges = None, conf_proxy_set_headers = None,
      conf_proxy_add_headers = None, conf_strip_prefix = None, conf_rewrite_path = None,
      conf_rewrite = None, conf_plugins = None, conf_client_max_body_size = None,
      conf_max_processing = None, conf_grpc_web = None, conf_enable_reverse_proxy_headers = None,
      conf_max_retries = None, conf_max_retry_window = None, conf_downstream_timeout_secs = None\<rparr>"

text \<open>Literal patterns stand in for regular expressions in the witnesses.\<close>

definition demo_regex :: "string RegexLib" where
  "demo_regex = \<lparr>re_new = Some, re_as_str = (\<lambda>r. r), re_capture_names = (\<lambda>_. []),
     re_is_match = (\<lambda>r s. contains_str s r), re_captures = (\<lambda>_ _. None)\<rparr>"

definition demo_location :: "string \<Rightarrow> LocationConf \<Rightarrow> LocationError + (string, nat list) Location" where
  "demo_location nm conf = location_new demo_http demo_regex demo_nets (\<lambda>v. v) nm conf"

lemma demo_origin_form: "origin_form_law demo_http"
  unfolding origin_form_law_def
proof (intro allI impI, elim conjE)
  fix p and mq and u
  assume p: "CHR ''?'' \<notin> set p"
    and u: "uri_from_str demo_http (p @ (case mq of None \<Rightarrow> [] | Some t \<Rightarrow> ''?'' @ t)) = Some u"
  from p have "split_once_char CHR ''?'' p = None" by (subst split_once_char_None)
  with u split_once_char_append [OF p] show "uri_path demo_http u = p \<and> uri_query demo_http u = mq"
    by (cases mq) (auto simp: demo_http_def)
qed

theorem upstream_path_absolute_witness:
  "\<exists>L. demo_location ''api'' (plain_conf\<lparr>conf_path := Some ''/api'', conf_strip_prefix := Some True\<rparr>) = Inr L \<and>
       origin_form_law demo_http \<and>
       (let h = \<lparr>http_method = ''GET'', version = HTTP_11, uri = (None, ''/api/users'', Some ''a=1''), headers = []\<rparr>;
            h' = rewrite_upstream_path demo_http L h
        in http_method h' = ''GET'' \<and> uri_path demo_http (uri h') = ''/users''
           \<and> uri_query demo_http (uri h') = Some ''a=1'')"
proof -
  let ?conf = "plain_conf\<lparr>conf_path := Some ''/api'', conf_strip_prefix := Some True\<rparr>"
  let ?h = "\<lparr>http_method = ''GET'', version = HTTP_11, uri = (None, ''/api/users'', Some ''a=1''), headers = []\<rparr>"
  have t: "trim_str ''/api'' = ''/api''" and trim_Nil: "trim_str [] = []" by code_simp+
  have "case demo_location ''api'' ?conf of
      Inl _ \<Rightarrow> False | Inr L \<Rightarrow> path_prefix L = Some ''/api'' \<and> rewrite_path L = None \<and> strip_prefix_on L"
    by (simp add: demo_location_def location_new_def sum_bind_def trimmed_some_def plain_conf_def parse_hosts_def
        trim_Nil parse_ip_conditions_def format_headers_def path_selector_new_def t path_prefix_def strip_prefix_def)
  then obtain L where L: "demo_location ''api'' ?conf = Inr L" "path_prefix L = Some ''/api''" "rewrite_path L = None"
      "strip_prefix_on L"
    by (auto split: sum.splits)
  have p: "upstream_path L ''/api/users'' = ''/users''"
    by (simp add: upstream_path_def L strip_prefix_def)
  have w: "uri_wf demo_http (uri ?h)" "uri_from_str demo_http ''/users?a=1'' \<noteq> None"
    by (simp_all add: uri_wf_def demo_http_def split: option.split)
  have u: "uri_path demo_http (uri ?h) = ''/api/users''" "uri_query demo_http (uri ?h) = Some ''a=1''"
    by (simp_all add: demo_http_def)
  note r = upstream_path_absolute [OF L(1) [unfolded demo_location_def] demo_origin_form w(1) refl refl refl,
      unfolded u p]
  have "http_method (rewrite_upstream_path demo_http L ?h) = ''GET''"
    using arg_cong [OF r [THEN conjunct1], of http_method] by simp
  moreover have "uri_path demo_http (uri (rewrite_upstream_path demo_http L ?h)) = ''/users''
      \<and> uri_query demo_http (uri (rewrite_upstream_path demo_http L ?h)) = Some ''a=1''"
    using r [THEN conjunct2] w(2) by (simp split: if_splits)
  ultimately show ?thesis unfolding Let_def using L(1) demo_origin_form by blast
qed

end
