(* ===== verification/Location_Route.thy ===== *)
theory Location_Route
  imports Location
begin

text \<open>
  \<^verbatim>\<open>src/pingap-location/src/host_index.rs\<close>, the index that narrows the locations a request is
  matched against, and the routing step of \<^verbatim>\<open>src/pingap-proxy/src/server.rs\<close>: the checks of the
  request head, the choice of the location and its admission.  The lemmas show that the index
  never changes which location is chosen, that an address condition is judged on the peer, and
  that the concurrency limit of a location holds in every interleaving.
\<close>

section \<open>The host index\<close>

text \<open>A bucket map: the indices filed under each key, in order of insertion.\<close>

type_synonym buckets = "(string \<times> u16 list) list"

fun push_bucket :: "string \<Rightarrow> u16 \<Rightarrow> buckets \<Rightarrow> buckets" where
  "push_bucket k i [] = [(k, [i])]"
| "push_bucket k i ((k', is) # bs) =
     (if k = k' then (k', is @ [i]) # bs else (k', is) # push_bucket k i bs)"

record LocationHostIndex =
  ordered :: "string list"
  exact :: buckets
  suffix_hosts :: buckets
  regex_hosts :: "u16 list"
  any_host :: "u16 list"

definition index_entry :: "u16 \<Rightarrow> HostIndexEntry \<Rightarrow> LocationHostIndex \<Rightarrow> LocationHostIndex" where
  "index_entry idx entry ix =
     (case entry of
        Exact host \<Rightarrow> ix\<lparr>exact := push_bucket host idx (exact ix)\<rparr>
      | Suffix domain \<Rightarrow> ix\<lparr>suffix_hosts := push_bucket domain idx (suffix_hosts ix)\<rparr>
      | Regex \<Rightarrow> if idx \<in> set (regex_hosts ix) then ix else ix\<lparr>regex_hosts := regex_hosts ix @ [idx]\<rparr>
      | Any \<Rightarrow> if idx \<in> set (any_host ix) then ix else ix\<lparr>any_host := any_host ix @ [idx]\<rparr>)"

definition index_location ::
  "(string \<Rightarrow> ('re, 'net) Location option) \<Rightarrow> nat \<times> string \<Rightarrow> LocationHostIndex \<Rightarrow> LocationHostIndex" where
  "index_location resolve item ix =
     (case resolve (snd item) of
        None \<Rightarrow> ix
      | Some L \<Rightarrow> fold (index_entry (word_of_nat (fst item))) (host_index_entries L) ix)"

text \<open>\<open>iter\<close> is the order in which the hash map of the suffixes is drained.\<close>

definition index_build ::
  "(buckets \<Rightarrow> buckets) \<Rightarrow> string list \<Rightarrow> (string \<Rightarrow> ('re, 'net) Location option) \<Rightarrow> LocationHostIndex" where
  "index_build iter names resolve =
     (let ix = fold (index_location resolve) (List.enumerate 0 names)
                 \<lparr>ordered = names, exact = [], suffix_hosts = [], regex_hosts = [], any_host = []\<rparr>
      in ix\<lparr>suffix_hosts := sort_key (\<lambda>(d, _). - int (length d)) (iter (suffix_hosts ix))\<rparr>)"

definition candidate_indices :: "LocationHostIndex \<Rightarrow> string \<Rightarrow> nat list" where
  "candidate_indices ix host =
     (let host_lower = (if list_ex is_ascii_uppercase host then to_ascii_lowercase host else host);
          c1 = (if exact ix \<noteq> []
                then (case map_of (exact ix) host_lower of Some is \<Rightarrow> map unat is | None \<Rightarrow> [])
                else []);
          c2 = concat (map (\<lambda>(domain, is). if host_matches_suffix host domain then map unat is else [])
                         (suffix_hosts ix))
      in remdups_adj (sort (c1 @ c2 @ map unat (regex_hosts ix) @ map unat (any_host ix))))"

definition candidate_names :: "LocationHostIndex \<Rightarrow> string \<Rightarrow> string list" where
  "candidate_names ix host =
     List.map_filter (\<lambda>i. if i < length (ordered ix) then Some (ordered ix ! i) else None)
       (candidate_indices ix host)"

record ServerLocationRoute =
  route_ordered :: "string list"
  host_index :: LocationHostIndex

definition route_new :: "string list \<Rightarrow> LocationHostIndex \<Rightarrow> ServerLocationRoute" where
  "route_new names ix = \<lparr>route_ordered = names, host_index = ix\<rparr>"

definition route_build ::
  "(buckets \<Rightarrow> buckets) \<Rightarrow> string list \<Rightarrow> (string \<Rightarrow> ('re, 'net) Location option) \<Rightarrow> ServerLocationRoute" where
  "route_build iter names resolve =
     (let ix = index_build iter names resolve in \<lparr>route_ordered = ordered ix, host_index = ix\<rparr>)"

section \<open>Routing a request\<close>

definition MAX_SINGLE_REQUEST_HEADER_BYTES :: nat where "MAX_SINGLE_REQUEST_HEADER_BYTES = 8 * 1024"

definition ALLOWED_REQUEST_METHODS :: "string list" where
  "ALLOWED_REQUEST_METHODS = [''GET'', ''HEAD'', ''POST'', ''PUT'', ''DELETE'', ''OPTIONS'', ''PATCH'', ''TRACE'',
     ''CONNECT'', ''PURGE'']"

definition HOST_OPTIONAL_PATH_PREFIXES :: "string list" where
  "HOST_OPTIONAL_PATH_PREFIXES = [''/healthz'', ''/ready'', ''/metrics'']"

definition validate_request_head ::
  "('h, 'u) HttpLib \<Rightarrow> ('h, 'u) RequestHeader \<Rightarrow> (nat \<times> string) option" where
  "validate_request_head H header =
     (if http_method header \<notin> set ALLOWED_REQUEST_METHODS
      then Some (405, ''method not allowed: '' @ http_method header)
      else case find (\<lambda>(n, v). MAX_SINGLE_REQUEST_HEADER_BYTES < length n + length v)
                  (hdr_iter H (headers header)) of
             Some (n, v) \<Rightarrow> Some (431, ''request header field too large: '' @ n)
           | None \<Rightarrow> None)"

definition host_is_optional_parts :: "HttpVersion \<Rightarrow> string \<Rightarrow> bool" where
  "host_is_optional_parts ver path \<longleftrightarrow>
     ver = HTTP_09 \<or> ver = HTTP_10 \<or> list_ex (\<lambda>p. prefix p path) HOST_OPTIONAL_PATH_PREFIXES"

definition host_is_optional :: "('h, 'u) HttpLib \<Rightarrow> ('h, 'u) RequestHeader \<Rightarrow> bool" where
  "host_is_optional H header = host_is_optional_parts (version header) (uri_path H (uri header))"

text \<open>The libraries the server calls, together with the process-wide proxy list.\<close>

record ('h, 'u, 're, 'net) ServerLib =
  lib_http :: "('h, 'u) HttpLib"
  lib_regex :: "'re RegexLib"
  lib_net :: "'net NetLib"
  lib_proxies :: "'net ProxyGlobals"

text \<open>What one candidate contributes: the location and its captures when it serves the request.\<close>

definition try_location ::
  "('h, 'u, 're, 'net) ServerLib \<Rightarrow> string list \<Rightarrow> (string \<rightharpoonup> ('re, 'net) Location) \<Rightarrow> ('h, 'u) RequestHeader
    \<Rightarrow> IpAddr option \<Rightarrow> string \<Rightarrow> nat \<Rightarrow> (('re, 'net) Location \<times> variables option) option" where
  "try_location S names provider header client_ip host idx =
     (if idx < length names then
        (case provider (names ! idx) of
           None \<Rightarrow> None
         | Some L \<Rightarrow>
             (let (matched, caps) = match_host_path (lib_regex S) L host (uri_path (lib_http S) (uri header))
              in if matched \<and> match_conditions (lib_http S) (lib_net S) L header client_ip
                 then Some (L, caps) else None))
      else None)"

definition find_location ::
  "('h, 'u, 're, 'net) ServerLib \<Rightarrow> ServerLocationRoute \<Rightarrow> (string \<rightharpoonup> ('re, 'net) Location)
    \<Rightarrow> ('h, 'u) RequestHeader \<Rightarrow> IpAddr option \<Rightarrow> string \<Rightarrow> (('re, 'net) Location \<times> variables option) option" where
  "find_location S route provider header client_ip host =
     find_map (try_location S (route_ordered route) provider header client_ip host)
       (candidate_indices (host_index route) host)"

datatype RouteOutcome =
    Rejected nat
  | NoLocation
  | Routed string "64 word" "32 word"

text \<open>
  What the step leaves in the context: the cached client address, the name of the location,
  whether its instance is recorded (the request is then counted down when it is logged) and the
  variables.
\<close>

record RouteCtx =
  route_client_ip :: "string option"
  ctx_location :: string
  ctx_instance :: bool
  ctx_variables :: "variables option"

definition extend_variables :: "variables \<Rightarrow> RouteCtx \<Rightarrow> RouteCtx" where
  "extend_variables values ctx =
     ctx\<lparr>ctx_variables := Some (case ctx_variables ctx of None \<Rightarrow> values | Some vs \<Rightarrow> vs ++ values)\<rparr>"

definition apply_location ::
  "('h, 'u, 're, 'net) ServerLib \<Rightarrow> (string \<rightharpoonup> ('re, 'net) Location) \<Rightarrow> ('h, 'u) RequestHeader
    \<Rightarrow> ('re, 'net) Location \<Rightarrow> variables option \<Rightarrow> RouteCtx
    \<Rightarrow> RouteOutcome \<times> RouteCtx \<times> (string \<rightharpoonup> ('re, 'net) Location)" where
  "apply_location S provider header L caps ctx =
     (let ctx1 = ctx\<lparr>ctx_location := loc_name L\<rparr>;
          ctx2 = (case caps of None \<Rightarrow> ctx1 | Some c \<Rightarrow> extend_variables c ctx1)
      in if validate_content_length (lib_http S) L header \<noteq> None then (Rejected 413, ctx2, provider)
         else
           let ctx3 = ctx2\<lparr>ctx_instance := True\<rparr>;
               (r, L') = loc_on_request L;
               provider' = provider(loc_name L \<mapsto> L')
           in case r of
                Inl _ \<Rightarrow> (Rejected 429, ctx3, provider')
              | Inr (a, p) \<Rightarrow> (Routed (loc_name L) a p, ctx3, provider'))"

definition find_and_apply_location ::
  "('h, 'u, 're, 'net) ServerLib \<Rightarrow> ServerLocationRoute option \<Rightarrow> (string \<rightharpoonup> ('re, 'net) Location)
    \<Rightarrow> ('h, 'u) Session \<Rightarrow> RouteCtx \<Rightarrow> RouteOutcome \<times> RouteCtx \<times> (string \<rightharpoonup> ('re, 'net) Location)" where
  "find_and_apply_location S route provider session ctx =
     (let header = req_header session; H = lib_http S in
      if get_host H header = None \<and> \<not> host_is_optional H header then (Rejected 400, ctx, provider)
      else
        let host = unwrap_or (get_host H header) [] in
        case validate_request_head H header of
          Some (status, message) \<Rightarrow> (Rejected status, ctx, provider)
        | None \<Rightarrow>
            (case route of
               None \<Rightarrow> (NoLocation, ctx, provider)
             | Some rt \<Rightarrow>
                 (let (ip, cached) = ensure_client_ip H (lib_net S) (lib_proxies S) session (route_client_ip ctx);
                      ctx1 = ctx\<lparr>route_client_ip := cached\<rparr>
                  in case find_location S rt provider header (ip_from_str ip) host of
                       None \<Rightarrow> (NoLocation, ctx1, provider)
                     | Some (L, caps) \<Rightarrow> apply_location S provider header L caps ctx1)))"

section \<open>Buckets\<close>

lemma push_bucket_keys: "set (map fst (push_bucket k i bs)) = insert k (set (map fst bs))"
  by (induction k i bs rule: push_bucket.induct) auto

lemma push_bucket_distinct: "distinct (map fst bs) \<Longrightarrow> distinct (map fst (push_bucket k i bs))"
  by (induction k i bs rule: push_bucket.induct) (use push_bucket_keys in fastforce)+

definition bucket_has :: "buckets \<Rightarrow> string \<Rightarrow> u16 \<Rightarrow> bool" where
  "bucket_has bs k i \<longleftrightarrow> (\<exists>is. (k, is) \<in> set bs \<and> i \<in> set is)"

lemma bucket_has_simps [simp]:
  "\<not> bucket_has [] k i"
  "bucket_has ((k', is) # bs) k i \<longleftrightarrow> (k = k' \<and> i \<in> set is) \<or> bucket_has bs k i"
  by (auto simp: bucket_has_def)

lemma bucket_has_push:
  "bucket_has (push_bucket k i bs) k' j \<longleftrightarrow> bucket_has bs k' j \<or> (k' = k \<and> j = i)"
  by (induction k i bs rule: push_bucket.induct) auto

lemma bucket_has_map_of:
  "distinct (map fst bs) \<Longrightarrow>
   bucket_has bs k i \<longleftrightarrow> (case map_of bs k of None \<Rightarrow> False | Some is \<Rightarrow> i \<in> set is)"
  by (auto simp: bucket_has_def split: option.splits) (metis eq_key_imp_eq_value map_of_SomeD)

text \<open>What an index files: an entry under an index number.\<close>

fun files :: "LocationHostIndex \<Rightarrow> HostIndexEntry \<Rightarrow> u16 \<Rightarrow> bool" where
  "files ix (Exact k) i = bucket_has (exact ix) k i"
| "files ix (Suffix d) i = bucket_has (suffix_hosts ix) d i"
| "files ix Regex i = (i \<in> set (regex_hosts ix))"
| "files ix Any i = (i \<in> set (any_host ix))"

lemma files_index_entry: "files (index_entry idx e ix) e' i \<longleftrightarrow> files ix e' i \<or> (e' = e \<and> i = idx)"
  by (cases e; cases e') (auto simp: index_entry_def bucket_has_push)

lemma files_fold_entries:
  "files (fold (index_entry idx) es ix) e i \<longleftrightarrow> files ix e i \<or> (e \<in> set es \<and> i = idx)"
  by (induction es arbitrary: ix) (auto simp: files_index_entry)

lemma files_fold_locations:
  "files (fold (index_location resolve) items ix) e i \<longleftrightarrow>
     files ix e i \<or> (\<exists>(n, nm) \<in> set items. \<exists>L. resolve nm = Some L \<and> e \<in> set (host_index_entries L) \<and> i = word_of_nat n)"
  by (induction items arbitrary: ix)
    (auto simp: index_location_def files_fold_entries split: option.splits)

lemma exact_distinct_entry: "distinct (map fst (exact ix)) \<Longrightarrow> distinct (map fst (exact (index_entry idx e ix)))"
  by (cases e) (simp_all add: index_entry_def push_bucket_distinct)

lemma exact_distinct_entries:
  "distinct (map fst (exact ix)) \<Longrightarrow> distinct (map fst (exact (fold (index_entry idx) es ix)))"
  by (induction es arbitrary: ix) (simp_all add: exact_distinct_entry)

lemma exact_distinct_locations:
  "distinct (map fst (exact ix)) \<Longrightarrow> distinct (map fst (exact (fold (index_location resolve) items ix)))"
  by (induction items arbitrary: ix)
    (simp_all add: index_location_def exact_distinct_entries split: option.split)

lemma ordered_entries: "ordered (fold (index_entry idx) es ix) = ordered ix"
  by (induction es arbitrary: ix) (simp_all add: index_entry_def split: HostIndexEntry.split)

lemma ordered_fold: "ordered (fold (index_location resolve) items ix) = ordered ix"
  by (induction items arbitrary: ix) (simp_all add: index_location_def ordered_entries split: option.split)

section \<open>The index against a linear scan\<close>

lemma index_build_files:
  assumes "\<forall>bs. set (iter bs) = set bs"
  shows "files (index_build iter names resolve) e i \<longleftrightarrow>
    (\<exists>n L. n < length names \<and> resolve (names ! n) = Some L \<and> e \<in> set (host_index_entries L) \<and> i = word_of_nat n)"
proof -
  let ?ix = "fold (index_location resolve) (List.enumerate 0 names)
    \<lparr>ordered = names, exact = [], suffix_hosts = [], regex_hosts = [], any_host = []\<rparr>"
  have "files (index_build iter names resolve) e i \<longleftrightarrow> files ?ix e i"
    using assms by (cases e) (simp_all add: index_build_def bucket_has_def Let_def)
  moreover have "\<not> files \<lparr>ordered = names, exact = [], suffix_hosts = [], regex_hosts = [], any_host = []\<rparr> e i"
    by (cases e) simp_all
  ultimately show ?thesis
    by (auto simp: files_fold_locations in_set_enumerate_eq Bex_def)
qed

text \<open>Which entries make a location a candidate for a host.\<close>

fun entry_admits :: "string \<Rightarrow> HostIndexEntry \<Rightarrow> bool" where
  "entry_admits host (Exact k) \<longleftrightarrow> k = to_ascii_lowercase host"
| "entry_admits host (Suffix d) \<longleftrightarrow> host_matches_suffix host d"
| "entry_admits host Regex \<longleftrightarrow> True"
| "entry_admits host Any \<longleftrightarrow> True"

lemma no_uppercase_lower: "\<not> list_ex is_ascii_uppercase host \<Longrightarrow> to_ascii_lowercase host = host"
  by (induction host) (auto simp: to_ascii_lowercase_def ascii_lower_def)

lemma set_candidates:
  assumes "distinct (map fst (exact ix))"
  shows "set (candidate_indices ix host) = {unat i | i e. files ix e i \<and> entry_admits host e}"
proof -
  have host: "(if list_ex is_ascii_uppercase host then to_ascii_lowercase host else host) = to_ascii_lowercase host"
    using no_uppercase_lower by auto
  define c1 where "c1 = (if exact ix \<noteq> []
    then (case map_of (exact ix) (to_ascii_lowercase host) of Some is \<Rightarrow> map unat is | None \<Rightarrow> []) else [])"
  define c2 where "c2 = concat (map (\<lambda>(domain, is). if host_matches_suffix host domain then map unat is else [])
    (suffix_hosts ix))"
  have "set c1 = unat ` {i. bucket_has (exact ix) (to_ascii_lowercase host) i}"
  proof (cases "map_of (exact ix) (to_ascii_lowercase host)")
    case None
    then have "\<not> bucket_has (exact ix) (to_ascii_lowercase host) i" for i
      using bucket_has_map_of [OF assms, of "to_ascii_lowercase host" i] by auto
    moreover have "c1 = []" unfolding c1_def None by simp
    ultimately show ?thesis by simp
  next
    case (Some js)
    then have ne: "exact ix \<noteq> []" by auto
    have "bucket_has (exact ix) (to_ascii_lowercase host) i \<longleftrightarrow> i \<in> set js" for i
      using bucket_has_map_of [OF assms, of "to_ascii_lowercase host" i] Some by auto
    moreover have "c1 = map unat js" using ne unfolding c1_def Some by simp
    ultimately show ?thesis by simp
  qed
  moreover have "set c2 = unat ` {i. \<exists>d. bucket_has (suffix_hosts ix) d i \<and> host_matches_suffix host d}"
    unfolding c2_def bucket_has_def by fastforce
  moreover have "{i. \<exists>e. files ix e i \<and> entry_admits host e} =
      {i. bucket_has (exact ix) (to_ascii_lowercase host) i} \<union>
      {i. \<exists>d. bucket_has (suffix_hosts ix) d i \<and> host_matches_suffix host d} \<union>
      set (regex_hosts ix) \<union> set (any_host ix)"
  proof (intro set_eqI iffI)
    fix i assume "i \<in> {i. \<exists>e. files ix e i \<and> entry_admits host e}"
    then obtain e where "files ix e i" "entry_admits host e" by blast
    then show "i \<in> {i. bucket_has (exact ix) (to_ascii_lowercase host) i} \<union>
      {i. \<exists>d. bucket_has (suffix_hosts ix) d i \<and> host_matches_suffix host d} \<union>
      set (regex_hosts ix) \<union> set (any_host ix)"
      by (cases e) auto
  next
    fix i assume "i \<in> {i. bucket_has (exact ix) (to_ascii_lowercase host) i} \<union>
      {i. \<exists>d. bucket_has (suffix_hosts ix) d i \<and> host_matches_suffix host d} \<union>
      set (regex_hosts ix) \<union> set (any_host ix)"
    then show "i \<in> {i. \<exists>e. files ix e i \<and> entry_admits host e}"
      by (auto intro: exI [of _ "Exact _"] exI [of _ "Suffix _"] exI [of _ Regex] exI [of _ Any])
  qed
  moreover have "set (candidate_indices ix host) =
      set c1 \<union> set c2 \<union> unat ` set (regex_hosts ix) \<union> unat ` set (any_host ix)"
    unfolding candidate_indices_def host Let_def c1_def [symmetric] c2_def [symmetric] by auto
  moreover have "{unat i | i e. files ix e i \<and> entry_admits host e} = unat ` {i. \<exists>e. files ix e i \<and> entry_admits host e}"
    by auto
  ultimately show ?thesis by (simp only: image_Un)
qed

lemma sorted_distinct_adj: "sorted xs \<Longrightarrow> distinct (remdups_adj xs)" for xs :: "nat list"
  by (induction xs rule: remdups_adj.induct) (auto simp: order_le_less)

lemma candidates_sorted: "sorted (candidate_indices ix host)" "distinct (candidate_indices ix host)"
  by (simp_all add: candidate_indices_def Let_def sorted_remdups_adj sorted_distinct_adj)

lemma find_map_filter: "find_map f xs = find_map f (filter (\<lambda>x. f x \<noteq> None) xs)"
  by (induction xs) auto

lemma find_map_candidates:
  assumes "sorted xs" "distinct xs" "set xs \<subseteq> {..<n}" "\<And>i. i < n \<Longrightarrow> f i \<noteq> None \<Longrightarrow> i \<in> set xs"
  shows "find_map f xs = find_map f [0..<n]"
proof -
  have "filter (\<lambda>x. f x \<noteq> None) xs = filter (\<lambda>x. f x \<noteq> None) [0..<n]"
    using assms by (intro sorted_distinct_set_unique) (auto simp: sorted_wrt_filter)
  then show ?thesis using find_map_filter [of f xs] find_map_filter [of f "[0..<n]"] by simp
qed

lemma index_exact_distinct: "distinct (map fst (exact (index_build iter names resolve)))"
  by (simp add: index_build_def Let_def exact_distinct_locations)

text \<open>A location that matches a host has an entry that admits it.\<close>

lemma matching_entry:
  assumes "fst (match_host_path R L host path)" "\<forall>sel \<in> set (hosts L). selector_lowercased sel"
  shows "\<exists>e \<in> set (host_index_entries L). entry_admits host e"
proof (cases "hosts L = []")
  case False
  then obtain sel where sel: "sel \<in> set (hosts L)" "fst (host_is_match R sel host)"
    using assms(1) by (auto simp: match_host_path_iff)
  have "entry_admits host (host_index_entry sel)"
    by (cases sel) (use sel assms(2) in \<open>auto simp: host_index_entry_def host_is_match_def
        eq_ignore_ascii_case_def lowercased_def\<close>)
  with sel(1) False show ?thesis by (auto simp: host_index_entries_def)
qed (simp add: host_index_entries_def)

lemma candidates_of_build:
  assumes "\<forall>bs. set (iter bs) = set bs" "length names \<le> 65536"
  shows "set (candidate_indices (index_build iter names resolve) host) =
    {n. n < length names \<and> (\<exists>L. resolve (names ! n) = Some L \<and> (\<exists>e \<in> set (host_index_entries L). entry_admits host e))}"
proof -
  have u: "unat (word_of_nat n :: u16) = n" if "n < length names" for n
    using that assms(2) by (simp add: unat_of_nat)
  show ?thesis
    unfolding set_candidates [OF index_exact_distinct] index_build_files [OF assms(1)]
  proof (intro set_eqI iffI)
    fix m
    assume "m \<in> {unat (i :: u16) | i e. (\<exists>n L. n < length names \<and> resolve (names ! n) = Some L \<and>
        e \<in> set (host_index_entries L) \<and> i = word_of_nat n) \<and> entry_admits host e}"
    then show "m \<in> {n. n < length names \<and> (\<exists>L. resolve (names ! n) = Some L \<and>
        (\<exists>e \<in> set (host_index_entries L). entry_admits host e))}"
      by (auto simp: u)
  next
    fix m
    assume "m \<in> {n. n < length names \<and> (\<exists>L. resolve (names ! n) = Some L \<and>
        (\<exists>e \<in> set (host_index_entries L). entry_admits host e))}"
    then obtain L e where "m < length names" "resolve (names ! m) = Some L" "e \<in> set (host_index_entries L)"
        "entry_admits host e" by blast
    with u [of m] show "m \<in> {unat (i :: u16) | i e. (\<exists>n L. n < length names \<and> resolve (names ! n) = Some L \<and>
        e \<in> set (host_index_entries L) \<and> i = word_of_nat n) \<and> entry_admits host e}"
      by (intro CollectI exI [of _ "word_of_nat m"] exI [of _ e]) auto
  qed
qed

text \<open>
  C7: routing through the host index is routing by a linear scan.  For a server of at most 65536
  locations, each compiled from its configuration, the location the index-driven search picks,
  with its captures, is the one a scan of all locations in weight order picks, whatever order
  the hash map of suffixes is drained in.
\<close>

theorem route_is_linear_scan:
  assumes "\<forall>bs. set (iter bs) = set bs" "length names \<le> 65536"
    and "\<forall>n L. provider n = Some L \<longrightarrow> (\<exists>static conf. location_new H R N static n conf = Inr L)"
  shows "find_location S (route_build iter names provider) provider header client_ip host =
         find_map (try_location S names provider header client_ip host) [0..<length names]"
proof -
  let ?ix = "index_build iter names provider"
  let ?f = "try_location S names provider header client_ip host"
  have cand: "i \<in> set (candidate_indices ?ix host)" if i: "i < length names" "?f i \<noteq> None" for i
  proof -
    obtain L where L: "provider (names ! i) = Some L" "fst (match_host_path (lib_regex S) L host (uri_path (lib_http S) (uri header)))"
      using i by (auto simp: try_location_def split_beta split: option.splits if_splits)
    from matching_entry [OF L(2)] location_hosts_lowercased assms(3) L(1)
    have "\<exists>e \<in> set (host_index_entries L). entry_admits host e" by metis
    with L(1) i(1) show ?thesis unfolding candidates_of_build [OF assms(1,2)] by blast
  qed
  have "ordered ?ix = names"
    by (simp add: index_build_def Let_def ordered_fold)
  then show ?thesis
    unfolding find_location_def route_build_def Let_def
    using find_map_candidates [OF candidates_sorted, of ?ix host "length names" ?f] cand
      candidates_of_build [OF assms(1,2), of provider host]
    by auto
qed

definition demo_server ::
  "((string \<times> string) list, string option \<times> string \<times> string option, string, nat list) ServerLib" where
  "demo_server = \<lparr>lib_http = demo_http, lib_regex = demo_regex, lib_net = demo_nets,
     lib_proxies = set_trusted_proxies demo_nets None\<rparr>"

definition demo_provider :: "string \<Rightarrow> (string, nat list) Location option" where
  "demo_provider n =
     (case demo_location n (plain_conf\<lparr>conf_host := Some (n @ ''.Example.com''),
                              conf_match_ip_ranges := Some [''203.0.113.9''], conf_max_processing := Some 2\<rparr>) of
        Inl _ \<Rightarrow> None | Inr L \<Rightarrow> Some L)"

lemma demo_provider_location: "demo_provider n = Some L \<Longrightarrow> \<exists>conf. demo_location n conf = Inr L"
  by (auto simp: demo_provider_def split: sum.splits)

theorem route_is_linear_scan_witness:
  "find_location demo_server (route_build (\<lambda>bs. bs) [''api'', ''www''] demo_provider) demo_provider
     (req_header (demo_session (V4 [203, 0, 113, 9]) [])) (Some (V4 [203, 0, 113, 9])) ''WWW.example.com'' =
   find_map (try_location demo_server [''api'', ''www''] demo_provider
       (req_header (demo_session (V4 [203, 0, 113, 9]) [])) (Some (V4 [203, 0, 113, 9])) ''WWW.example.com'')
     [0..<length [''api'', ''www'']]"
proof (rule route_is_linear_scan)
  show "\<forall>n L. demo_provider n = Some L \<longrightarrow>
      (\<exists>static conf. location_new demo_http demo_regex demo_nets static n conf = Inr L)"
    using demo_provider_location unfolding demo_location_def by blast
qed simp_all

lemma find_location_Some:
  assumes "find_location S rt provider header client_ip host = Some (L, caps)"
  shows "\<exists>n. provider n = Some L \<and> match_conditions (lib_http S) (lib_net S) L header client_ip"
proof -
  obtain i where "try_location S (route_ordered rt) provider header client_ip host i = Some (L, caps)"
    using find_map_Some assms unfolding find_location_def by metis
  then show ?thesis by (auto simp: try_location_def split_beta split: option.splits if_splits)
qed

lemma routed_location:
  assumes "find_and_apply_location S route provider session ctx = (Routed nm a p, ctx', provider')"
  obtains rt host L caps where "route = Some rt"
    and "find_location S rt provider (req_header session)
           (ip_from_str (fst (ensure_client_ip (lib_http S) (lib_net S) (lib_proxies S) session (route_client_ip ctx)))) host
         = Some (L, caps)"
    and "nm = loc_name L"
  using assms
  by (auto simp: find_and_apply_location_def apply_location_def Let_def split_beta
      split: if_splits option.splits sum.splits prod.splits)

text \<open>
  C10: an address condition is judged on the connection.  A location restricted to networks serves
  a request from a peer that is no trusted proxy only if one of its networks holds that peer
  (in its IPv4 form when it is a mapped address), whatever the headers of the request claim.
\<close>

theorem ip_ranges_judged_on_peer:
  assumes "find_and_apply_location S route provider session ctx = (Routed nm a p, ctx', provider')"
    and "route_client_ip ctx = None" "peer_addr session = Some (peer, port)" "ip_wf peer"
    and "peer_ignored (lib_net S) (lib_proxies S) peer"
    and "\<forall>n L. provider n = Some L \<longrightarrow> loc_name L = n"
  shows "\<exists>L. provider nm = Some L \<and>
      (ip_conditions L = [] \<or> (\<exists>net \<in> set (ip_conditions L). net_has (lib_net S) net (normalize_client_ip peer)))"
proof -
  obtain rt host L caps where found: "find_location S rt provider (req_header session)
      (ip_from_str (fst (ensure_client_ip (lib_http S) (lib_net S) (lib_proxies S) session (route_client_ip ctx)))) host
      = Some (L, caps)" and nm: "nm = loc_name L"
    by (rule routed_location [OF assms(1)])
  have ip: "ip_from_str (fst (ensure_client_ip (lib_http S) (lib_net S) (lib_proxies S) session (route_client_ip ctx))) = Some peer"
    using assms(2-5) by (simp add: ensure_client_ip_def ignored_peer_address ip_roundtrip)
  obtain n where n: "provider n = Some L" "match_conditions (lib_http S) (lib_net S) L (req_header session) (Some peer)"
    using find_location_Some [OF found] unfolding ip by blast
  have "provider nm = Some L" using n(1) assms(6) nm by auto
  moreover have "ip_conditions L = [] \<or>
      (\<exists>net \<in> set (ip_conditions L). net_has (lib_net S) net (normalize_client_ip peer))"
    using n(2) by (auto simp: match_conditions_def list_ex_iff)
  ultimately show ?thesis by blast
qed

lemma location_new_name: "location_new H R N static nm conf = Inr L \<Longrightarrow> loc_name L = nm \<and> processing L = 0"
  by (auto simp: location_new_def sum_bind_def Let_def split: if_splits sum.splits)

definition demo_ctx :: RouteCtx where
  "demo_ctx = \<lparr>route_client_ip = None, ctx_location = [], ctx_instance = False, ctx_variables = None\<rparr>"

theorem ip_ranges_judged_on_peer_witness:
  "\<exists>L. demo_provider ''api'' = Some L \<and>
     (ip_conditions L = [] \<or> (\<exists>net \<in> set (ip_conditions L). net_has demo_nets net (V4 [203, 0, 113, 9])))"
proof -
  let ?session = "demo_session (V4 [203, 0, 113, 9]) [(''host'', ''API.example.com''), (''x-forwarded-for'', ''10.0.0.1'')]"
  let ?r = "find_and_apply_location demo_server (Some (route_build (\<lambda>bs. bs) [''api'', ''www''] demo_provider))
    demo_provider ?session demo_ctx"
  have r: "?r = (Routed ''api'' 1 1, fst (snd ?r), snd (snd ?r))"
  proof -
    have "fst ?r = Routed ''api'' 1 1" by code_simp
    then show ?thesis by (metis prod.collapse)
  qed
  have "peer_ignored (lib_net demo_server) (lib_proxies demo_server) (V4 [203, 0, 113, 9])" by code_simp
  moreover have "\<forall>n L. demo_provider n = Some L \<longrightarrow> loc_name L = n"
    using demo_provider_location location_new_name unfolding demo_location_def by blast
  ultimately show ?thesis
    using ip_ranges_judged_on_peer [OF r, of "V4 [203, 0, 113, 9]" 443]
    by (simp add: demo_ctx_def demo_session_def ip_wf_def demo_server_def normalize_client_ip_def)
qed

section \<open>Admission\<close>

text \<open>
  The requests a location has counted and not yet logged, each with whether it was admitted.
  Requests arrive and are logged in any order; \<^verbatim>\<open>fetch_add\<close> and \<^verbatim>\<open>fetch_sub\<close> are the atomic steps.
  There are never as many as an \<^verbatim>\<open>i32\<close> can count.
\<close>

inductive admission_step ::
  "('re, 'net) Location \<times> bool list \<Rightarrow> ('re, 'net) Location \<times> bool list \<Rightarrow> bool" where
  arrive: "length fs < 2 ^ 31 - 1 \<Longrightarrow> loc_on_request L = (r, L') \<Longrightarrow>
    admission_step (L, fs) (L', fs @ [\<not> isl r])"
| logged: "admission_step (L, fs @ f # gs) (loc_on_response L, fs @ gs)"

definition admission_inv :: "int \<Rightarrow> ('re, 'net) Location \<times> bool list \<Rightarrow> bool" where
  "admission_inv limit s \<longleftrightarrow>
     max_processing (fst s) = limit \<and> processing (fst s) = word_of_nat (length (snd s)) \<and>
     length (snd s) < 2 ^ 31 \<and>
     (limit \<noteq> 0 \<longrightarrow> int (length (filter id (snd s))) \<le> max 0 limit)"

lemma sint_small: "n < 2 ^ 31 \<Longrightarrow> sint (word_of_nat n :: 32 word) = int n"
  by (simp add: sint_uint signed_take_bit_int_eq_self uint_nat unat_of_nat)

lemma admission_inv_step:
  assumes "admission_step s t" "admission_inv limit s"
  shows "admission_inv limit t"
  using assms(1)
proof cases
  case (arrive fs L r L')
  have p: "processing L + 1 = word_of_nat (Suc (length fs))"
    using assms(2) arrive(1) by (simp add: admission_inv_def)
  have "sint (processing L + 1) = int (Suc (length fs))"
    unfolding p by (rule sint_small) (use arrive(3) in simp)
  then show ?thesis
    using arrive assms(2) p
    by (auto simp: admission_inv_def loc_on_request_def Let_def split: if_splits)
      (use length_filter_le [of id fs] in linarith)
next
  case (logged L fs f gs)
  have "int (length (filter id (fs @ gs))) \<le> int (length (filter id (fs @ f # gs)))" by simp
  moreover have "(word_of_nat (length (fs @ f # gs)) :: 32 word) - 1 = word_of_nat (length (fs @ gs))" by simp
  ultimately show ?thesis
    using logged assms(2) by (auto simp: admission_inv_def loc_on_response_def)
qed

text \<open>
  C14: the concurrency limit of a location holds.  Starting from a compiled location, in every
  interleaving of arrivals and completed requests its counter is the number of requests counted
  and not yet logged, and with a limit set the requests it admitted among them never exceed it;
  a negative limit admits none.
\<close>

theorem max_processing_respected:
  assumes "location_new H R N static nm conf = Inr L" "admission_step\<^sup>*\<^sup>* (L, []) (L', fs)"
  shows "processing L' = word_of_nat (length fs) \<and>
         (max_processing L \<noteq> 0 \<longrightarrow> int (length (filter id fs)) \<le> max 0 (max_processing L))"
proof -
  have "processing L = 0" using location_new_name [OF assms(1)] by blast
  then have "admission_inv (max_processing L) (L, [])" by (simp add: admission_inv_def)
  with assms(2) have "admission_inv (max_processing L) (L', fs)"
    by (induction rule: rtranclp_induct) (auto intro: admission_inv_step)
  then show ?thesis by (simp add: admission_inv_def)
qed

theorem max_processing_respected_witness:
  "\<exists>L L'. demo_provider ''api'' = Some L \<and> max_processing L = 2 \<and>
     admission_step\<^sup>*\<^sup>* (L, []) (L', [True, True, False]) \<and> processing L' = 3 \<and>
     int (length (filter id [True, True, False])) \<le> 2"
proof -
  have "case demo_provider ''api'' of None \<Rightarrow> False | Some L \<Rightarrow> max_processing L = 2 \<and> processing L = 0"
    by code_simp
  then obtain L where L: "demo_provider ''api'' = Some L" "max_processing L = 2" "processing L = 0"
    by (auto split: option.splits)
  define L1 where "L1 = snd (loc_on_request L)"
  define L2 where "L2 = snd (loc_on_request L1)"
  define L3 where "L3 = snd (loc_on_request L2)"
  note defs = L1_def L2_def L3_def loc_on_request_def Let_def L
  have "admission_step (L, []) (L1, [True])"
    using admission_step.arrive [of "[]" L _ L1] by (simp add: defs)
  moreover have "admission_step (L1, [True]) (L2, [True, True])"
    using admission_step.arrive [of "[True]" L1 _ L2] by (simp add: defs)
  moreover have "admission_step (L2, [True, True]) (L3, [True, True, False])"
    using admission_step.arrive [of "[True, True]" L2 _ L3] by (simp add: defs)
  ultimately have "admission_step\<^sup>*\<^sup>* (L, []) (L3, [True, True, False])" by simp
  moreover obtain conf where "demo_location ''api'' conf = Inr L" using demo_provider_location [OF L(1)] by blast
  ultimately show ?thesis
    using max_processing_respected [of demo_http demo_regex demo_nets "\<lambda>v. v" "''api''" conf L L3 "[True, True, False]"] L
    unfolding demo_location_def by (intro exI [of _ L] exI [of _ L3]) simp
qed

end
