(* ===== verification/Clearance.thy ===== *)
theory Clearance
  imports Rust_Text "HOL-Library.Countable"
begin

text \<open>
  \<^verbatim>\<open>src/pingwaf-challenge/src/cookie/mod.rs\<close>, \<^verbatim>\<open>fingerprint/mod.rs\<close> and \<^verbatim>\<open>js_challenge/verify.rs\<close>: the
  signed clearance cookie, the browser fingerprint and the checks on a submitted solution.  The
  hash, the signature, the encodings and the JSON library are crates outside the repository:
  \<open>CryptoLib\<close> holds what the code calls of them, and \<open>crypto_laws\<close> what it relies on.  Timestamps
  are the integers of \<^verbatim>\<open>i64\<close>; the clock reading and the random bytes of a call are arguments.
\<close>

section \<open>The crates the code calls\<close>

datatype ClearanceLevel = LevelNone | NonInteractive | Managed | Interactive

fun level_code :: "ClearanceLevel \<Rightarrow> nat" where
  "level_code LevelNone = 0"
| "level_code NonInteractive = 1"
| "level_code Managed = 2"
| "level_code Interactive = 3"

lemma level_code_inj [simp]: "level_code a = level_code b \<longleftrightarrow> a = b"
  by (cases a; cases b) simp_all

instantiation ClearanceLevel :: linorder
begin

definition less_eq_ClearanceLevel :: "ClearanceLevel \<Rightarrow> ClearanceLevel \<Rightarrow> bool" where
  "a \<le> b \<longleftrightarrow> level_code a \<le> level_code b"

definition less_ClearanceLevel :: "ClearanceLevel \<Rightarrow> ClearanceLevel \<Rightarrow> bool" where
  "a < b \<longleftrightarrow> level_code a < level_code b"

instance
  by standard (auto simp: less_eq_ClearanceLevel_def less_ClearanceLevel_def)

end

record ClearancePayload =
  session_id :: string
  clearance_level :: ClearanceLevel
  issued_at :: int
  expires_at :: int
  fingerprint_hash :: string
  payload_site_id :: string
  payload_nonce :: string

record BrowserFingerprint =
  user_agent :: string
  screen_width :: u32
  screen_height :: u32
  timezone_offset :: u32
  language :: string
  platform :: string
  canvas_hash :: string
  webgl_vendor :: string
  webgl_renderer :: string
  plugins_count :: u32
  touch_support :: bool
  hardware_concurrency :: u32
  device_memory :: "u32 option"

text \<open>
  The \<^verbatim>\<open>i32\<close> time zone offset and the \<^verbatim>\<open>f32\<close> device memory of a fingerprint are their bit patterns.
  \<open>sha256\<close> takes the bytes fed to the hasher and \<open>hmac\<close> the key and the message; \<open>lower\<close> is
  \<^verbatim>\<open>str::to_lowercase\<close>, whose Unicode tables are not modelled.
\<close>

record CryptoLib =
  sha256 :: "string \<Rightarrow> string"
  hmac :: "string \<Rightarrow> string \<Rightarrow> string"
  b64_encode :: "string \<Rightarrow> string"
  b64_decode :: "string \<Rightarrow> string option"
  hex_encode :: "string \<Rightarrow> string"
  json_of_payload :: "ClearancePayload \<Rightarrow> string"
  payload_of_json :: "string \<Rightarrow> ClearancePayload option"
  fingerprint_of_json :: "string \<Rightarrow> string + BrowserFingerprint"
  lower :: "string \<Rightarrow> string"

text \<open>What the JSON library carries: text is UTF-8 and the timestamps are \<^verbatim>\<open>i64\<close>.\<close>

definition payload_ok :: "ClearancePayload \<Rightarrow> bool" where
  "payload_ok p \<longleftrightarrow> valid_utf8 (session_id p) \<and> valid_utf8 (fingerprint_hash p) \<and>
     valid_utf8 (payload_site_id p) \<and> valid_utf8 (payload_nonce p) \<and>
     i64_range (issued_at p) \<and> i64_range (expires_at p)"

text \<open>
  URL-safe base64 without padding decodes what it encodes and its alphabet has no dot; the JSON
  of a payload parses back to it; hexadecimal text is ASCII
  without dots and is empty for no bytes only; a signature is not empty.
\<close>

definition crypto_laws :: "CryptoLib \<Rightarrow> bool" where
  "crypto_laws C \<longleftrightarrow>
     (\<forall>x. b64_decode C (b64_encode C x) = Some x) \<and> (\<forall>x. CHR ''.'' \<notin> set (b64_encode C x)) \<and>
     (\<forall>p. payload_ok p \<longrightarrow> payload_of_json C (json_of_payload C p) = Some p) \<and>
     (\<forall>x. \<forall>c \<in> set (hex_encode C x). is_ascii c \<and> c \<noteq> CHR ''.'') \<and> (\<forall>x. hex_encode C x = [] \<longleftrightarrow> x = []) \<and>
     (\<forall>k m. hmac C k m \<noteq> [])"

text \<open>The \<^verbatim>\<open>i64\<close> operations of the release build wrap.\<close>

definition i64_add :: "int \<Rightarrow> int \<Rightarrow> int" where
  "i64_add a b = sint (word_of_int (a + b) :: 64 word)"

definition i64_sub :: "int \<Rightarrow> int \<Rightarrow> int" where
  "i64_sub a b = sint (word_of_int (a - b) :: 64 word)"

section \<open>Fingerprints\<close>

text \<open>\<^verbatim>\<open>u32::to_le_bytes\<close>.\<close>

definition to_le_bytes :: "u32 \<Rightarrow> string" where
  "to_le_bytes w = map (\<lambda>i. char_of (unat w div 256 ^ i mod 256)) [0, 1, 2, 3]"

definition fingerprint_digest :: "CryptoLib \<Rightarrow> BrowserFingerprint \<Rightarrow> string" where
  "fingerprint_digest C fp =
     hex_encode C (take 16 (sha256 C
       (user_agent fp @ to_le_bytes (screen_width fp) @ to_le_bytes (screen_height fp)
        @ to_le_bytes (timezone_offset fp) @ language fp @ platform fp @ canvas_hash fp
        @ to_le_bytes (hardware_concurrency fp))))"

section \<open>Clearance cookies\<close>

definition CLEARANCE_COOKIE_NAME :: string where "CLEARANCE_COOKIE_NAME = ''__pingwaf_clearance''"

datatype CookieError = InvalidFormat | SignatureMismatch | Expired | InvalidPayload

record CookieManager =
  secret :: string
  default_duration_secs :: int
  cookie_name :: string

definition manager_new :: "string \<Rightarrow> int \<Rightarrow> CookieManager" where
  "manager_new sec duration =
     \<lparr>secret = sec, default_duration_secs = duration, cookie_name = CLEARANCE_COOKIE_NAME\<rparr>"

definition manager_with_name :: "string \<Rightarrow> int \<Rightarrow> string \<Rightarrow> CookieManager" where
  "manager_with_name sec duration nm =
     \<lparr>secret = sec, default_duration_secs = duration, cookie_name = nm\<rparr>"

definition encode_payload :: "CryptoLib \<Rightarrow> CookieManager \<Rightarrow> ClearancePayload \<Rightarrow> string" where
  "encode_payload C mgr payload =
     (let payload_b64 = b64_encode C (json_of_payload C payload);
          signature = hmac C (secret mgr) payload_b64
      in payload_b64 @ ''.'' @ b64_encode C signature)"

text \<open>\<open>sid\<close> and \<open>nonce\<close> are the two random strings of the call.\<close>

definition issue_clearance_with_payload ::
  "CryptoLib \<Rightarrow> CookieManager \<Rightarrow> int \<Rightarrow> string \<Rightarrow> string \<Rightarrow> ClearanceLevel \<Rightarrow> string \<Rightarrow> string
    \<Rightarrow> string \<times> ClearancePayload" where
  "issue_clearance_with_payload C mgr now sid nonce lvl site fp_hash =
     (let payload = \<lparr>session_id = sid, clearance_level = lvl, issued_at = now,
                     expires_at = i64_add now (default_duration_secs mgr), fingerprint_hash = fp_hash,
                     payload_site_id = site, payload_nonce = nonce\<rparr>
      in (encode_payload C mgr payload, payload))"

definition issue_clearance ::
  "CryptoLib \<Rightarrow> CookieManager \<Rightarrow> int \<Rightarrow> string \<Rightarrow> string \<Rightarrow> ClearanceLevel \<Rightarrow> string \<Rightarrow> string \<Rightarrow> string" where
  "issue_clearance C mgr now sid nonce lvl site fp_hash =
     (let payload = \<lparr>session_id = sid, clearance_level = lvl, issued_at = now,
                     expires_at = i64_add now (default_duration_secs mgr), fingerprint_hash = fp_hash,
                     payload_site_id = site, payload_nonce = nonce\<rparr>
      in encode_payload C mgr payload)"

definition clearance_valid :: "int \<Rightarrow> ClearancePayload \<Rightarrow> bool" where
  "clearance_valid now payload \<longleftrightarrow> now < expires_at payload"

definition validate_clearance ::
  "CryptoLib \<Rightarrow> CookieManager \<Rightarrow> int \<Rightarrow> string \<Rightarrow> CookieError + ClearancePayload" where
  "validate_clearance C mgr now cookie_value =
     (case split_once_char CHR ''.'' cookie_value of
        None \<Rightarrow> Inl InvalidFormat
      | Some (payload_b64, signature_b64) \<Rightarrow>
          (case b64_decode C signature_b64 of
             None \<Rightarrow> Inl InvalidFormat
           | Some signature \<Rightarrow>
               if hmac C (secret mgr) payload_b64 \<noteq> signature then Inl SignatureMismatch
               else case b64_decode C payload_b64 of
                      None \<Rightarrow> Inl InvalidFormat
                    | Some payload_json \<Rightarrow>
                        (case payload_of_json C payload_json of
                           None \<Rightarrow> Inl InvalidPayload
                         | Some payload \<Rightarrow>
                             if \<not> clearance_valid now payload then Inl Expired else Inr payload)))"

definition level_sufficient :: "ClearancePayload \<Rightarrow> ClearanceLevel \<Rightarrow> bool" where
  "level_sufficient payload required \<longleftrightarrow> required \<le> clearance_level payload"

definition set_cookie_name :: "string \<Rightarrow> CookieManager \<Rightarrow> CookieManager" where
  "set_cookie_name nm mgr = mgr\<lparr>cookie_name := nm\<rparr>"

definition cookie_attributes :: "int \<Rightarrow> ClearancePayload \<Rightarrow> bool \<Rightarrow> string" where
  "cookie_attributes now payload secure =
     (let max_age = i64_sub (expires_at payload) now;
          max_age' = (if max_age < 0 then 0 else max_age);
          secure_attr = (if secure then '' Secure;'' else [])
      in ''Path=/; HttpOnly;'' @ secure_attr @ '' SameSite=Lax; Max-Age='' @ show_int max_age')"

section \<open>Checks on a submission\<close>

datatype IntegrityResult = Passed | Suspicious string | Failed string

definition BOT_UA_PATTERNS :: "string list" where
  "BOT_UA_PATTERNS = [''bot'', ''crawler'', ''spider'', ''slurp'', ''curl'', ''wget'', ''python-requests'', ''httpie'',
     ''scrapy'', ''headlesschrome'', ''phantomjs'', ''selenium'', ''puppeteer'', ''playwright'', ''googlebot'',
     ''bingbot'', ''yandex'', ''baiduspider'', ''facebookexternalhit'', ''twitterbot'', ''linkedinbot'',
     ''whatsapp'', ''telegrambot'', ''discordbot'', ''slackbot'', ''apache-httpclient'', ''java/'', ''okhttp'',
     ''go-http-client'', ''node-fetch'', ''axios'', ''libwww'', ''lwp-trivial'', ''mechanize'', ''httpclient'',
     ''restsharp'', ''postmanruntime'']"

definition GOOD_BOT_PATTERNS :: "string list" where
  "GOOD_BOT_PATTERNS = [''googlebot'', ''bingbot'', ''yandex'', ''baiduspider'', ''duckduckbot'', ''applebot'']"

definition automation_indicators :: "string list" where
  "automation_indicators = [''headlesschrome'', ''phantomjs'', ''selenium'', ''puppeteer'', ''playwright'', ''webdriver'']"

definition non_browser :: "string list" where
  "non_browser = [''curl'', ''wget'', ''python-requests'', ''httpie'', ''scrapy'', ''go-http-client'', ''node-fetch'',
     ''java/'', ''libwww'', ''postmanruntime'', ''restsharp'']"

text \<open>The first \<open>bits\<close> bits of the hash are zero; shifts of a byte keep eight bits.\<close>

definition has_leading_zero_bits :: "u8 list \<Rightarrow> nat \<Rightarrow> bool" where
  "has_leading_zero_bits hash bits =
     (let full_bytes = bits div 8; remaining_bits = bits mod 8 in
      if list_ex (\<lambda>b. b \<noteq> 0) (take full_bytes hash) then False
      else if remaining_bits > 0
      then (if length hash \<le> full_bytes then False
            else and (hash ! full_bytes) (push_bit (8 - remaining_bits) 0xFF) = 0)
      else True)"

definition bytes_of :: "string \<Rightarrow> u8 list" where
  "bytes_of s = map (\<lambda>c. word_of_nat (byte c)) s"

definition verify_proof_of_work :: "CryptoLib \<Rightarrow> string \<Rightarrow> string \<Rightarrow> u32 \<Rightarrow> bool" where
  "verify_proof_of_work C challenge_nonce solution difficulty =
     has_leading_zero_bits (bytes_of (sha256 C (challenge_nonce @ solution))) (unat difficulty)"

definition verify_timestamp :: "int \<Rightarrow> int \<Rightarrow> int \<Rightarrow> bool" where
  "verify_timestamp now submitted_at max_age_secs =
     (let age = i64_sub now submitted_at in - 5 \<le> age \<and> age \<le> max_age_secs)"

definition check_browser_integrity :: "CryptoLib \<Rightarrow> BrowserFingerprint \<Rightarrow> string \<Rightarrow> IntegrityResult" where
  "check_browser_integrity C fingerprint ua =
     (let ua_lower = lower C ua in
      case find (contains_str ua_lower) automation_indicators of
        Some indicator \<Rightarrow> Failed (''automation tool detected: '' @ indicator)
      | None \<Rightarrow>
          (case find (contains_str ua_lower) non_browser of
             Some pattern \<Rightarrow> Failed (''non-browser user agent: '' @ pattern)
           | None \<Rightarrow>
               if user_agent fingerprint = [] then Failed ''empty user agent in fingerprint''
               else if screen_width fingerprint = 0 \<or> screen_height fingerprint = 0
               then Suspicious ''zero screen dimensions''
               else if hardware_concurrency fingerprint = 0 then Suspicious ''zero hardware concurrency''
               else if canvas_hash fingerprint = [] then Suspicious ''empty canvas hash''
               else case find (contains_str ua_lower) BOT_UA_PATTERNS of
                      None \<Rightarrow> Passed
                    | Some pattern \<Rightarrow>
                        if list_ex (contains_str ua_lower) GOOD_BOT_PATTERNS then Passed
                        else Suspicious (''bot user agent pattern: '' @ pattern)))"

definition is_known_good_bot :: "CryptoLib \<Rightarrow> string \<Rightarrow> bool" where
  "is_known_good_bot C ua = list_ex (contains_str (lower C ua)) GOOD_BOT_PATTERNS"

definition is_known_bot :: "CryptoLib \<Rightarrow> string \<Rightarrow> bool" where
  "is_known_bot C ua = list_ex (contains_str (lower C ua)) BOT_UA_PATTERNS"

section \<open>Lemmas\<close>

lemma i64_add_exact: "i64_range (a + b) \<Longrightarrow> i64_add a b = a + b"
  unfolding i64_add_def int_word_sint by (simp add: i64_range_def)

lemma i64_sub_exact: "i64_range (a - b) \<Longrightarrow> i64_sub a b = a - b"
  unfolding i64_sub_def int_word_sint by (simp add: i64_range_def)

lemma validate_encoded:
  assumes "crypto_laws C" "payload_ok p" "secret mgr' = secret mgr"
  shows "validate_clearance C mgr' now (encode_payload C mgr p) =
    (if clearance_valid now p then Inr p else Inl Expired)"
  using assms by (simp add: validate_clearance_def encode_payload_def Let_def split_once_char_append crypto_laws_def)

lemma valid_utf8_digest: "crypto_laws C \<Longrightarrow> valid_utf8 (fingerprint_digest C fp)"
proof -
  have "\<forall>c \<in> set s. is_ascii c \<Longrightarrow> valid_utf8 s" for s by (induction s) simp_all
  then show "crypto_laws C \<Longrightarrow> ?thesis" by (simp add: crypto_laws_def fingerprint_digest_def)
qed

text \<open>An accepted value is a payload followed by its signature under the manager's secret.\<close>

lemma validate_clearanceE:
  assumes "validate_clearance C mgr now v = Inr p"
  obtains b s where "v = b @ ''.'' @ s" "b64_decode C s = Some (hmac C (secret mgr) b)" "now < expires_at p"
proof -
  obtain b s where bs: "split_once_char CHR ''.'' v = Some (b, s)"
    using assms by (auto simp: validate_clearance_def split: option.splits)
  then have "b64_decode C s = Some (hmac C (secret mgr) b) \<and> now < expires_at p"
    using assms by (auto simp: validate_clearance_def clearance_valid_def split: option.splits if_splits)
  with split_once_char_Some [OF bs] that [of b s] show thesis by simp
qed

text \<open>
  C22: a clearance cookie does what it says.  A cookie a manager issues validates under any manager
  with the same secret to exactly the level, site and fingerprint it was issued for, until its
  duration has passed, and is refused as expired from then on.  Conversely a value validates
  only if it carries the signature of its payload under the secret.
\<close>

theorem clearance_roundtrip:
  assumes "crypto_laws C" "secret mgr' = secret mgr" "i64_range t" "i64_range (t + default_duration_secs mgr)"
    and "valid_utf8 sid" "valid_utf8 nonce" "valid_utf8 site" "valid_utf8 fp"
  shows "(now < t + default_duration_secs mgr \<longrightarrow>
            validate_clearance C mgr' now (issue_clearance C mgr t sid nonce lvl site fp) =
              Inr \<lparr>session_id = sid, clearance_level = lvl, issued_at = t, expires_at = t + default_duration_secs mgr,
                   fingerprint_hash = fp, payload_site_id = site, payload_nonce = nonce\<rparr>) \<and>
         (t + default_duration_secs mgr \<le> now \<longrightarrow>
            validate_clearance C mgr' now (issue_clearance C mgr t sid nonce lvl site fp) = Inl Expired) \<and>
         (\<forall>v p. validate_clearance C mgr' now v = Inr p \<longrightarrow>
            (\<exists>b s. v = b @ ''.'' @ s \<and> b64_decode C s = Some (hmac C (secret mgr) b) \<and> now < expires_at p))"
proof -
  have "\<exists>b s. v = b @ ''.'' @ s \<and> b64_decode C s = Some (hmac C (secret mgr) b) \<and> now < expires_at p"
    if "validate_clearance C mgr' now v = Inr p" for v p
    using that by (rule validate_clearanceE) (use assms(2) in auto)
  then show ?thesis
    using assms
    by (simp add: issue_clearance_def Let_def i64_add_exact validate_encoded [OF assms(1) _ assms(2)]
        payload_ok_def clearance_valid_def)
qed

text \<open>The hash read as a big-endian number.\<close>

fun hash_value :: "u8 list \<Rightarrow> nat" where
  "hash_value [] = 0"
| "hash_value (b # bs) = unat b * 256 ^ length bs + hash_value bs"

lemma byte_bound: "unat (b :: u8) < 256"
  using unsigned_less [of b, where 'a = nat] by simp

lemma hash_value_less: "hash_value bs < 256 ^ length bs"
proof (induction bs)
  case (Cons b bs)
  have "unat b \<le> 255" using byte_bound [of b] by simp
  then have "unat b * 256 ^ length bs \<le> 255 * 256 ^ length bs" by (rule mult_right_mono) simp
  moreover have "(256 :: nat) ^ length (b # bs) = 255 * 256 ^ length bs + 256 ^ length bs" by simp
  ultimately show ?case using Cons unfolding hash_value.simps by linarith
qed simp

lemma hash_value_less_iff:
  assumes "m \<le> 8"
  shows "hash_value (b # bs) < 2 ^ (m + 8 * length bs) \<longleftrightarrow> unat b < 2 ^ m"
proof -
  have pow: "(2 :: nat) ^ (m + 8 * length bs) = 2 ^ m * 256 ^ length bs"
    by (simp add: power_add power_mult)
  show ?thesis
  proof
    assume "hash_value (b # bs) < 2 ^ (m + 8 * length bs)"
    then have "unat b * 256 ^ length bs < 2 ^ m * 256 ^ length bs"
      unfolding pow hash_value.simps by (rule add_lessD1)
    then show "unat b < 2 ^ m" by simp
  next
    assume "unat b < 2 ^ m"
    then have "Suc (unat b) * 256 ^ length bs \<le> 2 ^ m * 256 ^ length bs" by (intro mult_right_mono) simp_all
    with hash_value_less [of bs] show "hash_value (b # bs) < 2 ^ (m + 8 * length bs)"
      unfolding pow by simp
  qed
qed

lemma byte_high_bits_zero:
  fixes b :: u8
  assumes "m \<le> 8"
  shows "and b (push_bit m 0xFF) = 0 \<longleftrightarrow> unat b < 2 ^ m"
proof -
  have ff: "(0xFF :: u8) = mask 8" by (simp add: mask_eq_exp_minus_1)
  have "push_bit m (mask 8 :: u8) = not (mask m)"
  proof (rule bit_word_eqI)
    fix n
    assume "n < LENGTH(8)"
    then show "bit (push_bit m (mask 8 :: u8)) n = bit (not (mask m) :: u8) n"
      by (simp only: bit_push_bit_iff bit_not_iff bit_mask_iff) auto
  qed
  moreover have "and b (not (mask m)) = 0 \<longleftrightarrow> take_bit m b = b"
    by (simp only: bit_eq_iff bit_and_iff bit_not_iff bit_mask_iff bit_take_bit_iff bit_0_eq) auto
  moreover have "take_bit m b = b \<longleftrightarrow> unat b < 2 ^ m"
    by (metis take_bit_nat_eq_self_iff unsigned_take_bit_eq word_unat_eq_iff)
  ultimately show ?thesis unfolding ff by simp
qed

lemma leading_zero_bits_Cons:
  "8 \<le> bits \<Longrightarrow> has_leading_zero_bits (b # bs) bits \<longleftrightarrow> b = 0 \<and> has_leading_zero_bits bs (bits - 8)"
  by (auto simp: has_leading_zero_bits_def Let_def le_div_geq le_mod_geq)

text \<open>
  C23: the proof-of-work test is the numeric one.  For every difficulty up to the width of the
  hash, the byte and bit mask test accepts exactly the hashes that, read as a big-endian number,
  lie below two to the number of remaining bits: each further bit of difficulty halves the
  accepted hashes.
\<close>

theorem proof_of_work_numeric:
  assumes "bits \<le> 8 * length hash"
  shows "has_leading_zero_bits hash bits \<longleftrightarrow> hash_value hash < 2 ^ (8 * length hash - bits)"
  using assms
proof (induction hash arbitrary: bits)
  case Nil
  then show ?case by (simp add: has_leading_zero_bits_def)
next
  case (Cons b bs)
  show ?case
  proof (cases "8 \<le> bits")
    case True
    have "hash_value (b # bs) < 2 ^ (8 * length (b # bs) - bits) \<longleftrightarrow>
        b = 0 \<and> hash_value bs < 2 ^ (8 * length bs - (bits - 8))"
    proof (cases "b = 0")
      case False
      then have "0 < unat b" by (simp add: unat_gt_0)
      have "(2 :: nat) ^ (8 * length (b # bs) - bits) \<le> 2 ^ (0 + 8 * length bs)"
        using True by (intro power_increasing) simp_all
      moreover have "\<not> hash_value (b # bs) < 2 ^ (0 + 8 * length bs)"
        using hash_value_less_iff [of 0 b bs] \<open>0 < unat b\<close> by simp
      ultimately show ?thesis using False by (meson order_less_le_trans)
    qed (use True in \<open>simp add: algebra_simps\<close>)
    with Cons.IH [of "bits - 8"] Cons.prems True show ?thesis by (simp add: leading_zero_bits_Cons)
  next
    case False
    then have "has_leading_zero_bits (b # bs) bits \<longleftrightarrow> unat b < 2 ^ (8 - bits)"
      using byte_high_bits_zero [of "8 - bits" b] byte_bound [of b]
      by (auto simp: has_leading_zero_bits_def Let_def)
    moreover have "8 * length (b # bs) - bits = (8 - bits) + 8 * length bs" using False by simp
    ultimately show ?thesis using hash_value_less_iff [of "8 - bits" b bs] by simp
  qed
qed

theorem proof_of_work_numeric_witness:
  "(12 :: nat) \<le> 8 * length ([0, 0x0A, 7] :: u8 list) \<and>
   has_leading_zero_bits [0, 0x0A, 7] 12 \<and> hash_value [0, 0x0A, 7] < 2 ^ 12 \<and>
   \<not> has_leading_zero_bits [0, 0x1A, 7] 12"
  using proof_of_work_numeric [of 12 "[0, 0x0A, 7]"] proof_of_work_numeric [of 12 "[0, 0x1A, 7]"]
  by simp

text \<open>
  A concrete library for the witnesses: an escape of the dot for base64, decimal digits for
  hexadecimal text, a numeral for the JSON of a payload, one fingerprint, and sums of bytes for
  the hash and the signature.
\<close>

fun esc_dot :: "string \<Rightarrow> string" where
  "esc_dot [] = []"
| "esc_dot (c # cs) =
     (if c = CHR ''.'' then ''-1'' else if c = CHR ''-'' then ''-0'' else [c]) @ esc_dot cs"

fun unesc_dot :: "string \<Rightarrow> string option" where
  "unesc_dot [] = Some []"
| "unesc_dot [c] = (if c = CHR ''-'' then None else Some [c])"
| "unesc_dot (c # d # cs) =
     (if c = CHR ''-'' then
        (if d = CHR ''1'' then map_option ((#) CHR ''.'') (unesc_dot cs)
         else if d = CHR ''0'' then map_option ((#) CHR ''-'') (unesc_dot cs) else None)
      else map_option ((#) c) (unesc_dot (d # cs)))"

definition demo_json :: "ClearancePayload \<Rightarrow> string" where
  "demo_json p = show_nat (to_nat (session_id p, level_code (clearance_level p), issued_at p, expires_at p,
     fingerprint_hash p, payload_site_id p, payload_nonce p))"

definition demo_parse :: "string \<Rightarrow> ClearancePayload option" where
  "demo_parse s = map_option (\<lambda>n. case from_nat n of (sid, l, i, e, f, site, nonce) \<Rightarrow>
     \<lparr>session_id = sid, clearance_level = [LevelNone, NonInteractive, Managed, Interactive] ! l, issued_at = i,
      expires_at = e, fingerprint_hash = f, payload_site_id = site, payload_nonce = nonce\<rparr>)
     (digits_value 10 s 0)"

definition demo_hex :: "string \<Rightarrow> string" where
  "demo_hex s = concat (map (\<lambda>c. show_nat (byte c)) s)"

definition demo_fingerprint :: BrowserFingerprint where
  "demo_fingerprint = \<lparr>user_agent = ''Mozilla/5.0'', screen_width = 1920, screen_height = 1080,
     timezone_offset = 0, language = ''en'', platform = ''Linux'', canvas_hash = ''c0'', webgl_vendor = [],
     webgl_renderer = [], plugins_count = 3, touch_support = False, hardware_concurrency = 8,
     device_memory = None\<rparr>"

definition demo_crypto :: CryptoLib where
  "demo_crypto = \<lparr>sha256 = (\<lambda>s. [char_of (sum_list (map byte s) mod 256)]),
     hmac = (\<lambda>k m. show_nat (sum_list (map byte (k @ m)))),
     b64_encode = esc_dot, b64_decode = unesc_dot, hex_encode = demo_hex,
     json_of_payload = demo_json, payload_of_json = demo_parse,
     fingerprint_of_json = (\<lambda>_. Inr demo_fingerprint), lower = to_ascii_lowercase\<rparr>"

lemma unesc_dot_Cons: "c \<noteq> CHR ''-'' \<Longrightarrow> unesc_dot (c # cs) = map_option ((#) c) (unesc_dot cs)"
  by (cases cs) simp_all

lemma unesc_esc_dot: "unesc_dot (esc_dot s) = Some s"
  by (induction s) (simp_all add: unesc_dot_Cons)

lemma esc_dot_no_dot: "CHR ''.'' \<notin> set (esc_dot s)"
  by (induction s) auto

lemma demo_hex_text: "c \<in> set (demo_hex s) \<Longrightarrow> is_ascii c \<and> c \<noteq> CHR ''.''" "demo_hex s = [] \<longleftrightarrow> s = []"
  by (auto simp: demo_hex_def is_ascii_def is_ascii_digit_def dest!: show_nat_digits)

lemma demo_json_roundtrip: "demo_parse (demo_json p) = Some p"
  by (cases p; cases "clearance_level p") (simp_all add: demo_parse_def demo_json_def digits_value_show_nat)

lemma demo_crypto_laws: "crypto_laws demo_crypto"
  by (simp add: crypto_laws_def demo_crypto_def unesc_esc_dot esc_dot_no_dot demo_hex_text demo_json_roundtrip)

theorem clearance_roundtrip_witness:
  "crypto_laws demo_crypto \<and>
   validate_clearance demo_crypto (manager_with_name ''k'' 1800 ''c'') 1799
     (issue_clearance demo_crypto (manager_new ''k'' 1800) 0 ''aa'' ''bb'' Managed ''shop'' ''cc'') =
     Inr \<lparr>session_id = ''aa'', clearance_level = Managed, issued_at = 0, expires_at = 1800,
          fingerprint_hash = ''cc'', payload_site_id = ''shop'', payload_nonce = ''bb''\<rparr> \<and>
   validate_clearance demo_crypto (manager_with_name ''k'' 1800 ''c'') 1800
     (issue_clearance demo_crypto (manager_new ''k'' 1800) 0 ''aa'' ''bb'' Managed ''shop'' ''cc'') = Inl Expired"
  using clearance_roundtrip [of demo_crypto "manager_with_name ''k'' 1800 ''c''" "manager_new ''k'' 1800" 0
      "''aa''" "''bb''" "''shop''" "''cc''" 1799 Managed]
    clearance_roundtrip [of demo_crypto "manager_with_name ''k'' 1800 ''c''" "manager_new ''k'' 1800" 0
      "''aa''" "''bb''" "''shop''" "''cc''" 1800 Managed]
  by (simp add: demo_crypto_laws manager_new_def manager_with_name_def i64_range_def is_ascii_def)

end
