(* ===== verification/Challenge.thy ===== *)
theory Challenge
  imports Clearance
begin

text \<open>
  \<^verbatim>\<open>src/pingwaf-challenge/src/js_challenge/mod.rs\<close> and \<^verbatim>\<open>lib.rs\<close>: the engine that decides whether a
  request is challenged, verifies a submitted solution and issues the clearance cookie, and the
  signed single-use nonces it rests on.  A call's readings of the wall clock (seconds) and of the
  monotonic clock (nanoseconds) and its random bytes are arguments; the process-wide table of
  used nonces is explicit state.
\<close>

section \<open>Levels\<close>

datatype ChallengeLevel = ChNone | ChNonInteractive | ChManaged | ChInteractive

fun level_from_clearance :: "ClearanceLevel \<Rightarrow> ChallengeLevel" where
  "level_from_clearance LevelNone = ChNone"
| "level_from_clearance NonInteractive = ChNonInteractive"
| "level_from_clearance Managed = ChManaged"
| "level_from_clearance Interactive = ChInteractive"

fun clearance_from_level :: "ChallengeLevel \<Rightarrow> ClearanceLevel" where
  "clearance_from_level ChNone = LevelNone"
| "clearance_from_level ChNonInteractive = NonInteractive"
| "clearance_from_level ChManaged = Managed"
| "clearance_from_level ChInteractive = Interactive"

definition requires_challenge :: "ChallengeLevel \<Rightarrow> bool" where
  "requires_challenge l \<longleftrightarrow> l \<noteq> ChNone"

fun challenge_level_as_str :: "ChallengeLevel \<Rightarrow> string" where
  "challenge_level_as_str ChNone = ''none''"
| "challenge_level_as_str ChNonInteractive = ''non_interactive''"
| "challenge_level_as_str ChManaged = ''managed''"
| "challenge_level_as_str ChInteractive = ''interactive''"

definition level_from_str :: "CryptoLib \<Rightarrow> string \<Rightarrow> ChallengeLevel" where
  "level_from_str C s =
     (let l = lower C s in
      if l \<in> {''non_interactive'', ''noninteractive'', ''js'', ''js_challenge''} then ChNonInteractive
      else if l = ''managed'' then ChManaged
      else if l \<in> {''interactive'', ''captcha''} then ChInteractive
      else ChNone)"

section \<open>Configuration, requests and results\<close>

record ChallengeConfig =
  ch_enabled :: bool
  under_attack_mode :: bool
  default_level :: ClearanceLevel
  clearance_duration_secs :: int
  exempt_paths :: "string list"
  exempt_user_agents :: "string list"
  rate_threshold :: u32
  browser_integrity_check :: bool
  tls_fingerprint_check :: bool
  cookie_secret :: string
  clearance_cookie :: string
  pow_difficulty :: u32
  submission_max_age_secs :: int

definition challenge_config_default :: ChallengeConfig where
  "challenge_config_default =
     \<lparr>ch_enabled = True, under_attack_mode = False, default_level = NonInteractive,
      clearance_duration_secs = 1800, exempt_paths = [''/health'', ''/ping''], exempt_user_agents = [],
      rate_threshold = 100, browser_integrity_check = True, tls_fingerprint_check = False,
      cookie_secret = ''change-me'', clearance_cookie = ''__pingwaf_clearance'', pow_difficulty = 20,
      submission_max_age_secs = 300\<rparr>"

record ChallengeEngine =
  ch_config :: ChallengeConfig
  cookie_manager :: CookieManager

definition challenge_engine_new :: "ChallengeConfig \<Rightarrow> ChallengeEngine" where
  "challenge_engine_new cfg =
     \<lparr>ch_config = cfg,
      cookie_manager = manager_with_name (cookie_secret cfg) (clearance_duration_secs cfg) (clearance_cookie cfg)\<rparr>"

definition update_config :: "ChallengeEngine \<Rightarrow> ChallengeConfig \<Rightarrow> ChallengeEngine" where
  "update_config e cfg =
     e\<lparr>cookie_manager := manager_with_name (cookie_secret cfg) (clearance_duration_secs cfg) (clearance_cookie cfg),
       ch_config := cfg\<rparr>"

record ChallengeRequest =
  cr_path :: string
  cr_method :: string
  cr_client_ip :: string
  cr_user_agent :: string
  cr_cookies :: "(string \<times> string) list"
  cr_has_js_support :: "bool option"
  cr_request_rate :: u32
  cr_site_id :: string

datatype ChallengeDecision = PassThrough | JsChallenge | ManagedChallenge | InteractiveChallenge | BlockRequest

record ChallengeSubmission =
  cs_request_id :: string
  cs_challenge_nonce :: string
  cs_solution :: string
  cs_fingerprint_json :: string
  cs_timestamp :: int
  cs_site_id :: string

datatype VerifyResult = VerifySuccess string string | VerifyFailed string

section \<open>Whether to challenge\<close>

definition is_exempt_path :: "ChallengeEngine \<Rightarrow> string \<Rightarrow> bool" where
  "is_exempt_path e path =
     list_ex (\<lambda>exempt. if exempt \<noteq> [] \<and> last exempt = CHR ''*'' then prefix (butlast exempt) path
                       else path = exempt) (exempt_paths (ch_config e))"

definition is_exempt_user_agent :: "CryptoLib \<Rightarrow> ChallengeEngine \<Rightarrow> string \<Rightarrow> bool" where
  "is_exempt_user_agent C e ua =
     (if exempt_user_agents (ch_config e) = [] then False
      else let ua_lower = lower C ua in
           list_ex (\<lambda>exempt. contains_str ua_lower (lower C exempt)) (exempt_user_agents (ch_config e)))"

definition extract_clearance :: "ChallengeEngine \<Rightarrow> ChallengeRequest \<Rightarrow> string option" where
  "extract_clearance e req =
     map_option snd (find (\<lambda>(name, _). name = cookie_name (cookie_manager e)) (cr_cookies req))"

definition cookie_bound_to_site :: "ClearancePayload \<Rightarrow> ChallengeRequest \<Rightarrow> bool" where
  "cookie_bound_to_site payload req \<longleftrightarrow> cr_site_id req = [] \<or> payload_site_id payload = cr_site_id req"

definition clearance_level_sufficient :: "ChallengeEngine \<Rightarrow> ClearancePayload \<Rightarrow> bool" where
  "clearance_level_sufficient e payload = level_sufficient payload (default_level (ch_config e))"

text \<open>The products are \<^verbatim>\<open>u32\<close> and wrap.\<close>

definition decide_challenge_level :: "ChallengeEngine \<Rightarrow> ChallengeRequest \<Rightarrow> ChallengeDecision" where
  "decide_challenge_level e req =
     (if rate_threshold (ch_config e) * 3 < cr_request_rate req then InteractiveChallenge
      else if rate_threshold (ch_config e) * 2 < cr_request_rate req then ManagedChallenge
      else JsChallenge)"

definition without_clearance :: "ChallengeEngine \<Rightarrow> ChallengeRequest \<Rightarrow> ChallengeDecision" where
  "without_clearance e req =
     (if under_attack_mode (ch_config e) then JsChallenge
      else if rate_threshold (ch_config e) < cr_request_rate req then decide_challenge_level e req
      else PassThrough)"

definition should_challenge ::
  "CryptoLib \<Rightarrow> int \<Rightarrow> ChallengeEngine \<Rightarrow> ChallengeRequest \<Rightarrow> ChallengeDecision" where
  "should_challenge C now e req =
     (if \<not> ch_enabled (ch_config e) then PassThrough
      else if is_exempt_path e (cr_path req) then PassThrough
      else if is_exempt_user_agent C e (cr_user_agent req) then PassThrough
      else case extract_clearance e req of
             None \<Rightarrow> without_clearance e req
           | Some clearance \<Rightarrow>
               (case validate_clearance C (cookie_manager e) now clearance of
                  Inr payload \<Rightarrow>
                    if \<not> cookie_bound_to_site payload req then decide_challenge_level e req
                    else if level_sufficient payload (default_level (ch_config e)) then PassThrough
                    else decide_challenge_level e req
                | Inl _ \<Rightarrow> without_clearance e req))"

section \<open>Nonces\<close>

definition MAX_USED_NONCES :: nat where "MAX_USED_NONCES = 100000"

type_synonym used_nonces = "(string \<times> nat) list"

definition nonce_signature :: "CryptoLib \<Rightarrow> string \<Rightarrow> string \<Rightarrow> string" where
  "nonce_signature C sec body = hex_encode C (hmac C sec body)"

definition issue_nonce :: "CryptoLib \<Rightarrow> string \<Rightarrow> string \<Rightarrow> int \<Rightarrow> string" where
  "issue_nonce C sec random_bytes now =
     (let body = hex_encode C random_bytes @ ''.'' @ show_int now
      in body @ ''.'' @ nonce_signature C sec body)"

text \<open>\<^verbatim>\<open>rsplitn(3, '.')\<close>, when it yields three parts: the last, the middle and the first.\<close>

definition rsplit_once_char :: "char \<Rightarrow> string \<Rightarrow> (string \<times> string) option" where
  "rsplit_once_char c s = map_option (\<lambda>(a, b). (rev b, rev a)) (split_once_char c (rev s))"

definition rsplit3 :: "string \<Rightarrow> (string \<times> string \<times> string) option" where
  "rsplit3 s =
     (case rsplit_once_char CHR ''.'' s of
        None \<Rightarrow> None
      | Some (rest, signature) \<Rightarrow>
          (case rsplit_once_char CHR ''.'' rest of
             None \<Rightarrow> None
           | Some (random, issued) \<Rightarrow> Some (random, issued, signature)))"

text \<open>\<^verbatim>\<open>i64::saturating_sub\<close>.\<close>

definition i64_saturating_sub :: "int \<Rightarrow> int \<Rightarrow> int" where
  "i64_saturating_sub a b = max (- (2 ^ 63)) (min (2 ^ 63 - 1) (a - b))"

definition bytes_differ :: "string \<Rightarrow> string \<Rightarrow> u8" where
  "bytes_differ expected signature =
     fold (\<lambda>(l, r) diff. or diff (xor l r)) (zip (bytes_of expected) (bytes_of signature)) 0"

definition verify_nonce :: "CryptoLib \<Rightarrow> int \<Rightarrow> string \<Rightarrow> string \<Rightarrow> int \<Rightarrow> bool" where
  "verify_nonce C now sec nonce max_age_secs =
     (case rsplit3 nonce of
        None \<Rightarrow> False
      | Some (random, issued, signature) \<Rightarrow>
          if random = [] \<or> signature = [] then False
          else case i64_from_str issued of
                 None \<Rightarrow> False
               | Some i \<Rightarrow>
                   if i64_add now 30 < i \<or> max_age_secs < i64_saturating_sub now i then False
                   else let expected = nonce_signature C sec (random @ ''.'' @ show_int i) in
                        if length expected \<noteq> length signature then False
                        else bytes_differ expected signature = 0)"

text \<open>The table is a hash map, here an association list with distinct keys; \<^verbatim>\<open>duration_since\<close> is zero
  for an instant in the future.\<close>

definition consume_nonce :: "used_nonces \<Rightarrow> nat \<Rightarrow> string \<Rightarrow> nat \<Rightarrow> bool \<times> used_nonces" where
  "consume_nonce used now nonce ttl =
     (let used = filter (\<lambda>(_, seen). now - seen < ttl) used in
      if MAX_USED_NONCES \<le> length used \<or> nonce \<in> set (map fst used) then (False, used)
      else (True, (nonce, now) # used))"

section \<open>Verifying a submission\<close>

definition nonce_ttl :: "ChallengeEngine \<Rightarrow> nat" where
  "nonce_ttl e = nat (max 1 (submission_max_age_secs (ch_config e))) * 10 ^ 9"

definition verify_solution_inner ::
  "CryptoLib \<Rightarrow> int \<Rightarrow> nat \<Rightarrow> string \<Rightarrow> string \<Rightarrow> ChallengeEngine \<Rightarrow> ChallengeSubmission \<Rightarrow> bool \<Rightarrow> bool
    \<Rightarrow> used_nonces \<Rightarrow> VerifyResult \<times> used_nonces" where
  "verify_solution_inner C now inst sid cookie_nonce e sub secure require_signed_nonce used =
     (let cfg = ch_config e in
      if \<not> verify_timestamp now (cs_timestamp sub) (submission_max_age_secs cfg)
      then (VerifyFailed ''submission expired or timestamp invalid'', used)
      else if require_signed_nonce \<and>
              \<not> verify_nonce C now (cookie_secret cfg) (cs_challenge_nonce sub) (submission_max_age_secs cfg)
      then (VerifyFailed ''challenge nonce is invalid or expired'', used)
      else if \<not> verify_proof_of_work C (cs_challenge_nonce sub) (cs_solution sub) (pow_difficulty cfg)
      then (VerifyFailed ''proof-of-work verification failed'', used)
      else case fingerprint_of_json C (cs_fingerprint_json sub) of
             Inl err \<Rightarrow> (VerifyFailed (''invalid fingerprint data: '' @ err), used)
           | Inr fingerprint \<Rightarrow>
               (case (if browser_integrity_check cfg
                      then check_browser_integrity C fingerprint (user_agent fingerprint) else Passed) of
                  Failed reason \<Rightarrow> (VerifyFailed (''browser integrity check failed: '' @ reason), used)
                | _ \<Rightarrow>
                    (case consume_nonce used inst (cs_challenge_nonce sub) (nonce_ttl e) of
                       (False, used') \<Rightarrow> (VerifyFailed ''challenge nonce was already used'', used')
                     | (True, used') \<Rightarrow>
                         (case issue_clearance_with_payload C (cookie_manager e) now sid cookie_nonce
                                 (default_level cfg) (cs_site_id sub) (fingerprint_digest C fingerprint) of
                            (value, payload) \<Rightarrow>
                              (VerifySuccess value (cookie_attributes now payload secure), used')))))"

definition verify_solution ::
  "CryptoLib \<Rightarrow> int \<Rightarrow> nat \<Rightarrow> string \<Rightarrow> string \<Rightarrow> ChallengeEngine \<Rightarrow> ChallengeSubmission \<Rightarrow> bool
    \<Rightarrow> used_nonces \<Rightarrow> VerifyResult \<times> used_nonces" where
  "verify_solution C now inst sid cookie_nonce e sub secure used =
     verify_solution_inner C now inst sid cookie_nonce e sub secure True used"

definition verify_solution_for_pending ::
  "CryptoLib \<Rightarrow> int \<Rightarrow> nat \<Rightarrow> string \<Rightarrow> string \<Rightarrow> ChallengeEngine \<Rightarrow> ChallengeSubmission \<Rightarrow> bool
    \<Rightarrow> used_nonces \<Rightarrow> VerifyResult \<times> used_nonces" where
  "verify_solution_for_pending C now inst sid cookie_nonce e sub secure used =
     verify_solution_inner C now inst sid cookie_nonce e sub secure False used"

definition engine_validate_clearance ::
  "CryptoLib \<Rightarrow> int \<Rightarrow> ChallengeEngine \<Rightarrow> string \<Rightarrow> ClearancePayload option" where
  "engine_validate_clearance C now e cookie_value =
     (case validate_clearance C (cookie_manager e) now cookie_value of Inr p \<Rightarrow> Some p | Inl _ \<Rightarrow> None)"

section \<open>Lemmas\<close>

lemma should_challenge_cookie:
  assumes "ch_enabled (ch_config e)" "\<not> is_exempt_path e (cr_path req)"
    "\<not> is_exempt_user_agent C e (cr_user_agent req)"
    "extract_clearance e req = Some v" "validate_clearance C (cookie_manager e) now v = Inr p"
  shows "should_challenge C now e req =
    (if cookie_bound_to_site p req \<and> level_sufficient p (default_level (ch_config e)) then PassThrough
     else decide_challenge_level e req)"
  using assms by (simp add: should_challenge_def)

lemma decide_challenges [simp]: "decide_challenge_level e req \<noteq> PassThrough"
  by (simp add: decide_challenge_level_def)

lemma verify_successE:
  assumes "verify_solution_inner C now inst sid cn e sub secure req_signed used = (VerifySuccess val attrs, used')"
  obtains fp where
    "fingerprint_of_json C (cs_fingerprint_json sub) = Inr fp"
    "val = issue_clearance C (cookie_manager e) now sid cn (default_level (ch_config e)) (cs_site_id sub)
       (fingerprint_digest C fp)"
    "verify_timestamp now (cs_timestamp sub) (submission_max_age_secs (ch_config e))"
    "verify_proof_of_work C (cs_challenge_nonce sub) (cs_solution sub) (pow_difficulty (ch_config e))"
    "req_signed \<Longrightarrow> verify_nonce C now (cookie_secret (ch_config e)) (cs_challenge_nonce sub)
       (submission_max_age_secs (ch_config e))"
    "consume_nonce used inst (cs_challenge_nonce sub) (nonce_ttl e) = (True, used')"
proof -
  obtain fp where fp: "fingerprint_of_json C (cs_fingerprint_json sub) = Inr fp"
    using assms by (cases "fingerprint_of_json C (cs_fingerprint_json sub)")
      (auto simp: verify_solution_inner_def Let_def split: if_splits)
  obtain ok u where cn: "consume_nonce used inst (cs_challenge_nonce sub) (nonce_ttl e) = (ok, u)"
    by (cases "consume_nonce used inst (cs_challenge_nonce sub) (nonce_ttl e)") auto
  show thesis
    by (rule that [OF fp])
      (use assms fp cn in \<open>auto simp: verify_solution_inner_def Let_def issue_clearance_def
         issue_clearance_with_payload_def split: if_splits bool.splits IntegrityResult.splits\<close>)
qed

text \<open>
  C8: the cookie a solved challenge earns opens its own site and no other.  When the engine
  accepts a submission, the cookie value it returns, presented in a later request, is passed on
  requests of the same site (or of a caller that names no site) until the clearance expires,
  whatever the request rate and even under attack; on any other site the same cookie is answered
  by a challenge.
\<close>

theorem solved_challenge_clears_its_site:
  assumes "crypto_laws C" "e = challenge_engine_new cfg"
    and "verify_solution_inner C t inst sid cn e sub secure req_signed used = (VerifySuccess val attrs, used')"
    and "i64_range t" "i64_range (t + clearance_duration_secs cfg)" "now < t + clearance_duration_secs cfg"
    and "valid_utf8 sid" "valid_utf8 cn" "valid_utf8 (cs_site_id sub)"
    and "extract_clearance e req = Some val"
    and "ch_enabled cfg" "\<not> is_exempt_path e (cr_path req)" "\<not> is_exempt_user_agent C e (cr_user_agent req)"
  shows "should_challenge C now e req = PassThrough \<longleftrightarrow> cr_site_id req \<in> {[], cs_site_id sub}"
proof -
  obtain fp where v: "val = issue_clearance C (cookie_manager e) t sid cn (default_level (ch_config e))
      (cs_site_id sub) (fingerprint_digest C fp)"
    using assms(3) by (rule verify_successE)
  let ?p = "\<lparr>session_id = sid, clearance_level = default_level cfg, issued_at = t,
      expires_at = t + clearance_duration_secs cfg, fingerprint_hash = fingerprint_digest C fp,
      payload_site_id = cs_site_id sub, payload_nonce = cn\<rparr>"
  have "payload_ok ?p" using assms by (simp add: payload_ok_def valid_utf8_digest)
  then have "validate_clearance C (cookie_manager e) now val = Inr ?p"
    using assms(1,2,5,6) by (simp add: v issue_clearance_def Let_def challenge_engine_new_def
        manager_with_name_def i64_add_exact validate_encoded clearance_valid_def)
  with should_challenge_cookie [of e req C val now ?p] assms show ?thesis
    by (auto simp: challenge_engine_new_def cookie_bound_to_site_def level_sufficient_def)
qed

text \<open>
  C12: in under-attack mode a request that is not exempt passes exactly when it carries, under the
  configured cookie name, an unexpired clearance of its site at the required level, and the val
  then carries the signature of its payload under the engine's secret.
\<close>

theorem under_attack_passes_only_cleared:
  assumes "e = challenge_engine_new cfg" "ch_enabled cfg" "under_attack_mode cfg"
    and "\<not> is_exempt_path e (cr_path req)" "\<not> is_exempt_user_agent C e (cr_user_agent req)"
  shows "should_challenge C now e req = PassThrough \<longleftrightarrow>
    (\<exists>b s p. extract_clearance e req = Some (b @ ''.'' @ s) \<and>
       b64_decode C s = Some (hmac C (cookie_secret cfg) b) \<and>
       validate_clearance C (cookie_manager e) now (b @ ''.'' @ s) = Inr p \<and> now < expires_at p \<and>
       (cr_site_id req = [] \<or> payload_site_id p = cr_site_id req) \<and> default_level cfg \<le> clearance_level p)"
    (is "?L \<longleftrightarrow> ?R")
proof
  assume ?L
  with assms obtain v p where vp: "extract_clearance e req = Some v"
      "validate_clearance C (cookie_manager e) now v = Inr p"
    by (auto simp: should_challenge_def challenge_engine_new_def without_clearance_def
        split: option.splits sum.splits)
  with \<open>?L\<close> assms have "cookie_bound_to_site p req" "level_sufficient p (default_level cfg)"
    by (auto simp: should_challenge_def challenge_engine_new_def split: if_splits)
  moreover obtain b s where "v = b @ ''.'' @ s" "b64_decode C s = Some (hmac C (cookie_secret cfg) b)"
      "now < expires_at p"
    using vp(2) by (rule validate_clearanceE) (simp add: assms(1) challenge_engine_new_def manager_with_name_def)
  ultimately show ?R using vp by (auto simp: cookie_bound_to_site_def level_sufficient_def)
next
  assume ?R
  then show ?L using assms
    by (auto simp: should_challenge_def challenge_engine_new_def cookie_bound_to_site_def level_sufficient_def)
qed

text \<open>
  C39: a clearance for somewhere else is not treated as no cookie at all.  On an engine that is not
  under attack, a request below the rate threshold passes without a cookie; the same request
  carrying a valid clearance of another site is challenged.
\<close>

theorem foreign_clearance_worse_than_none:
  assumes "ch_enabled (ch_config e)" "\<not> under_attack_mode (ch_config e)"
    and "\<not> is_exempt_path e (cr_path req)" "\<not> is_exempt_user_agent C e (cr_user_agent req)"
    and "cr_request_rate req \<le> rate_threshold (ch_config e)"
    and "validate_clearance C (cookie_manager e) now v = Inr p"
    and "cr_site_id req \<noteq> []" "payload_site_id p \<noteq> cr_site_id req"
  shows "should_challenge C now e (req\<lparr>cr_cookies := []\<rparr>) = PassThrough \<and>
    should_challenge C now e (req\<lparr>cr_cookies := [(cookie_name (cookie_manager e), v)]\<rparr>) \<noteq> PassThrough"
  using assms
  by (simp add: should_challenge_def extract_clearance_def without_clearance_def cookie_bound_to_site_def)

section \<open>The nonce table\<close>

text \<open>A sequence of calls (instant, nonce, retention) on one table, and their results.\<close>

fun consume_run :: "used_nonces \<Rightarrow> (nat \<times> string \<times> nat) list \<Rightarrow> bool list" where
  "consume_run used [] = []"
| "consume_run used ((now, nonce, ttl) # calls) =
     (case consume_nonce used now nonce ttl of (ok, used') \<Rightarrow> ok # consume_run used' calls)"

lemma consume_success:
  "consume_nonce used now nonce ttl = (True, used') \<Longrightarrow>
     (nonce, now) \<in> set used' \<and> (\<forall>seen. (nonce, seen) \<in> set used \<longrightarrow> ttl \<le> now - seen)"
  by (auto simp: consume_nonce_def Let_def split: if_splits) (force simp: not_less)

lemma consume_keeps:
  "consume_nonce used now m ttl = (ok, used') \<Longrightarrow> (n, seen) \<in> set used \<Longrightarrow> now - seen < ttl \<Longrightarrow>
     (n, seen) \<in> set used'"
  by (auto simp: consume_nonce_def Let_def split: if_splits)

lemma consume_run_remembers:
  assumes "(n, t0) \<in> set used" "j < length calls" "consume_run used calls ! j" "calls ! j = (tj, n, d)"
    and "sorted (map fst calls)" "\<forall>(t, m, ttl) \<in> set calls. t0 \<le> t \<and> T \<le> ttl"
  shows "T \<le> tj - t0"
  using assms
proof (induction calls arbitrary: used j)
  case (Cons call calls)
  obtain t m ttl where call: "call = (t, m, ttl)" by (cases call)
  obtain ok used' where c: "consume_nonce used t m ttl = (ok, used')"
    by (cases "consume_nonce used t m ttl")
  show ?case
  proof (cases j)
    case 0
    with Cons.prems call c have "consume_nonce used tj n d = (True, used')" "T \<le> d" by auto
    with consume_success [OF this(1)] Cons.prems(1) show ?thesis by fastforce
  next
    case (Suc i)
    then have i: "i < length calls" "calls ! i = (tj, n, d)" using Cons.prems by simp_all
    show ?thesis
    proof (cases "t - t0 < ttl")
      case True
      with consume_keeps [OF c Cons.prems(1)] Cons.IH [of used' i] Cons.prems Suc i call c show ?thesis
        by simp
    next
      case False
      have "(tj, n, d) \<in> set calls" using i by (metis nth_mem)
      then have "t \<le> tj" using Cons.prems(5) call by force
      moreover have "T \<le> ttl" using Cons.prems(6) call by auto
      ultimately show ?thesis using False by linarith
    qed
  qed
qed simp

text \<open>
  C11: a nonce is single-use.  In any sequence of submissions at nondecreasing instants whose
  retention times are all at least \<open>T\<close>, two successful uses of one nonce are at least \<open>T\<close> apart,
  however many other nonces are used, refused or forgotten in between and whatever the table held.
  The sequence is that in which the submissions hold the lock of the table; each reads its
  instant just before it takes the lock, so the instants are in that order when no submission
  overtakes another in between.
\<close>

theorem nonce_single_use:
  assumes "sorted (map fst calls)" "\<forall>(t, n, ttl) \<in> set calls. T \<le> ttl"
    and "i < j" "j < length calls" "calls ! i = (ti, n, d)" "calls ! j = (tj, n, d')"
    and "consume_run used calls ! i" "consume_run used calls ! j"
  shows "ti + T \<le> tj"
  using assms
proof (induction calls arbitrary: used i j)
  case (Cons call calls)
  obtain t m ttl where call: "call = (t, m, ttl)" by (cases call)
  obtain ok used' where c: "consume_nonce used t m ttl = (ok, used')"
    by (cases "consume_nonce used t m ttl")
  obtain j' where j: "j = Suc j'" using Cons.prems(3) by (cases j) auto
  show ?case
  proof (cases i)
    case 0
    then have "consume_nonce used ti n d = (True, used')" using Cons.prems(5,7) call c by auto
    then have "(n, ti) \<in> set used'" by (blast dest: consume_success)
    moreover have "\<forall>(t, m, ttl) \<in> set calls. ti \<le> t \<and> T \<le> ttl"
      using Cons.prems(1,2,5) 0 by force
    moreover have "ti \<le> tj" using Cons.prems(1,4,5,6) 0 j by (force dest: nth_mem)
    ultimately show ?thesis
      using consume_run_remembers [of n ti used' j' calls tj d' T] Cons.prems j call c 0 by auto
  next
    case (Suc i')
    with Cons.IH [of i' j' used'] Cons.prems j call c show ?thesis by simp
  qed
qed simp

text \<open>
  C40: the retention of a nonce is not the issuing engine's alone.  The table is shared by all
  engines and every call purges it with its own retention time: once any engine with a
  shorter retention has processed another nonce, a nonce spent under a longer one is accepted
  again, at any later instant.
\<close>

theorem shorter_retention_reopens_nonce:
  assumes "consume_nonce used t0 n ttl = (True, u1)" "consume_nonce u1 t1 m ttl' = (ok, u2)"
    and "m \<noteq> n" "ttl' \<le> t1 - t0" "length u2 < MAX_USED_NONCES"
  shows "fst (consume_nonce u2 t2 n ttl)"
proof -
  have "n \<notin> fst ` set u2"
    using assms(1-4) by (auto simp: consume_nonce_def Let_def split: if_splits)
  moreover have "length (filter P u2) < MAX_USED_NONCES" for P
    using assms(5) length_filter_le [of P u2] by linarith
  ultimately show ?thesis
    by (auto simp: consume_nonce_def Let_def not_le)
qed

section \<open>Signed nonces\<close>

lemma rsplit_once_append: "c \<notin> set b \<Longrightarrow> rsplit_once_char c (a @ c # b) = Some (a, b)"
  by (simp add: rsplit_once_char_def split_once_char_append)

lemma rsplit3_append:
  "CHR ''.'' \<notin> set w \<Longrightarrow> CHR ''.'' \<notin> set sig \<Longrightarrow> rsplit3 (r @ ''.'' @ w @ ''.'' @ sig) = Some (r, w, sig)"
  using rsplit_once_append [of "CHR ''.''" sig "r @ ''.'' @ w"]
  by (simp add: rsplit3_def rsplit_once_append)

lemma bytes_differ_self: "bytes_differ s s = 0"
proof -
  have "fold (\<lambda>(l, r) diff. or diff (xor l r)) (zip bs bs) (0 :: u8) = 0" for bs
    by (induction bs) simp_all
  then show ?thesis by (simp add: bytes_differ_def)
qed

text \<open>
  C25: an issued nonce is accepted during its window, under every spelling of its timestamp.  The
  nonce issued at time \<open>t\<close>, with the timestamp replaced by any text that parses to \<open>t\<close> (the issued
  decimal, but also one with a plus sign or leading zeros), verifies exactly from thirty seconds
  before its issue until the maximum age has passed.
\<close>

theorem issued_nonce_window:
  assumes "crypto_laws C" "bytes \<noteq> []" "i64_from_str w = Some t" "CHR ''.'' \<notin> set w"
    and "issue_nonce C sec bytes t = hex_encode C bytes @ ''.'' @ show_int t @ ''.'' @ sig"
    and "i64_range (now + 30)" "i64_range (now - t)"
  shows "verify_nonce C now sec (hex_encode C bytes @ ''.'' @ w @ ''.'' @ sig) max_age \<longleftrightarrow>
    t \<le> now + 30 \<and> now - t \<le> max_age"
proof -
  have sig: "sig = nonce_signature C sec (hex_encode C bytes @ ''.'' @ show_int t)"
    using assms(5) by (simp add: issue_nonce_def Let_def)
  have "CHR ''.'' \<notin> set sig" "sig \<noteq> []" "hex_encode C bytes \<noteq> []"
    using assms(1,2) by (auto simp: crypto_laws_def sig nonce_signature_def)
  moreover have "i64_saturating_sub now t = now - t"
    using assms(7) by (simp add: i64_saturating_sub_def i64_range_def)
  moreover have "nonce_signature C sec (hex_encode C bytes @ CHR ''.'' # show_int t) = sig"
    by (simp add: sig)
  ultimately show ?thesis
    using assms(3,4,6) rsplit3_append [of w sig "hex_encode C bytes"]
    by (auto simp: verify_nonce_def Let_def i64_add_exact bytes_differ_self)
qed

section \<open>Witnesses\<close>

definition demo_challenge :: "bool \<Rightarrow> ChallengeConfig" where
  "demo_challenge attack = challenge_config_default\<lparr>under_attack_mode := attack, exempt_paths := [],
     browser_integrity_check := False, pow_difficulty := 4\<rparr>"

definition demo_submission :: ChallengeSubmission where
  "demo_submission = \<lparr>cs_request_id = ''r'', cs_challenge_nonce = ''n'', cs_solution = ''a@'',
     cs_fingerprint_json = ''{}'', cs_timestamp = 0, cs_site_id = ''shop''\<rparr>"

definition demo_cookie :: string where
  "demo_cookie = issue_clearance demo_crypto (manager_with_name ''change-me'' 1800 ''__pingwaf_clearance'')
     0 ''aa'' ''bb'' NonInteractive ''shop'' (fingerprint_digest demo_crypto demo_fingerprint)"

definition demo_visit :: "string \<Rightarrow> ChallengeRequest" where
  "demo_visit site = \<lparr>cr_path = ''/'', cr_method = ''GET'', cr_client_ip = ''203.0.113.9'',
     cr_user_agent = ''Mozilla/5.0'', cr_cookies = [(''__pingwaf_clearance'', demo_cookie)],
     cr_has_js_support = None, cr_request_rate = 1, cr_site_id = site\<rparr>"

lemmas demo_challenge_defs = demo_challenge_def challenge_config_default_def challenge_engine_new_def
  manager_with_name_def

lemma demo_pow: "verify_proof_of_work demo_crypto ''n'' ''a@'' 4"
  by (simp add: verify_proof_of_work_def demo_crypto_def bytes_of_def has_leading_zero_bits_def Let_def)

lemma demo_timestamp: "verify_timestamp 0 0 300"
  by (simp add: verify_timestamp_def i64_sub_def)

lemma demo_solved:
  "\<exists>attrs used. verify_solution_inner demo_crypto 0 0 ''aa'' ''bb''
     (challenge_engine_new (demo_challenge attack)) demo_submission True False [] =
     (VerifySuccess demo_cookie attrs, used)"
proof -
  have "fingerprint_of_json demo_crypto s = Inr demo_fingerprint" for s by (simp add: demo_crypto_def)
  then show ?thesis
    by (simp add: verify_solution_inner_def demo_submission_def demo_challenge_defs demo_pow demo_timestamp
        consume_nonce_def MAX_USED_NONCES_def issue_clearance_with_payload_def demo_cookie_def
        issue_clearance_def Let_def)
qed

lemma demo_visit_facts:
  "ch_enabled (demo_challenge attack)" "under_attack_mode (demo_challenge attack) = attack"
  "\<not> is_exempt_path (challenge_engine_new (demo_challenge attack)) p"
  "\<not> is_exempt_user_agent C (challenge_engine_new (demo_challenge attack)) ua"
  "extract_clearance (challenge_engine_new (demo_challenge attack)) (demo_visit site) = Some demo_cookie"
  "default_level (demo_challenge attack) = NonInteractive" "cr_site_id (demo_visit site) = site"
  by (simp_all add: demo_challenge_defs is_exempt_path_def is_exempt_user_agent_def extract_clearance_def
      demo_visit_def)

lemma demo_validates:
  "validate_clearance demo_crypto (cookie_manager (challenge_engine_new (demo_challenge attack))) 60 demo_cookie =
     Inr \<lparr>session_id = ''aa'', clearance_level = NonInteractive, issued_at = 0, expires_at = 1800,
       fingerprint_hash = fingerprint_digest demo_crypto demo_fingerprint, payload_site_id = ''shop'',
       payload_nonce = ''bb''\<rparr>"
  by (simp add: demo_cookie_def issue_clearance_def Let_def i64_add_def demo_challenge_defs
      validate_encoded demo_crypto_laws payload_ok_def valid_utf8_digest i64_range_def is_ascii_def
      clearance_valid_def)

theorem solved_challenge_clears_its_site_witness:
  "should_challenge demo_crypto 60 (challenge_engine_new (demo_challenge True)) (demo_visit ''shop'') = PassThrough \<and>
   should_challenge demo_crypto 60 (challenge_engine_new (demo_challenge True)) (demo_visit ''blog'') \<noteq> PassThrough"
proof -
  obtain attrs used where ok: "verify_solution_inner demo_crypto 0 0 ''aa'' ''bb''
      (challenge_engine_new (demo_challenge True)) demo_submission True False [] =
      (VerifySuccess demo_cookie attrs, used)"
    using demo_solved by blast
  have "should_challenge demo_crypto 60 (challenge_engine_new (demo_challenge True)) (demo_visit site) = PassThrough \<longleftrightarrow>
      cr_site_id (demo_visit site) \<in> {[], cs_site_id demo_submission}" for site
    by (rule solved_challenge_clears_its_site [OF demo_crypto_laws refl ok])
      (simp_all add: demo_visit_facts, simp_all add: demo_challenge_defs demo_submission_def i64_range_def is_ascii_def)
  then show ?thesis by (simp add: demo_visit_def demo_submission_def)
qed

theorem under_attack_passes_only_cleared_witness:
  "should_challenge demo_crypto 60 (challenge_engine_new (demo_challenge True)) (demo_visit ''shop'') = PassThrough \<and>
   should_challenge demo_crypto 60 (challenge_engine_new (demo_challenge True))
     (demo_visit ''shop''\<lparr>cr_cookies := []\<rparr>) \<noteq> PassThrough"
proof -
  obtain b s where bs: "demo_cookie = b @ ''.'' @ s"
      "b64_decode demo_crypto s = Some (hmac demo_crypto (cookie_secret (demo_challenge True)) b)"
    using demo_validates [of True] by (rule validate_clearanceE) (simp add: demo_challenge_defs)
  have "should_challenge demo_crypto 60 (challenge_engine_new (demo_challenge True)) (demo_visit ''shop'') = PassThrough"
    by (subst under_attack_passes_only_cleared [OF refl])
      (use bs demo_validates [of True] in
        \<open>simp_all add: demo_visit_facts, intro exI [of _ b] exI [of _ s], simp\<close>)
  moreover have "should_challenge demo_crypto 60 (challenge_engine_new (demo_challenge True))
      (demo_visit ''shop''\<lparr>cr_cookies := []\<rparr>) \<noteq> PassThrough"
    by (subst under_attack_passes_only_cleared [OF refl]) (simp_all add: demo_visit_facts extract_clearance_def)
  ultimately show ?thesis by simp
qed

theorem foreign_clearance_worse_than_none_witness:
  "should_challenge demo_crypto 60 (challenge_engine_new (demo_challenge False))
     (demo_visit ''blog''\<lparr>cr_cookies := []\<rparr>) = PassThrough \<and>
   should_challenge demo_crypto 60 (challenge_engine_new (demo_challenge False))
     (demo_visit ''blog''\<lparr>cr_cookies := [(cookie_name (cookie_manager (challenge_engine_new (demo_challenge False))),
       demo_cookie)]\<rparr>) \<noteq> PassThrough"
  by (rule foreign_clearance_worse_than_none [OF _ _ _ _ _ demo_validates])
    (simp_all add: demo_visit_facts, simp_all add: demo_visit_def demo_challenge_defs is_exempt_path_def is_exempt_user_agent_def)

theorem nonce_single_use_witness:
  "consume_run [] [(0, ''n'', 300), (10, ''n'', 300), (20, ''m'', 300), (300, ''n'', 300)] = [True, False, True, True] \<and>
   (0 :: nat) + 300 \<le> 300"
proof -
  have run: "consume_run [] [(0, ''n'', 300), (10, ''n'', 300), (20, ''m'', 300), (300, ''n'', 300)] =
      [True, False, True, True]"
    by (simp add: consume_nonce_def MAX_USED_NONCES_def Let_def del: set_filter set_map)
  moreover have "(0 :: nat) + 300 \<le> 300"
    by (rule nonce_single_use [of "[(0, ''n'', 300), (10, ''n'', 300), (20, ''m'', 300), (300, ''n'', 300)]"
          300 0 3 0 "''n''" 300 300 300 "[]"]) (use run in simp_all)
  ultimately show ?thesis by simp
qed

theorem shorter_retention_reopens_nonce_witness:
  "consume_nonce [] 0 ''n'' 300 = (True, [(''n'', 0)]) \<and>
   consume_nonce [(''n'', 0)] 30 ''m'' 30 = (True, [(''m'', 30)]) \<and>
   fst (consume_nonce [(''m'', 30)] 31 ''n'' 300)"
  using shorter_retention_reopens_nonce [of "[]" 0 "''n''" 300 "[(''n'', 0)]" 30 "''m''" 30 True "[(''m'', 30)]" 31]
  by (simp add: consume_nonce_def MAX_USED_NONCES_def)

theorem issued_nonce_window_witness:
  "\<exists>sig. issue_nonce demo_crypto ''k'' ''r'' 1000 = ''114.1000.'' @ sig \<and>
     verify_nonce demo_crypto 1060 ''k'' (''114.1000.'' @ sig) 300 \<and>
     verify_nonce demo_crypto 1060 ''k'' (''114.+1000.'' @ sig) 300 \<and>
     \<not> verify_nonce demo_crypto 1301 ''k'' (''114.+1000.'' @ sig) 300"
proof -
  let ?sig = "nonce_signature demo_crypto ''k'' ''114.1000''"
  have hex: "hex_encode demo_crypto ''r'' = ''114''" "show_int 1000 = ''1000''"
    by (simp_all add: demo_crypto_def demo_hex_def show_int_def, code_simp+)
  have i: "issue_nonce demo_crypto ''k'' ''r'' 1000 = ''114.1000.'' @ ?sig"
    by (simp add: issue_nonce_def hex Let_def)
  have p: "i64_from_str ''1000'' = Some 1000" "i64_from_str ''+1000'' = Some 1000" by code_simp+
  have v: "verify_nonce demo_crypto now ''k'' (''114.'' @ w @ ''.'' @ ?sig) 300 \<longleftrightarrow> 1000 \<le> now + 30 \<and> now - 1000 \<le> 300"
    if "i64_from_str w = Some 1000" "CHR ''.'' \<notin> set w" "i64_range (now + 30)" "i64_range (now - 1000)" for w now
    using issued_nonce_window [of demo_crypto "''r''" w 1000 "''k''" ?sig now 300] demo_crypto_laws that i
    by (simp add: hex)
  show ?thesis
    using i v [of "''1000''" 1060] v [of "''+1000''" 1060] v [of "''+1000''" 1301] p
    by (intro exI [of _ ?sig]) (simp add: i64_range_def)
qed

end
