(* ===== verification/Url_Decode.thy ===== *)
theory Url_Decode
  imports Rust_Text
begin

text \<open>
  \<^verbatim>\<open>src/pingwaf-waf/src/normalize/url.rs\<close>: byte-wise percent decoding in layers, with overlong
  UTF-8 forms restored and other invalid bytes read as Latin-1.  The lemmas give the
  measure that makes every layer shrink, so that enough layers reach text without any
  triplet, and show that a payload encoded \<open>k\<close> times is uncovered by \<open>k\<close> layers.
\<close>

section \<open>Percent decoding\<close>

definition hex_byte :: "char \<Rightarrow> char \<Rightarrow> char" where
  "hex_byte hi lo =
     (case u32_from_str_radix [hi, lo] 16 of Some n \<Rightarrow> char_of n | None \<Rightarrow> CHR ''%'')"

text \<open>The loop of \<^verbatim>\<open>percent_to_bytes\<close>: the bytes, and whether any triplet was decoded.\<close>

fun percent_loop :: "string \<Rightarrow> string \<times> bool" where
  "percent_loop (p # hi # lo # s) =
     (if p = CHR ''%'' \<and> is_ascii_hexdigit hi \<and> is_ascii_hexdigit lo
      then (hex_byte hi lo # fst (percent_loop s), True)
      else (p # fst (percent_loop (hi # lo # s)), snd (percent_loop (hi # lo # s))))"
| "percent_loop s = (s, False)"

definition percent_to_bytes :: "string \<Rightarrow> string option" where
  "percent_to_bytes s = (if snd (percent_loop s) then Some (fst (percent_loop s)) else None)"

fun latin1_loop :: "string \<Rightarrow> string" where
  "latin1_loop [] = []"
| "latin1_loop [b] = encode_utf8 (byte b)"
| "latin1_loop (b # c # s) =
     (if (byte b = 192 \<or> byte b = 193) \<and> is_cont c
      then encode_utf8 ((byte b mod 32 * 64) mod 256 + byte c mod 64) @ latin1_loop s
      else encode_utf8 (byte b) @ latin1_loop (c # s))"

definition bytes_to_scannable :: "string \<Rightarrow> string" where
  "bytes_to_scannable bs = (if valid_utf8 bs then bs else latin1_loop bs)"

fun decode_layers :: "nat \<Rightarrow> string \<Rightarrow> string" where
  "decode_layers 0 cur = cur"
| "decode_layers (Suc n) cur =
     (case percent_to_bytes cur of
        None \<Rightarrow> cur
      | Some bytes \<Rightarrow>
          (let decoded = bytes_to_scannable bytes in
           if decoded = cur then cur
           else if \<not> contains_char decoded CHR ''%'' then decoded
           else decode_layers n decoded))"

definition multi_decode :: "string \<Rightarrow> nat \<Rightarrow> string" where
  "multi_decode input max_layers =
     (if max_layers = 0 \<or> \<not> contains_char input CHR ''%'' then input
      else decode_layers max_layers input)"

fun percent_case_loop :: "string \<Rightarrow> string" where
  "percent_case_loop (c # hi # lo # s) =
     (if c = CHR ''%'' \<and> is_ascii_hexdigit hi \<and> is_ascii_hexdigit lo
      then CHR ''%'' # ascii_lower hi # ascii_lower lo # percent_case_loop s
      else encode_utf8 (byte c) @ percent_case_loop (hi # lo # s))"
| "percent_case_loop s = concat (map (\<lambda>c. encode_utf8 (byte c)) s)"

definition normalize_percent_case :: "string \<Rightarrow> string" where
  "normalize_percent_case input =
     (if \<not> contains_char input CHR ''%'' then input else percent_case_loop input)"

section \<open>Decoding reaches a fixed point\<close>

lemma percent_loop_no_percent: "CHR ''%'' \<notin> set s \<Longrightarrow> percent_loop s = (s, False)"
  by (induction s rule: percent_loop.induct) auto

lemma percent_to_bytes_no_percent: "CHR ''%'' \<notin> set s \<Longrightarrow> percent_to_bytes s = None"
  by (simp add: percent_to_bytes_def percent_loop_no_percent)

text \<open>Without the early returns: the guards are shortcuts of the same loop.\<close>

fun decode_steps :: "nat \<Rightarrow> string \<Rightarrow> string" where
  "decode_steps 0 cur = cur"
| "decode_steps (Suc n) cur =
     (case percent_to_bytes cur of
        None \<Rightarrow> cur | Some bytes \<Rightarrow> decode_steps n (bytes_to_scannable bytes))"

lemma decode_steps_fixed: "percent_to_bytes s = None \<Longrightarrow> decode_steps n s = s"
  by (cases n) auto

lemma valid_utf8_encode_append [waf_utf8]:
  "scalar_value n \<Longrightarrow> valid_utf8 s \<Longrightarrow> valid_utf8 (encode_utf8 n @ s)"
  by (simp add: valid_utf8_append valid_utf8_encode_utf8)

lemma overlong_byte_scalar: "scalar_value ((byte b mod 32 * 64) mod 256 + byte c mod 64)"
proof -
  have "(byte b mod 32 * 64) mod 256 < 256" "byte c mod 64 < 64" by simp_all
  then have "(byte b mod 32 * 64) mod 256 + byte c mod 64 < 55296" by linarith
  then show ?thesis by (simp add: scalar_value_def)
qed

lemma valid_utf8_latin1 [waf_utf8]: "valid_utf8 (latin1_loop bs)"
  by (induction bs rule: latin1_loop.induct)
     (auto simp: valid_utf8_encode_append valid_utf8_encode_utf8 overlong_byte_scalar)

lemma valid_utf8_scannable [waf_utf8]: "valid_utf8 (bytes_to_scannable bs)"
  by (simp add: bytes_to_scannable_def valid_utf8_latin1)

text \<open>The measure: ASCII characters of the text.  A triplet costs three and yields at most one
  that can still become one, where the lead bytes \<open>C0\<close> and \<open>C1\<close> of overlong forms count,
  which well-formed text never contains.\<close>

definition ascii_count :: "string \<Rightarrow> nat" where
  "ascii_count s = length (filter is_ascii s)"

definition overlong_lead :: "char \<Rightarrow> bool" where
  "overlong_lead b \<longleftrightarrow> byte b = 192 \<or> byte b = 193"

definition weight :: "string \<Rightarrow> nat" where
  "weight s = length (filter (\<lambda>b. is_ascii b \<or> overlong_lead b) s)"

lemma ascii_count_simps [simp]:
  "ascii_count [] = 0" "ascii_count (c # s) = (if is_ascii c then 1 else 0) + ascii_count s"
  "ascii_count (s @ t) = ascii_count s + ascii_count t"
  by (simp_all add: ascii_count_def)

lemma weight_simps [simp]:
  "weight [] = 0"
  "weight (c # s) = (if is_ascii c \<or> overlong_lead c then 1 else 0) + weight s"
  by (simp_all add: weight_def)

lemma ascii_count_latin1_char:
  assumes "n < 256"
  shows "ascii_count (encode_utf8 n) = (if n < 128 then 1 else 0)"
proof -
  have "n div 64 < 4" "n mod 64 < 64" using assms by auto
  then have "\<not> is_ascii (char_of (192 + n div 64))" "\<not> is_ascii (char_of (128 + n mod 64))"
    by (simp_all add: is_ascii_def)
  with assms show ?thesis by (auto simp: encode_utf8_def is_ascii_def)
qed

lemma ascii_count_latin1: "ascii_count (latin1_loop bs) \<le> weight bs"
proof (induction bs rule: latin1_loop.induct)
  case (3 b c s)
  have o: "byte b mod 32 * 64 mod 256 + byte c mod 64 < 256" if "overlong_lead b"
    using that by (auto simp: overlong_lead_def)
  from 3 o ascii_count_latin1_char [of "byte b"] show ?case
    by (auto simp: ascii_count_latin1_char overlong_lead_def [symmetric] is_ascii_def)
qed (simp_all add: ascii_count_latin1_char is_ascii_def)

lemma ascii_count_scannable: "ascii_count (bytes_to_scannable bs) \<le> weight bs"
proof -
  have "ascii_count bs \<le> weight bs" by (induction bs) auto
  then show ?thesis by (simp add: bytes_to_scannable_def ascii_count_latin1)
qed

lemma scalar_no_overlong:
  "scalar_len s = Some n \<Longrightarrow> \<forall>b \<in> set (take n s). \<not> overlong_lead b"
  by (cases s) (auto simp: overlong_lead_def is_cont_def split: if_splits list.splits)

lemma valid_utf8_no_overlong: "valid_utf8 s \<Longrightarrow> \<forall>b \<in> set s. \<not> overlong_lead b"
proof (induction s rule: valid_utf8.induct)
  case (1 s)
  show ?case
  proof (cases s)
    case (Cons a t)
    with 1(2) obtain n where n: "scalar_len s = Some n" "valid_utf8 (drop n s)"
      by (blast elim: valid_utf8_scalar)
    with 1(1) Cons have "\<forall>b \<in> set (drop n s). \<not> overlong_lead b" by blast
    with scalar_no_overlong [OF n(1)] show ?thesis
      by (metis Un_iff append_take_drop_id set_append)
  qed simp
qed

lemma weight_percent_loop:
  "\<forall>b \<in> set s. \<not> overlong_lead b \<Longrightarrow>
   weight (fst (percent_loop s)) + (if snd (percent_loop s) then 2 else 0) \<le> ascii_count s"
  by (induction s rule: percent_loop.induct) (auto simp: hexdigit_is_ascii is_ascii_def [of "CHR ''%''"])

lemma layer_decreases:
  assumes "valid_utf8 s" and "percent_to_bytes s = Some bs"
  shows "ascii_count (bytes_to_scannable bs) < ascii_count s"
  using weight_percent_loop [OF valid_utf8_no_overlong [OF assms(1)]] assms(2)
    ascii_count_scannable [of bs]
  by (auto simp: percent_to_bytes_def split: if_splits)

lemma decode_layers_steps: "valid_utf8 s \<Longrightarrow> decode_layers n s = decode_steps n s"
proof (induction n arbitrary: s)
  case (Suc n)
  show ?case
  proof (cases "percent_to_bytes s")
    case (Some bs)
    have "bytes_to_scannable bs \<noteq> s" using layer_decreases [OF Suc.prems Some] by auto
    with Some Suc.IH [OF valid_utf8_scannable] show ?thesis
      by (auto simp: Let_def decode_steps_fixed percent_to_bytes_no_percent)
  qed simp
qed simp

lemma multi_decode_steps: "valid_utf8 s \<Longrightarrow> multi_decode s n = decode_steps n s"
  by (auto simp: multi_decode_def decode_layers_steps decode_steps_fixed percent_to_bytes_no_percent)

lemma decode_steps_valid: "valid_utf8 s \<Longrightarrow> valid_utf8 (decode_steps n s)"
  by (induction n arbitrary: s) (auto simp: valid_utf8_scannable split: option.splits)

lemma decode_steps_complete:
  "valid_utf8 s \<Longrightarrow> ascii_count s \<le> n \<Longrightarrow> percent_to_bytes (decode_steps n s) = None"
proof (induction n arbitrary: s)
  case 0
  then show ?case using layer_decreases by (cases "percent_to_bytes s") fastforce+
next
  case (Suc n)
  show ?case
  proof (cases "percent_to_bytes s")
    case (Some bs)
    with layer_decreases [OF Suc.prems(1) Some] Suc show ?thesis
      by (simp add: valid_utf8_scannable)
  qed simp
qed

lemma multi_decode_valid [waf_utf8]: "valid_utf8 s \<Longrightarrow> valid_utf8 (multi_decode s n)"
  by (simp add: multi_decode_steps decode_steps_valid)

section \<open>Layered encodings are uncovered\<close>

definition hex_digit :: "nat \<Rightarrow> char" where
  "hex_digit n = (if n < 10 then char_of (48 + n) else char_of (55 + n))"

definition percent_encode :: "string \<Rightarrow> string" where
  "percent_encode s =
     concat (map (\<lambda>c. [CHR ''%'', hex_digit (byte c div 16), hex_digit (byte c mod 16)]) s)"

lemma hex_digit_value: "n < 16 \<Longrightarrow> digit_value 16 (hex_digit n) = Some n \<and> is_ascii_hexdigit (hex_digit n)"
  by (auto simp: hex_digit_def digit_value_def is_ascii_digit_def is_ascii_lowercase_def
      is_ascii_uppercase_def is_ascii_hexdigit_def Let_def)

lemma hex_digit_not_plus: "n < 16 \<Longrightarrow> hex_digit n \<noteq> CHR ''+''"
  using hex_digit_value [of n] by (auto simp: is_ascii_hexdigit_def is_ascii_digit_def)

lemma hex_byte_encode: "hex_byte (hex_digit (byte c div 16)) (hex_digit (byte c mod 16)) = c"
proof -
  have b: "byte c < 4294967296" by (rule order.strict_trans [of _ 256]) simp_all
  have d: "byte c div 16 < 16" "byte c mod 16 < 16" by (simp_all add: less_mult_imp_div_less)
  then have "digits_value 16 [hex_digit (byte c div 16), hex_digit (byte c mod 16)] 0 = Some (byte c)"
    by (simp add: hex_digit_value)
  with d b show ?thesis
    by (simp add: hex_byte_def u32_from_str_radix_def hex_digit_not_plus)
qed

lemma percent_loop_encode: "percent_loop (percent_encode s) = (s, s \<noteq> [])"
proof (induction s)
  case Nil
  then show ?case by (simp add: percent_encode_def)
next
  case (Cons c s)
  have "byte c div 16 < 16" "byte c mod 16 < 16" by (simp_all add: less_mult_imp_div_less)
  with Cons show ?case by (simp add: percent_encode_def hex_digit_value hex_byte_encode)
qed

lemma percent_encode_ascii: "\<forall>c \<in> set (percent_encode s). is_ascii c"
proof -
  have "is_ascii (hex_digit n)" if "n < 16" for n
    using hex_digit_value [OF that] hexdigit_is_ascii by blast
  then show ?thesis
    by (auto simp: percent_encode_def is_ascii_def [of "CHR ''%''"] less_mult_imp_div_less)
qed

lemma ascii_valid: "\<forall>c \<in> set s. is_ascii c \<Longrightarrow> valid_utf8 s"
  by (induction s) auto

lemma decode_steps_encode:
  assumes "valid_utf8 s" and "s \<noteq> []"
  shows "decode_steps (k + n) ((percent_encode ^^ k) s) = decode_steps n s"
proof (induction k)
  case (Suc k)
  have v: "valid_utf8 ((percent_encode ^^ k) s)"
    using assms(1) by (cases k) (simp_all add: ascii_valid percent_encode_ascii)
  have "(percent_encode ^^ k) s \<noteq> []"
    using assms(2) by (induction k) (auto simp: percent_encode_def)
  with v Suc show ?case
    by (simp add: percent_to_bytes_def percent_loop_encode bytes_to_scannable_def)
qed simp

lemma percent_encode_iter_valid: "valid_utf8 s \<Longrightarrow> valid_utf8 ((percent_encode ^^ k) s)"
  by (cases k) (simp_all add: ascii_valid percent_encode_ascii)

section \<open>Properties\<close>

text \<open>
  C31: Percent decoding reaches a fixed point: with as many layers as the input has ASCII
  characters (or more), the result of decoding a text is text in which no percent triplet is
  left to decode.
\<close>

theorem multi_decode_fixpoint:
  "valid_utf8 s \<Longrightarrow> ascii_count s \<le> n \<Longrightarrow>
   percent_to_bytes (multi_decode s n) = None \<and> valid_utf8 (multi_decode s n)"
  by (simp add: multi_decode_steps decode_steps_complete decode_steps_valid)

theorem multi_decode_fixpoint_witness:
  "percent_to_bytes (multi_decode ''%252e'' 5) = None \<and> valid_utf8 (multi_decode ''%252e'' 5)"
  by (rule multi_decode_fixpoint) (simp_all add: is_ascii_def)

end
