(* ===== verification/Body_Decode.thy ===== *)
theory Body_Decode
  imports Url_Decode
begin

text \<open>
  \<^verbatim>\<open>src/pingwaf-waf/src/normalize/body.rs\<close>: a request body becomes scannable text.  The layers
  of \<^verbatim>\<open>Content-Encoding\<close> are undone under a size cap, UTF-16 is transcoded, anything else is
  read as UTF-8 or Latin-1.  The decompressors of \<^verbatim>\<open>flate2\<close> are parameters.  The lemmas show
  that the text is well-formed and bounded, that encoded bodies are recovered, and which
  bodies are reported as inspected.
\<close>

definition MAX_DECOMPRESSED_BODY :: nat where "MAX_DECOMPRESSED_BODY = 1024 * 1024"

datatype PrefixReason = DecompressedCap

datatype BodyInspection =
    Inspected | Prefix nat PrefixReason | Uninspected string

definition body_detail :: "BodyInspection \<Rightarrow> string option" where
  "body_detail b =
     (case b of
        Inspected \<Rightarrow> None
      | Prefix checked reason \<Rightarrow>
          Some (''body=prefix(checked='' @ show_nat checked @ '', reason='' @
                (case reason of DecompressedCap \<Rightarrow> ''DecompressedCap'') @ '')'')
      | Uninspected reason \<Rightarrow> Some (''body=uninspected('' @ reason @ '')''))"

record DecodedBody =
  body_text :: string
  inspection :: BodyInspection

text \<open>The decoders of \<^verbatim>\<open>flate2\<close>: the bytes the stream yields, and whether it then ends
  cleanly.\<close>

record codecs =
  gz_decoder :: "string \<Rightarrow> string \<times> bool"
  zlib_decoder :: "string \<Rightarrow> string \<times> bool"
  deflate_decoder :: "string \<Rightarrow> string \<times> bool"

definition text_from_bytes :: "string \<Rightarrow> string" where
  "text_from_bytes body = (if valid_utf8 body then body else bytes_to_scannable body)"

definition header_value :: "(string \<times> string) list \<Rightarrow> string \<Rightarrow> string option" where
  "header_value headers name =
     map_option snd (find (\<lambda>(header, _). eq_ignore_ascii_case header name) headers)"

definition encoding_tokens :: "string \<Rightarrow> string list" where
  "encoding_tokens raw = filter (\<lambda>t. t \<noteq> []) (map trim_str (split_on CHR '','' raw))"

definition unsupported_encoding :: "(string \<times> string) list \<Rightarrow> string option" where
  "unsupported_encoding headers =
     Option.bind (header_value headers ''content-encoding'') (\<lambda>raw.
       find (\<lambda>t. to_ascii_lowercase t \<notin> {''identity'', ''gzip'', ''x-gzip'', ''deflate''})
         (encoding_tokens raw))"

definition charset_of :: "string \<Rightarrow> string option" where
  "charset_of content_type =
     find_map (\<lambda>param.
         case split_once_char CHR ''='' param of
           None \<Rightarrow> None
         | Some (name, v) \<Rightarrow>
             if \<not> eq_ignore_ascii_case (trim_str name) ''charset'' then None
             else Some (to_ascii_lowercase (trim_matches_char CHR 0x22 (trim_str v))))
       (drop 1 (split_on CHR '';'' content_type))"

text \<open>\<^verbatim>\<open>as_chunks::<2>\<close> and the unit of a pair, then \<^verbatim>\<open>String::from_utf16_lossy\<close>.\<close>

fun utf16_units :: "bool \<Rightarrow> string \<Rightarrow> nat list" where
  "utf16_units big_endian (a # b # s) =
     (if big_endian then byte a * 256 + byte b else byte b * 256 + byte a)
       # utf16_units big_endian s"
| "utf16_units big_endian s = []"

definition high_surrogate :: "nat \<Rightarrow> bool" where
  "high_surrogate u \<longleftrightarrow> 55296 \<le> u \<and> u < 56320"

definition low_surrogate :: "nat \<Rightarrow> bool" where
  "low_surrogate u \<longleftrightarrow> 56320 \<le> u \<and> u < 57344"

fun utf16_lossy :: "nat list \<Rightarrow> nat list" where
  "utf16_lossy [] = []"
| "utf16_lossy [u] = [if high_surrogate u \<or> low_surrogate u then 65533 else u]"
| "utf16_lossy (u # v # us) =
     (if high_surrogate u then
        (if low_surrogate v
         then (65536 + (u - 55296) * 1024 + (v - 56320)) # utf16_lossy us
         else 65533 # utf16_lossy (v # us))
      else if low_surrogate u then 65533 # utf16_lossy (v # us)
      else u # utf16_lossy (v # us))"

definition encode_scalars :: "nat list \<Rightarrow> string" where
  "encode_scalars ns = concat (map encode_utf8 ns)"

definition transcode_to_utf8 :: "string option \<Rightarrow> string \<Rightarrow> string option" where
  "transcode_to_utf8 content_type body =
     (let mode =
            (if prefix [CHR 0xFE, CHR 0xFF] body then Some (True, 2)
             else if prefix [CHR 0xFF, CHR 0xFE] body then Some (False, 2)
             else
               let charset = Option.bind content_type charset_of in
               if charset = Some ''utf-16le'' then Some (False, 0)
               else if charset = Some ''utf-16be'' then Some (True, 0)
               else if charset = Some ''utf-16'' then Some (False, 0)
               else None)
      in map_option (\<lambda>(big_endian, skip).
           encode_scalars (utf16_lossy (utf16_units big_endian (drop skip body)))) mode)"

definition read_bounded :: "string \<times> bool \<Rightarrow> string option" where
  "read_bounded r =
     (case r of (yielded, clean) \<Rightarrow>
        let out = take MAX_DECOMPRESSED_BODY yielded;
            ok = clean \<or> MAX_DECOMPRESSED_BODY \<le> length yielded
        in if ok then Some out else if out \<noteq> [] then Some out else None)"

definition decode_one :: "codecs \<Rightarrow> string \<Rightarrow> string \<Rightarrow> string option" where
  "decode_one C encoding bytes =
     (if encoding = ''gzip'' \<or> encoding = ''x-gzip'' then read_bounded (gz_decoder C bytes)
      else if encoding = ''deflate'' then
        (case read_bounded (zlib_decoder C bytes) of
           Some out \<Rightarrow> Some out
         | None \<Rightarrow> read_bounded (deflate_decoder C bytes))
      else None)"

text \<open>The loop over the layers: \<open>current\<close> is \<open>None\<close> until a layer has been undone; the outer
  \<open>None\<close> is the early return of \<^verbatim>\<open>?\<close>.\<close>

fun undo_layers :: "codecs \<Rightarrow> string \<Rightarrow> string option \<Rightarrow> string list \<Rightarrow> string option" where
  "undo_layers C body current [] = current"
| "undo_layers C body current (layer # ls) =
     (if eq_ignore_ascii_case layer ''identity'' then undo_layers C body current ls
      else
        case decode_one C (to_ascii_lowercase layer) (unwrap_or current body) of
          None \<Rightarrow> None
        | Some out \<Rightarrow> undo_layers C body (Some out) ls)"

definition decompress :: "codecs \<Rightarrow> (string \<times> string) list \<Rightarrow> string \<Rightarrow> string option" where
  "decompress C headers body =
     Option.bind (header_value headers ''content-encoding'') (\<lambda>raw.
       let layers = encoding_tokens raw in
       if 4 < length layers then None else undo_layers C body None (rev layers))"

definition decode_body :: "codecs \<Rightarrow> (string \<times> string) list \<Rightarrow> string \<Rightarrow> DecodedBody" where
  "decode_body C headers body =
     (let content_type = header_value headers ''content-type'' in
      case unsupported_encoding headers of
        Some unsupported \<Rightarrow>
          \<lparr>body_text = text_from_bytes body,
           inspection = Uninspected (''unsupported-content-encoding:'' @ unsupported)\<rparr>
      | None \<Rightarrow>
          (case decompress C headers body of
             Some decoded \<Rightarrow>
               (let decoded' = unwrap_or (transcode_to_utf8 content_type decoded) decoded in
                \<lparr>body_text = text_from_bytes decoded',
                 inspection =
                   (if MAX_DECOMPRESSED_BODY \<le> length decoded
                    then Prefix MAX_DECOMPRESSED_BODY DecompressedCap else Inspected)\<rparr>)
           | None \<Rightarrow>
               (case transcode_to_utf8 content_type body of
                  Some transcoded \<Rightarrow>
                    \<lparr>body_text = text_from_bytes transcoded, inspection = Inspected\<rparr>
                | None \<Rightarrow> \<lparr>body_text = text_from_bytes body, inspection = Inspected\<rparr>)))"

section \<open>The text is well-formed and bounded\<close>

lemma text_from_bytes_scannable: "text_from_bytes b = bytes_to_scannable b"
  by (simp add: text_from_bytes_def bytes_to_scannable_def)

lemma valid_utf8_decode_body: "valid_utf8 (body_text (decode_body C headers body))"
  by (simp add: decode_body_def text_from_bytes_scannable valid_utf8_scannable Let_def
      split: option.split)

lemma length_latin1: "length (latin1_loop bs) \<le> 2 * length bs"
proof (induction bs rule: latin1_loop.induct)
  case (3 b c s)
  have "length (encode_utf8 ((byte b mod 32 * 64) mod 256 + byte c mod 64)) \<le> 4"
    by (simp add: length_encode_utf8)
  with 3 length_encode_byte [of b] show ?case by auto
qed (use length_encode_byte in auto)

lemma length_scannable: "length (bytes_to_scannable bs) \<le> 2 * length bs"
  by (simp add: bytes_to_scannable_def length_latin1)

lemma length_utf16_units: "2 * length (utf16_units be s) \<le> length s"
  by (induction be s rule: utf16_units.induct) auto

lemma byte_pair_bound: "byte a * 256 + byte b < 65536"
proof -
  have "byte a < 256" "byte b < 256" by simp_all
  then show ?thesis by linarith
qed

lemma utf16_units_bound: "u \<in> set (utf16_units be s) \<Longrightarrow> u < 65536"
  by (induction be s rule: utf16_units.induct) (auto simp: byte_pair_bound)

lemma surrogate_pair_scalar:
  assumes "high_surrogate u" and "low_surrogate v"
  shows "scalar_value (65536 + (u - 55296) * 1024 + (v - 56320))"
  using assms unfolding high_surrogate_def low_surrogate_def scalar_value_def by linarith

lemma utf16_lossy_scalar: "\<forall>u \<in> set us. u < 65536 \<Longrightarrow> n \<in> set (utf16_lossy us) \<Longrightarrow> scalar_value n"
proof (induction us rule: utf16_lossy.induct)
  case (2 u)
  then show ?case by (auto simp: scalar_value_def high_surrogate_def low_surrogate_def split: if_splits)
next
  case (3 u v us)
  have "scalar_value u" if "\<not> high_surrogate u" "\<not> low_surrogate u"
    using that 3(5) by (auto simp: scalar_value_def high_surrogate_def low_surrogate_def)
  moreover have "scalar_value 65533" by (simp add: scalar_value_def)
  ultimately show ?case using 3 surrogate_pair_scalar by (auto split: if_splits)
qed simp

lemma encode_scalars_simps [simp]:
  "encode_scalars [] = []" "encode_scalars (n # ns) = encode_utf8 n @ encode_scalars ns"
  by (simp_all add: encode_scalars_def)

lemma valid_utf8_encode_scalars:
  "\<forall>n \<in> set ns. scalar_value n \<Longrightarrow> valid_utf8 (encode_scalars ns)"
  by (induction ns) (simp_all add: valid_utf8_encode_append)

lemma length_utf16_text: "length (encode_scalars (utf16_lossy us)) \<le> 3 * length us"
  if "\<forall>u \<in> set us. u < 65536" for us
  using that
proof (induction us rule: utf16_lossy.induct)
  case (3 u v us)
  then show ?case by (auto simp: length_encode_utf8 split: if_splits)
qed (auto simp: length_encode_utf8)

lemma transcode_bounds:
  assumes "transcode_to_utf8 ct b = Some t"
  shows "valid_utf8 t" and "length t \<le> 2 * length b"
proof -
  from assms obtain z where "(case z of (be, skip) \<Rightarrow>
      encode_scalars (utf16_lossy (utf16_units be (drop skip b)))) = t"
    unfolding transcode_to_utf8_def Let_def map_option_eq_Some by blast
  then obtain be skip where t: "t = encode_scalars (utf16_lossy (utf16_units be (drop skip b)))"
    by (cases z) (auto dest: sym)
  let ?us = "utf16_units be (drop skip b)"
  have u: "\<forall>u \<in> set ?us. u < 65536" using utf16_units_bound by blast
  then show "valid_utf8 t"
    unfolding t using utf16_lossy_scalar by (intro valid_utf8_encode_scalars) blast
  have "length t \<le> 3 * length ?us" unfolding t by (rule length_utf16_text [OF u])
  with length_utf16_units [of be "drop skip b"] show "length t \<le> 2 * length b" by simp
qed

lemma read_bounded_length: "read_bounded r = Some out \<Longrightarrow> length out \<le> MAX_DECOMPRESSED_BODY"
  by (auto simp: read_bounded_def Let_def split: prod.splits if_splits)

lemma decode_one_length: "decode_one C e b = Some out \<Longrightarrow> length out \<le> MAX_DECOMPRESSED_BODY"
  by (auto simp: decode_one_def read_bounded_length split: if_splits option.splits)

lemma undo_layers_length:
  "undo_layers C body cur ls = Some out \<Longrightarrow>
   (\<And>c. cur = Some c \<Longrightarrow> length c \<le> MAX_DECOMPRESSED_BODY) \<Longrightarrow> length out \<le> MAX_DECOMPRESSED_BODY"
  by (induction C body cur ls rule: undo_layers.induct)
     (auto dest: decode_one_length split: if_splits option.splits)

lemma decompress_length: "decompress C headers body = Some out \<Longrightarrow> length out \<le> MAX_DECOMPRESSED_BODY"
  by (auto simp: decompress_def bind_eq_Some_conv Let_def split: if_splits intro: undo_layers_length)

lemma length_text_transcoded:
  "length (text_from_bytes (unwrap_or (transcode_to_utf8 ct b) b)) \<le> 2 * length b"
proof (cases "transcode_to_utf8 ct b")
  case None
  then show ?thesis by (simp add: text_from_bytes_scannable length_scannable)
next
  case (Some t)
  with transcode_bounds [OF Some] show ?thesis by (simp add: text_from_bytes_def)
qed

lemma decode_body_length:
  "length (body_text (decode_body C headers body)) \<le> 2 * max (length body) MAX_DECOMPRESSED_BODY"
proof -
  have plain: "length (text_from_bytes body) \<le> 2 * length body"
    by (simp add: text_from_bytes_scannable length_scannable)
  let ?ct = "header_value headers ''content-type''"
  show ?thesis
  proof (cases "unsupported_encoding headers")
    case (Some u)
    with plain show ?thesis by (simp add: decode_body_def Let_def)
  next
    case None
    show ?thesis
    proof (cases "decompress C headers body")
      case (Some d)
      from decompress_length [OF Some] length_text_transcoded [of ?ct d] None Some show ?thesis
        by (simp add: decode_body_def Let_def)
    next
      case d: None
      show ?thesis
      proof (cases "transcode_to_utf8 ?ct body")
        case t: None
        with None d plain show ?thesis by (simp add: decode_body_def Let_def)
      next
        case t: (Some t)
        with None d length_text_transcoded [of ?ct body] show ?thesis
          by (simp add: decode_body_def Let_def)
      qed
    qed
  qed
qed

section \<open>UTF-16 bodies are read back\<close>

definition utf16_of_scalar :: "nat \<Rightarrow> nat list" where
  "utf16_of_scalar n =
     (if n < 65536 then [n]
      else [55296 + (n - 65536) div 1024, 56320 + (n - 65536) mod 1024])"

definition unit_bytes :: "bool \<Rightarrow> nat \<Rightarrow> string" where
  "unit_bytes big_endian u =
     (if big_endian then [char_of (u div 256), char_of (u mod 256)]
      else [char_of (u mod 256), char_of (u div 256)])"

definition utf16_encode :: "bool \<Rightarrow> nat list \<Rightarrow> string" where
  "utf16_encode big_endian ns =
     concat (map (unit_bytes big_endian) (concat (map utf16_of_scalar ns)))"

lemma utf16_lossy_plain:
  "\<not> high_surrogate u \<Longrightarrow> \<not> low_surrogate u \<Longrightarrow> utf16_lossy (u # us) = u # utf16_lossy us"
  by (cases us) auto

lemma utf16_lossy_encode:
  assumes "scalar_value n"
  shows "utf16_lossy (utf16_of_scalar n @ us) = n # utf16_lossy us"
proof (cases "n < 65536")
  case True
  with assms have "\<not> high_surrogate n" "\<not> low_surrogate n"
    by (auto simp: scalar_value_def high_surrogate_def low_surrogate_def)
  with True show ?thesis by (simp add: utf16_of_scalar_def utf16_lossy_plain)
next
  case False
  with assms have "n - 65536 < 1024 * 1024" by (auto simp: scalar_value_def)
  then have "high_surrogate (55296 + (n - 65536) div 1024)"
    "low_surrogate (56320 + (n - 65536) mod 1024)"
    by (auto simp: high_surrogate_def low_surrogate_def)
  with False show ?thesis by (simp add: utf16_of_scalar_def)
qed

lemma utf16_units_bytes:
  "\<forall>u \<in> set us. u < 65536 \<Longrightarrow> utf16_units be (concat (map (unit_bytes be) us)) = us"
proof (induction us)
  case (Cons u us)
  then have "u div 256 < 256" "u mod 256 < 256" by auto
  with Cons show ?case by (cases be) (simp_all add: unit_bytes_def)
qed simp

lemma utf16_of_scalar_bound: "scalar_value n \<Longrightarrow> u \<in> set (utf16_of_scalar n) \<Longrightarrow> u < 65536"
proof -
  assume n: "scalar_value n" and u: "u \<in> set (utf16_of_scalar n)"
  have "(n - 65536) div 1024 < 1024" "(n - 65536) mod 1024 < 1024"
    using n by (auto simp: scalar_value_def)
  with u show "u < 65536" by (auto simp: utf16_of_scalar_def split: if_splits)
qed

lemma utf16_decode_encode:
  assumes "\<forall>n \<in> set ns. scalar_value n"
  shows "utf16_lossy (utf16_units be (utf16_encode be ns)) = ns"
proof -
  have "\<forall>u \<in> set (concat (map utf16_of_scalar ns)). u < 65536"
    using assms utf16_of_scalar_bound by auto
  moreover have "utf16_lossy (concat (map utf16_of_scalar ns)) = ns"
    using assms by (induction ns) (simp_all add: utf16_lossy_encode)
  ultimately show ?thesis by (simp add: utf16_encode_def utf16_units_bytes)
qed

definition bom :: "bool \<Rightarrow> string" where
  "bom big_endian = (if big_endian then [CHR 0xFE, CHR 0xFF] else [CHR 0xFF, CHR 0xFE])"

lemma transcode_bom:
  assumes "\<forall>n \<in> set ns. scalar_value n"
  shows "transcode_to_utf8 ct (bom be @ utf16_encode be ns) = Some (encode_scalars ns)"
  using utf16_decode_encode [OF assms, of be]
  by (cases be) (simp_all add: transcode_to_utf8_def bom_def Let_def)

section \<open>Layers of content encoding are undone\<close>

text \<open>What a sender does: each token of the header is applied in order.\<close>

definition encode_layer ::
  "(string \<Rightarrow> string) \<Rightarrow> (string \<Rightarrow> string) \<Rightarrow> string \<Rightarrow> string \<Rightarrow> string" where
  "encode_layer gz zl x layer =
     (if to_ascii_lowercase layer \<in> {''gzip'', ''x-gzip''} then gz x
      else if to_ascii_lowercase layer = ''deflate'' then zl x else x)"

fun fits_layers :: "(string \<Rightarrow> string \<Rightarrow> string) \<Rightarrow> string \<Rightarrow> string list \<Rightarrow> bool" where
  "fits_layers enc x [] \<longleftrightarrow> True"
| "fits_layers enc x (l # ls) \<longleftrightarrow> length x \<le> MAX_DECOMPRESSED_BODY \<and> fits_layers enc (enc x l) ls"

lemma fits_layers_append:
  "fits_layers enc x (ls @ [l]) \<longleftrightarrow>
   fits_layers enc x ls \<and> length (foldl enc x ls) \<le> MAX_DECOMPRESSED_BODY"
  by (induction ls arbitrary: x) auto

definition supported_layer :: "string \<Rightarrow> bool" where
  "supported_layer l \<longleftrightarrow> to_ascii_lowercase l \<in> {''identity'', ''gzip'', ''x-gzip'', ''deflate''}"

lemma identity_lower: "eq_ignore_ascii_case l ''identity'' \<longleftrightarrow> to_ascii_lowercase l = ''identity''"
proof -
  have "to_ascii_lowercase ''identity'' = ''identity''" by code_simp
  then show ?thesis by (simp add: eq_ignore_ascii_case_def)
qed

lemma read_bounded_clean: "length x \<le> MAX_DECOMPRESSED_BODY \<Longrightarrow> read_bounded (x, True) = Some x"
  by (simp add: read_bounded_def)

lemma decode_one_encode_layer:
  assumes "\<And>x. gz_decoder C (gz x) = (x, True)" and "\<And>x. zlib_decoder C (zl x) = (x, True)"
    and "supported_layer l" and "\<not> eq_ignore_ascii_case l ''identity''"
    and "length x \<le> MAX_DECOMPRESSED_BODY"
  shows "decode_one C (to_ascii_lowercase l) (encode_layer gz zl x l) = Some x"
  using assms by (auto simp: supported_layer_def identity_lower decode_one_def encode_layer_def
      read_bounded_clean)

lemma undo_layers_encoded:
  assumes "\<And>x. gz_decoder C (gz x) = (x, True)" and "\<And>x. zlib_decoder C (zl x) = (x, True)"
    and "list_all supported_layer ls" and "fits_layers (encode_layer gz zl) x ls"
    and "unwrap_or cur body = foldl (encode_layer gz zl) x ls"
  shows "unwrap_or (undo_layers C body cur (rev ls)) body = x"
  using assms(3-5)
proof (induction ls arbitrary: cur rule: rev_induct)
  case Nil
  then show ?case by simp
next
  case (snoc l ls)
  let ?y = "foldl (encode_layer gz zl) x ls"
  show ?case
  proof (cases "eq_ignore_ascii_case l ''identity''")
    case True
    then have "encode_layer gz zl ?y l = ?y" by (auto simp: encode_layer_def identity_lower)
    with True snoc show ?thesis by (simp add: fits_layers_append)
  next
    case False
    have "decode_one C (to_ascii_lowercase l) (unwrap_or cur body) = Some ?y"
      using decode_one_encode_layer [OF assms(1,2) _ False] snoc.prems by (simp add: fits_layers_append)
    with False snoc show ?thesis by (simp add: fits_layers_append)
  qed
qed

section \<open>Properties\<close>

text \<open>
  Whatever bytes and headers a client sends and whatever the decompressors yield, the body
  text handed to the detectors is well-formed and at most twice the larger of the wire body
  and the one-megabyte cap: no decompression bomb expands past it.
\<close>

theorem body_text_bounded:
  "valid_utf8 (body_text (decode_body C headers body))
   \<and> length (body_text (decode_body C headers body)) \<le> 2 * max (length body) MAX_DECOMPRESSED_BODY"
  by (simp add: valid_utf8_decode_body decode_body_length)

text \<open>
  A UTF-16 body with a byte-order mark is read as the text it encodes, in both byte orders,
  supplementary characters included, whatever the content type says.
\<close>

theorem utf16_body_recovered:
  "\<forall>n \<in> set ns. scalar_value n \<Longrightarrow> header_value headers ''content-encoding'' = None \<Longrightarrow>
   decode_body C headers (bom be @ utf16_encode be ns)
     = \<lparr>body_text = encode_scalars ns, inspection = Inspected\<rparr>"
  by (simp add: decode_body_def unsupported_encoding_def decompress_def transcode_bom Let_def
      text_from_bytes_def valid_utf8_encode_scalars)

definition identity_codecs :: codecs where
  "identity_codecs = \<lparr>gz_decoder = (\<lambda>s. (s, True)), zlib_decoder = (\<lambda>s. (s, True)),
     deflate_decoder = (\<lambda>s. (s, True))\<rparr>"

theorem utf16_body_recovered_witness:
  "decode_body identity_codecs [] (bom True @ utf16_encode True [60, 128512])
     = \<lparr>body_text = encode_scalars [60, 128512], inspection = Inspected\<rparr>"
  by (rule utf16_body_recovered) (simp_all add: scalar_value_def header_value_def)

text \<open>
  C30: A chain of content encodings is undone in the right order: when the decompressors invert
  the compressors and every intermediate form fits the cap, a body compressed by the layers
  of its \<^verbatim>\<open>Content-Encoding\<close> header, at most four and all supported, is decompressed to the
  original bytes.
\<close>

theorem content_encoding_undone:
  "(\<And>y. gz_decoder C (gz y) = (y, True)) \<Longrightarrow> (\<And>y. zlib_decoder C (zl y) = (y, True)) \<Longrightarrow>
   header_value headers ''content-encoding'' = Some raw \<Longrightarrow> length (encoding_tokens raw) \<le> 4 \<Longrightarrow>
   list_all supported_layer (encoding_tokens raw) \<Longrightarrow>
   fits_layers (encode_layer gz zl) x (encoding_tokens raw) \<Longrightarrow>
   wire = foldl (encode_layer gz zl) x (encoding_tokens raw) \<Longrightarrow>
   unwrap_or (decompress C headers wire) wire = x"
  using undo_layers_encoded [of C gz zl "encoding_tokens raw" x None wire]
  by (simp add: decompress_def Let_def)

definition prefix_codecs :: codecs where
  "prefix_codecs = \<lparr>gz_decoder = (\<lambda>s. (tl s, True)), zlib_decoder = (\<lambda>s. (tl s, True)),
     deflate_decoder = (\<lambda>s. (s, True))\<rparr>"

lemma encoding_tokens_sample: "encoding_tokens ''gzip, deflate'' = [''gzip'', ''deflate'']"
  by code_simp

theorem content_encoding_undone_witness:
  "unwrap_or (decompress prefix_codecs [(''Content-Encoding'', ''gzip, deflate'')] ''zgx'') ''zgx'' = ''x''"
proof (rule content_encoding_undone [where gz = "(#) CHR ''g''" and zl = "(#) CHR ''z''"
      and raw = "''gzip, deflate''"])
  show "header_value [(''Content-Encoding'', ''gzip, deflate'')] ''content-encoding''
      = Some ''gzip, deflate''" by code_simp
  show "list_all supported_layer (encoding_tokens ''gzip, deflate'')" by code_simp
  show "fits_layers (encode_layer ((#) CHR ''g'') ((#) CHR ''z'')) ''x'' (encoding_tokens ''gzip, deflate'')"
    by (simp add: encoding_tokens_sample MAX_DECOMPRESSED_BODY_def encode_layer_def)
  show "''zgx'' = foldl (encode_layer ((#) CHR ''g'') ((#) CHR ''z'')) ''x'' (encoding_tokens ''gzip, deflate'')"
    unfolding encoding_tokens_sample by code_simp
qed (simp_all add: prefix_codecs_def encoding_tokens_sample)

text \<open>
  A body nobody could decode is still reported as fully inspected: with five gzip layers, or
  with one whose stream is corrupt, the detectors get the compressed bytes and the verdict
  carries no marker.
\<close>

theorem undecoded_body_reported_inspected:
  "decode_body C [(''content-encoding'', ''gzip,gzip,gzip,gzip,gzip'')] ''H4sI''
     = \<lparr>body_text = ''H4sI'', inspection = Inspected\<rparr>
   \<and> (gz_decoder C ''H4sI'' = ([], False) \<longrightarrow>
      decode_body C [(''content-encoding'', ''gzip'')] ''H4sI''
        = \<lparr>body_text = ''H4sI'', inspection = Inspected\<rparr>)"
proof -
  let ?five = "[(''content-encoding'', ''gzip,gzip,gzip,gzip,gzip'')]"
  let ?one = "[(''content-encoding'', ''gzip'')]"
  have tokens: "encoding_tokens ''gzip,gzip,gzip,gzip,gzip'' = replicate 5 ''gzip''"
    "encoding_tokens ''gzip'' = [''gzip'']" by code_simp+
  have header: "header_value ?five ''content-encoding'' = Some ''gzip,gzip,gzip,gzip,gzip''"
    "header_value ?one ''content-encoding'' = Some ''gzip''"
    "header_value ?five ''content-type'' = None" "header_value ?one ''content-type'' = None"
    by code_simp+
  have supported: "unsupported_encoding ?five = None" "unsupported_encoding ?one = None"
    by code_simp+
  have plain: "transcode_to_utf8 None ''H4sI'' = None" "text_from_bytes ''H4sI'' = ''H4sI''"
    by code_simp+
  have lower: "to_ascii_lowercase ''gzip'' = ''gzip''" "\<not> eq_ignore_ascii_case ''gzip'' ''identity''"
    by code_simp+
  have five: "decompress C ?five ''H4sI'' = None"
    by (simp add: decompress_def header tokens)
  have one: "decompress C ?one ''H4sI'' = None" if "gz_decoder C ''H4sI'' = ([], False)"
    using that by (simp add: decompress_def header tokens lower decode_one_def read_bounded_def
        MAX_DECOMPRESSED_BODY_def)
  show ?thesis using one by (simp add: decode_body_def header supported five plain)
qed

definition corrupt_codecs :: codecs where
  "corrupt_codecs = \<lparr>gz_decoder = (\<lambda>s. ([], False)), zlib_decoder = (\<lambda>s. ([], False)),
     deflate_decoder = (\<lambda>s. ([], False))\<rparr>"

theorem undecoded_body_reported_inspected_witness:
  "decode_body corrupt_codecs [(''content-encoding'', ''gzip'')] ''H4sI''
     = \<lparr>body_text = ''H4sI'', inspection = Inspected\<rparr>"
  using undecoded_body_reported_inspected [of corrupt_codecs] by (simp add: corrupt_codecs_def)

end
