(* ===== verification/Html_Entities.thy ===== *)
theory Html_Entities
  imports Rust_Text
begin

text \<open>
  \<^verbatim>\<open>src/pingwaf-waf/src/normalize/html.rs\<close>: decoding of named and numeric HTML entities, with
  and without the semicolon.  Characters are scalar values, pushed with \<^const>\<open>encode_utf8\<close>.
  Decoding keeps text well-formed, never lengthens it, and undoes escaping by name and by
  number.
\<close>

definition NAMED_ENTITIES :: "(string \<times> nat) list" where
  "NAMED_ENTITIES =
     [(''lt'', 60), (''gt'', 62), (''amp'', 38), (''quot'', 34), (''apos'', 39),
      (''nbsp'', 160), (''copy'', 169), (''reg'', 174), (''trade'', 8482), (''hellip'', 8230),
      (''mdash'', 8212), (''ndash'', 8211), (''laquo'', 171), (''raquo'', 187),
      (''lsquo'', 8216), (''rsquo'', 8217), (''ldquo'', 8220), (''rdquo'', 8221),
      (''cent'', 162), (''pound'', 163), (''yen'', 165), (''euro'', 8364), (''sect'', 167),
      (''para'', 182), (''deg'', 176), (''plusmn'', 177), (''times'', 215), (''divide'', 247),
      (''frac12'', 189), (''frac14'', 188), (''frac34'', 190), (''sup2'', 178),
      (''sup3'', 179), (''micro'', 181), (''middot'', 183), (''bull'', 8226),
      (''dagger'', 8224), (''permil'', 8240), (''prime'', 8242), (''Prime'', 8243),
      (''lsaquo'', 8249), (''rsaquo'', 8250), (''frasl'', 8260), (''colon'', 58),
      (''semi'', 59), (''comma'', 44), (''period'', 46), (''sol'', 47), (''bsol'', 92),
      (''lpar'', 40), (''rpar'', 41), (''lbrack'', 91), (''rbrack'', 93), (''lbrace'', 123),
      (''rbrace'', 125), (''num'', 35), (''percnt'', 37), (''plus'', 43), (''minus'', 45),
      (''ast'', 42), (''equals'', 61), (''quest'', 63), (''excl'', 33), (''grave'', 96),
      (''dollar'', 36), (''Tab'', 9), (''NewLine'', 10)]"

definition decode_entity_body :: "string \<Rightarrow> nat option" where
  "decode_entity_body body =
     (case body of
        [] \<Rightarrow> None
      | c # rest \<Rightarrow>
          if c = CHR ''#'' then
            (let (radix, digits) =
                   (case rest of
                      x # hex \<Rightarrow> if x = CHR ''x'' \<or> x = CHR ''X'' then (16, hex) else (10, rest)
                    | [] \<Rightarrow> (10, rest))
             in if digits = [] then None
                else Option.bind (u32_from_str_radix digits radix) char_from_u32)
          else map_of NAMED_ENTITIES body)"

definition entity_char :: "char \<Rightarrow> bool" where
  "entity_char b \<longleftrightarrow> is_ascii_alphanumeric b \<or> b = CHR ''#''"

text \<open>The position of the semicolon within the first \<open>k\<close> bytes, all before it entity
  characters.\<close>

fun semicolon_pos :: "nat \<Rightarrow> string \<Rightarrow> nat \<Rightarrow> nat option" where
  "semicolon_pos (Suc k) (b # s) j =
     (if b = CHR '';'' then Some j
      else if \<not> entity_char b then None
      else semicolon_pos k s (Suc j))"
| "semicolon_pos _ _ j = None"

text \<open>The longest prefix of at most \<open>k\<close> more bytes that is an entity; \<open>pre\<close> has been read.\<close>

fun longest_entity :: "nat \<Rightarrow> string \<Rightarrow> string \<Rightarrow> (nat \<times> nat) option \<Rightarrow> (nat \<times> nat) option" where
  "longest_entity (Suc k) pre (b # s) best =
     (if \<not> entity_char b then best
      else longest_entity k (pre @ [b]) s
             (case decode_entity_body (pre @ [b]) of
                Some c \<Rightarrow> Some (c, Suc (length pre)) | None \<Rightarrow> best))"
| "longest_entity _ pre s best = best"

definition try_decode_entity :: "string \<Rightarrow> (nat \<times> nat) option" where
  "try_decode_entity after =
     (case semicolon_pos 10 after 0 of
        Some j \<Rightarrow> map_option (\<lambda>c. (c, Suc j)) (decode_entity_body (take j after))
      | None \<Rightarrow> longest_entity 8 [] after None)"

abbreviation not_amp :: "char \<Rightarrow> bool" where
  "not_amp c \<equiv> c \<noteq> CHR ''&''"

lemma dropWhile_Cons_length [waf_len]: "dropWhile P s = a # t \<Longrightarrow> length t < length s"
  by (metis length_Cons length_dropWhile_le less_eq_Suc_le)

function entities_loop :: "string \<Rightarrow> string" where
  "entities_loop remaining =
     (case dropWhile not_amp remaining of
        [] \<Rightarrow> remaining
      | amp # after \<Rightarrow>
          takeWhile not_amp remaining @
            (case try_decode_entity after of
               Some (c, consumed) \<Rightarrow> encode_utf8 c @ entities_loop (drop consumed after)
             | None \<Rightarrow> CHR ''&'' # entities_loop after))"
  by pat_completeness auto
termination
  by (relation "measure length") (auto dest!: dropWhile_Cons_length)

declare entities_loop.simps [simp del]

definition decode_entities :: "string \<Rightarrow> string" where
  "decode_entities input =
     (if \<not> contains_char input CHR ''&'' then input else entities_loop input)"

section \<open>Decoding keeps text well-formed and never lengthens it\<close>

lemma NAMED_ENTITIES_ok:
  "list_all (\<lambda>(w, n). 2 \<le> length w \<and> n < 55296) NAMED_ENTITIES"
  by (simp add: NAMED_ENTITIES_def)

lemma entities_loop_no_amp:
  assumes "CHR ''&'' \<notin> set s"
  shows "entities_loop s = s"
proof -
  have "dropWhile not_amp s = []" using assms by (auto simp: dropWhile_eq_Nil_conv)
  then show ?thesis by (subst entities_loop.simps) (simp only: list.case)
qed

lemma entities_loop_amp:
  assumes "CHR ''&'' \<notin> set a"
  shows "entities_loop (a @ CHR ''&'' # after) = a @
    (case try_decode_entity after of
       Some (c, consumed) \<Rightarrow> encode_utf8 c @ entities_loop (drop consumed after)
     | None \<Rightarrow> CHR ''&'' # entities_loop after)"
proof -
  have n: "\<forall>x \<in> set a. not_amp x" using assms by auto
  then have "takeWhile not_amp (a @ CHR ''&'' # after) = a"
    "dropWhile not_amp (a @ CHR ''&'' # after) = CHR ''&'' # after"
    by (simp_all add: takeWhile_append dropWhile_append)
  then show ?thesis by (subst entities_loop.simps) simp
qed

lemma amp_split:
  obtains "CHR ''&'' \<notin> set s" | a after where "s = a @ CHR ''&'' # after" and "CHR ''&'' \<notin> set a"
  by (metis split_list_first)

lemma decode_entities_loop: "decode_entities s = entities_loop s"
  by (simp add: decode_entities_def entities_loop_no_amp)

lemma digits_value_bound: "digits_value r ds acc = Some n \<Longrightarrow> n < (acc + 1) * r ^ length ds"
proof (induction ds arbitrary: acc)
  case (Cons c ds)
  then obtain d where d: "d < r" "digits_value r ds (acc * r + d) = Some n"
    by (auto simp: digit_value_def Let_def split: option.splits if_splits)
  from Cons.IH [OF d(2)] have "n < (acc * r + d + 1) * r ^ length ds" .
  also have "\<dots> \<le> ((acc + 1) * r) * r ^ length ds"
    using d(1) by (intro mult_right_mono) (auto simp: algebra_simps)
  finally show ?case by (simp add: algebra_simps)
qed simp

lemma u32_from_str_radix_bound:
  assumes "u32_from_str_radix s r = Some n" and "1 \<le> r"
  shows "n < r ^ length s"
proof -
  define ds where "ds = (case s of c # t \<Rightarrow> if c = CHR ''+'' then t else s | [] \<Rightarrow> [])"
  have ds: "digits_value r ds 0 = Some n" "length ds \<le> length s"
    using assms(1) unfolding u32_from_str_radix_def Let_def ds_def [symmetric]
    by (auto simp: ds_def split: option.splits if_splits list.splits)
  have "n < r ^ length ds" using digits_value_bound [OF ds(1)] by simp
  also have "\<dots> \<le> r ^ length s" using ds(2) assms(2) by (rule power_increasing)
  finally show ?thesis .
qed

lemma numeric_entity_cases:
  assumes "decode_entity_body (CHR ''#'' # rest) = Some c"
  obtains ds r where "u32_from_str_radix ds r = Some c" and "1 \<le> r" and "r \<le> 16"
    and "length ds \<le> length rest" and "ds \<noteq> []" and "scalar_value c"
  using assms
  by (auto simp: decode_entity_body_def char_from_u32_def bind_eq_Some_conv Let_def
      split: list.splits if_splits)

lemma decode_entity_body_bounds:
  assumes "decode_entity_body body = Some c"
  shows "scalar_value c" and "length (encode_utf8 c) \<le> Suc (length body)"
proof -
  have "scalar_value c \<and> length (encode_utf8 c) \<le> Suc (length body)"
  proof (cases body)
    case (Cons h rest)
    show ?thesis
    proof (cases "h = CHR ''#''")
      case True
      with assms Cons obtain ds r where n: "u32_from_str_radix ds r = Some c" "1 \<le> r" "r \<le> 16"
        "length ds \<le> length rest" "ds \<noteq> []" "scalar_value c" by (auto elim: numeric_entity_cases)
      show ?thesis
      proof (cases "length ds = 1")
        case True
        with u32_from_str_radix_bound [OF n(1,2)] n(3) have "c < 16" by simp
        with n show ?thesis by (simp add: length_encode_utf8)
      next
        case False
        with n(5) have "2 \<le> length ds" by (cases ds) (auto simp: Suc_le_eq)
        with n(4) have "2 \<le> length rest" by simp
        with n(6) Cons show ?thesis by (simp add: length_encode_utf8)
      qed
    next
      case False
      with assms Cons have "map_of NAMED_ENTITIES body = Some c" by (simp add: decode_entity_body_def)
      then have "2 \<le> length body" "c < 55296"
        using NAMED_ENTITIES_ok by (auto simp: list_all_iff dest!: map_of_SomeD)
      then show ?thesis by (simp add: length_encode_utf8 scalar_value_def)
    qed
  qed (use assms in \<open>simp add: decode_entity_body_def\<close>)
  then show "scalar_value c" and "length (encode_utf8 c) \<le> Suc (length body)" by simp_all
qed

lemma entity_char_ascii: "entity_char b \<Longrightarrow> is_ascii b"
  by (auto simp: entity_char_def is_ascii_def [of "CHR ''#''"] alphanumeric_is_ascii)

lemma semicolon_pos_Some:
  "semicolon_pos k s j = Some i \<Longrightarrow>
   j \<le> i \<and> i - j < length s \<and> s ! (i - j) = CHR '';'' \<and> list_all entity_char (take (i - j) s)"
proof (induction k s j rule: semicolon_pos.induct)
  case (1 k b s j)
  then show ?case
    by (auto simp: Suc_diff_le Suc_le_eq take_Cons' nth_Cons' split: if_splits dest!: Suc_leD)
qed auto

definition entity_ok :: "string \<Rightarrow> (nat \<times> nat) option \<Rightarrow> bool" where
  "entity_ok s r =
     (case r of None \<Rightarrow> True
      | Some (c, n) \<Rightarrow> scalar_value c \<and> length (encode_utf8 c) \<le> Suc n \<and> n \<le> length s
          \<and> list_all is_ascii (take n s))"

lemma longest_entity_ok:
  "list_all is_ascii pre \<Longrightarrow> entity_ok (pre @ s) best \<Longrightarrow> entity_ok (pre @ s) (longest_entity k pre s best)"
proof (induction k pre s best rule: longest_entity.induct)
  case (1 k pre b s best)
  show ?case
  proof (cases "entity_char b")
    case True
    then have a: "list_all is_ascii (pre @ [b])" using 1(2) entity_char_ascii by simp
    have "entity_ok ((pre @ [b]) @ s) (case decode_entity_body (pre @ [b]) of
        Some c \<Rightarrow> Some (c, Suc (length pre)) | None \<Rightarrow> best)"
      using 1(3) a decode_entity_body_bounds [of "pre @ [b]"]
      by (auto simp: entity_ok_def split: option.splits)
    from 1(1) [OF _ a this] True show ?thesis by simp
  qed (use 1(3) in simp)
qed auto

lemma try_decode_entity_ok: "entity_ok s (try_decode_entity s)"
proof (cases "semicolon_pos 10 s 0")
  case None
  then show ?thesis using longest_entity_ok [of "[]" s None 8]
    by (simp add: try_decode_entity_def entity_ok_def)
next
  case (Some j)
  from semicolon_pos_Some [OF Some] have j: "j < length s" "s ! j = CHR '';''"
    "list_all entity_char (take j s)" by auto
  have "take (Suc j) s = take j s @ [CHR '';'']" using j by (simp add: take_Suc_conv_app_nth)
  then have "list_all is_ascii (take (Suc j) s)"
    using j(3) by (auto simp: list_all_iff entity_char_ascii is_ascii_def [of "CHR '';''"])
  with Some j decode_entity_body_bounds [of "take j s"] show ?thesis
    by (auto simp: try_decode_entity_def entity_ok_def split: option.splits)
qed

lemma entities_loop_ok:
  "length (entities_loop s) \<le> length s \<and> (valid_utf8 s \<longrightarrow> valid_utf8 (entities_loop s))"
proof (induction "length s" arbitrary: s rule: less_induct)
  case less
  show ?case
  proof (rule amp_split [of s])
    assume "CHR ''&'' \<notin> set s"
    then show ?thesis by (simp add: entities_loop_no_amp)
  next
    fix a after
    assume s: "s = a @ CHR ''&'' # after" and a: "CHR ''&'' \<notin> set a"
    have v: "valid_utf8 s \<longleftrightarrow> valid_utf8 a \<and> valid_utf8 after"
      using valid_utf8_split_ascii [of a "CHR ''&''" after]
      by (auto simp: s valid_utf8_append is_ascii_def)
    show ?thesis
    proof (cases "try_decode_entity after")
      case None
      with less.hyps [of after] v show ?thesis
        by (auto simp: s entities_loop_amp [OF a] valid_utf8_append is_ascii_def)
    next
      case (Some p)
      then obtain c n where p: "try_decode_entity after = Some (c, n)" by (cases p) simp
      with try_decode_entity_ok [of after] have ok: "scalar_value c" "length (encode_utf8 c) \<le> Suc n"
        "n \<le> length after" "list_all is_ascii (take n after)" by (simp_all add: entity_ok_def)
      have "valid_utf8 after \<longrightarrow> valid_utf8 (drop n after)"
        using ok(4) by (metis append_take_drop_id list_all_iff valid_utf8_ascii_prefix)
      moreover have "length (entities_loop (drop n after)) \<le> length after - n"
        "valid_utf8 (drop n after) \<longrightarrow> valid_utf8 (entities_loop (drop n after))"
        using less.hyps [of "drop n after"] by (simp_all add: s)
      moreover have "entities_loop s = a @ encode_utf8 c @ entities_loop (drop n after)"
        using p by (simp add: s entities_loop_amp [OF a])
      ultimately show ?thesis using ok v
        by (simp add: valid_utf8_append valid_utf8_encode_utf8) (simp add: s)
    qed
  qed
qed

section \<open>Obfuscation by entities is undone\<close>

lemma semicolon_pos_entity:
  "list_all entity_char w \<Longrightarrow> length w < k \<Longrightarrow>
   semicolon_pos k (w @ CHR '';'' # rest) j = Some (j + length w)"
proof (induction w arbitrary: k j)
  case Nil
  then show ?case by (cases k) auto
next
  case (Cons b w)
  then obtain k' where "k = Suc k'" by (cases k) auto
  moreover have "b \<noteq> CHR '';''"
    using Cons.prems(1) by (auto simp: entity_char_def waf_ascii)
  ultimately show ?case using Cons by simp
qed

lemma try_decode_entity_semicolon:
  assumes "list_all entity_char w" and "length w < 10"
  shows "try_decode_entity (w @ CHR '';'' # rest)
    = map_option (\<lambda>c. (c, Suc (length w))) (decode_entity_body w)"
  using semicolon_pos_entity [OF assms, of rest 0] by (simp add: try_decode_entity_def)

lemma entities_loop_entity:
  assumes "list_all entity_char w" and "length w < 10" and "decode_entity_body w = Some c"
  shows "entities_loop (CHR ''&'' # w @ CHR '';'' # rest) = encode_utf8 c @ entities_loop rest"
  using entities_loop_amp [of "[]" "w @ CHR '';'' # rest"] assms
  by (simp add: try_decode_entity_semicolon)

definition html_escape_char :: "char \<Rightarrow> string" where
  "html_escape_char c =
     (if c = CHR ''&'' then ''&amp;'' else if c = CHR ''<'' then ''&lt;''
      else if c = CHR ''>'' then ''&gt;'' else if c = CHR 0x22 then ''&quot;''
      else if c = CHR 0x27 then ''&apos;'' else [c])"

definition html_escape :: "string \<Rightarrow> string" where
  "html_escape s = concat (map html_escape_char s)"

lemma entities_loop_Cons: "c \<noteq> CHR ''&'' \<Longrightarrow> entities_loop (c # s) = c # entities_loop s"
proof -
  assume c: "c \<noteq> CHR ''&''"
  show ?thesis
  proof (rule amp_split [of s])
    assume "CHR ''&'' \<notin> set s"
    with c show ?thesis by (simp add: entities_loop_no_amp)
  next
    fix a after
    assume "s = a @ CHR ''&'' # after" "CHR ''&'' \<notin> set a"
    with c entities_loop_amp [of "c # a" after] entities_loop_amp [of a after] show ?thesis by simp
  qed
qed

lemma char_of_specials:
  "char_of (38 :: nat) = CHR ''&''" "char_of (60 :: nat) = CHR ''<''" "char_of (62 :: nat) = CHR ''>''"
  "char_of (34 :: nat) = CHR 0x22" "char_of (39 :: nat) = CHR 0x27"
  using char_of_char [of "CHR ''&''", where ?'a = nat] char_of_char [of "CHR ''<''", where ?'a = nat]
    char_of_char [of "CHR ''>''", where ?'a = nat] char_of_char [of "CHR 0x22", where ?'a = nat]
    char_of_char [of "CHR 0x27", where ?'a = nat]
  by simp_all

lemma escape_named:
  "entities_loop (''&amp;'' @ s) = CHR ''&'' # entities_loop s"
  "entities_loop (''&lt;'' @ s) = CHR ''<'' # entities_loop s"
  "entities_loop (''&gt;'' @ s) = CHR ''>'' # entities_loop s"
  "entities_loop (''&quot;'' @ s) = CHR 0x22 # entities_loop s"
  "entities_loop (''&apos;'' @ s) = CHR 0x27 # entities_loop s"
  using entities_loop_entity [of "''amp''" 38 s] entities_loop_entity [of "''lt''" 60 s]
    entities_loop_entity [of "''gt''" 62 s] entities_loop_entity [of "''quot''" 34 s]
    entities_loop_entity [of "''apos''" 39 s]
  by (simp_all add: entity_char_def waf_ascii decode_entity_body_def NAMED_ENTITIES_def encode_utf8_def
      char_of_specials)

lemma entities_loop_escape: "entities_loop (html_escape s) = s"
proof (induction s)
  case Nil
  then show ?case by (simp add: html_escape_def entities_loop_no_amp)
next
  case (Cons c s)
  then show ?case
    by (auto simp: html_escape_def html_escape_char_def escape_named [simplified] entities_loop_Cons)
qed

definition numeric_entity :: "nat \<Rightarrow> string" where
  "numeric_entity n = ''&#'' @ show_nat n @ '';''"

lemma length_show_nat: "n < 10 ^ Suc k \<Longrightarrow> length (show_nat n) \<le> Suc k"
proof (induction k arbitrary: n)
  case (Suc k)
  show ?case
  proof (cases "n < 10")
    case True
    then show ?thesis by (subst show_nat.simps) simp
  next
    case False
    from Suc.prems have "n div 10 < 10 ^ Suc k" by (simp add: div_less_iff_less_mult)
    with Suc.IH False show ?thesis by (subst show_nat.simps) simp
  qed
qed (subst show_nat.simps, simp)

lemma show_nat_no_sign: "c \<in> set (show_nat n) \<Longrightarrow> c \<notin> {CHR ''+'', CHR ''x'', CHR ''X''}"
  using show_nat_digits [of c n] by (auto simp: is_ascii_digit_def)

lemma decode_numeric_body:
  assumes "scalar_value n"
  shows "decode_entity_body (CHR ''#'' # show_nat n) = Some n"
proof -
  obtain d t where d: "show_nat n = d # t" using show_nat_not_Nil by (meson neq_Nil_conv)
  have "d \<notin> {CHR ''+'', CHR ''x'', CHR ''X''}" using show_nat_no_sign [of d n] d by simp
  moreover have "n < 4294967296" using assms by (auto simp: scalar_value_def)
  ultimately show ?thesis
    using assms d digits_value_show_nat [of n]
    by (simp add: decode_entity_body_def u32_from_str_radix_def char_from_u32_def)
qed

lemma entities_loop_numeric:
  assumes "scalar_value n"
  shows "entities_loop (numeric_entity n @ s) = encode_utf8 n @ entities_loop s"
proof -
  have "n < 10 ^ Suc 6" using assms by (auto simp: scalar_value_def)
  from length_show_nat [OF this] have "length (CHR ''#'' # show_nat n) < 10" by simp
  moreover have "list_all entity_char (CHR ''#'' # show_nat n)"
    using show_nat_digits by (auto simp: list_all_iff entity_char_def is_ascii_alphanumeric_def)
  ultimately show ?thesis
    using entities_loop_entity [OF _ _ decode_numeric_body [OF assms], of s]
    by (simp add: numeric_entity_def)
qed

section \<open>Properties\<close>

text \<open>
  Entity decoding keeps text well-formed and never lengthens it.
\<close>

theorem decode_entities_bounded:
  "length (decode_entities s) \<le> length s \<and> (valid_utf8 s \<longrightarrow> valid_utf8 (decode_entities s))"
  using entities_loop_ok [of s] by (simp add: decode_entities_loop)

theorem decode_entities_bounded_witness:
  "length (decode_entities ''&lt;b'') \<le> length ''&lt;b'' \<and> valid_utf8 (decode_entities ''&lt;b'')"
  using decode_entities_bounded [of "''&lt;b''"] by (simp add: is_ascii_def)

text \<open>
  Escaping by entities is undone, by name and by number: decoding the escaped form of any
  text gives it back, and a payload written entirely as decimal entities decodes to the
  characters it names.
\<close>

theorem entity_obfuscation_undone:
  "decode_entities (html_escape s) = s
   \<and> ((\<forall>n \<in> set ns. scalar_value n) \<longrightarrow>
      decode_entities (concat (map numeric_entity ns)) = concat (map encode_utf8 ns))"
proof -
  have "entities_loop (concat (map numeric_entity ns)) = concat (map encode_utf8 ns)"
    if "\<forall>n \<in> set ns. scalar_value n" for ns
    using that by (induction ns) (simp_all add: entities_loop_numeric entities_loop_no_amp)
  then show ?thesis by (simp add: decode_entities_loop entities_loop_escape)
qed

theorem entity_obfuscation_undone_witness:
  "decode_entities (html_escape ''<b>'') = ''<b>''
   \<and> decode_entities (concat (map numeric_entity [60, 8364])) = concat (map encode_utf8 [60, 8364])"
  using entity_obfuscation_undone [of "''<b>''" "[60, 8364]"] by (simp add: scalar_value_def)

end
