(* ===== verification/Value_Decode.thy ===== *)
theory Value_Decode
  imports Body_Decode Html_Entities
begin

text \<open>
  \<^verbatim>\<open>src/pingwaf-waf/src/normalize/mod.rs\<close>, the decoding of one value (percent layers, entities,
  escapes, form encoding) and the unpacking of JSON documents into scanned members.  The
  parsers of \<^verbatim>\<open>serde_json\<close> and \<^verbatim>\<open>base64\<close> are parameters.  The walk over a document, with its
  shared counter, is shown equal to a declarative reading: the leaves within the depth
  limit, cut to the budget.
\<close>

section \<open>Values\<close>

datatype ValueSource = QueryParam | Header | Cookie | Body | Path

definition source_as_str :: "ValueSource \<Rightarrow> string" where
  "source_as_str v =
     (case v of QueryParam \<Rightarrow> ''query'' | Header \<Rightarrow> ''header'' | Cookie \<Rightarrow> ''cookie''
              | Body \<Rightarrow> ''body'' | Path \<Rightarrow> ''path'')"

record DecodedValue =
  source :: ValueSource
  name :: string
  decoded :: string
  is_field :: bool

abbreviation field_value :: "ValueSource \<Rightarrow> string \<Rightarrow> string \<Rightarrow> DecodedValue" where
  "field_value src n d \<equiv> \<lparr>source = src, name = n, decoded = d, is_field = True\<rparr>"

abbreviation blob_value :: "string \<Rightarrow> DecodedValue" where
  "blob_value d \<equiv> \<lparr>source = Body, name = [], decoded = d, is_field = False\<rparr>"

text \<open>A parsed document of \<^verbatim>\<open>serde_json\<close> and the two foreign parsers; a number carries its
  display text, an object its members in iteration order.\<close>

datatype json =
    JNull | JBool bool | JNumber string | JString string
  | JArray "json list" | JObject "(string \<times> json) list"

record norm_env =
  codec :: codecs
  json_from_str :: "string \<Rightarrow> json option"
  b64_engine :: "string \<Rightarrow> string option"

text \<open>The two parameters that every step of a request shares.\<close>

record decode_opts =
  max_decode_layers :: nat
  decode_escapes_on :: bool

definition JSON_MAX_DEPTH :: nat where "JSON_MAX_DEPTH = 6"

definition JSON_MAX_VALUE_LEN :: nat where "JSON_MAX_VALUE_LEN = 4096"

definition JSON_MAX_VALUES :: nat where "JSON_MAX_VALUES = 64"

section \<open>Decoding one value\<close>

definition escape_width :: "char \<Rightarrow> nat option" where
  "escape_width c =
     (if c = CHR ''x'' \<or> c = CHR ''X'' then Some 2
      else if c = CHR ''u'' \<or> c = CHR ''U'' then Some 4 else None)"

text \<open>The escape at the head of the text: the scalar value and the bytes it takes.\<close>

definition escape_at :: "string \<Rightarrow> (nat \<times> nat) option" where
  "escape_at s =
     (case s of
        b # e # t \<Rightarrow>
          if b = CHR 0x5C then
            (case escape_width e of
               None \<Rightarrow> None
             | Some w \<Rightarrow>
                 if w \<le> length t \<and> list_all is_ascii_hexdigit (take w t)
                 then map_option (\<lambda>c. (c, w + 2))
                        (char_from_u32 (unwrap_or (u32_from_str_radix (take w t) 16) 0))
                 else None)
          else None
      | _ \<Rightarrow> None)"

definition char_len :: "string \<Rightarrow> nat" where
  "char_len s = unwrap_or (scalar_len s) 1"

lemma escape_at_pos: "escape_at s = Some (c, n) \<Longrightarrow> 0 < n"
  by (auto simp: escape_at_def split: list.splits if_splits option.splits)

lemma char_len_pos: "0 < char_len s"
  using scalar_len_bounds [of s] by (cases "scalar_len s") (auto simp: char_len_def)

function escapes_loop :: "string \<Rightarrow> string" where
  "escapes_loop s =
     (if s = [] then []
      else case escape_at s of
             Some (c, n) \<Rightarrow> encode_utf8 c @ escapes_loop (drop n s)
           | None \<Rightarrow> take (char_len s) s @ escapes_loop (drop (char_len s) s))"
  by pat_completeness auto
termination
  by (relation "measure length") (auto simp: char_len_pos dest: escape_at_pos)

declare escapes_loop.simps [simp del]

definition decode_escapes :: "string \<Rightarrow> string" where
  "decode_escapes input =
     (if contains_str input [CHR 0x5C, CHR ''x''] \<or> contains_str input [CHR 0x5C, CHR ''X'']
         \<or> contains_str input [CHR 0x5C, CHR ''u''] \<or> contains_str input [CHR 0x5C, CHR ''U'']
      then escapes_loop input else input)"

definition decode_value :: "decode_opts \<Rightarrow> string \<Rightarrow> string" where
  "decode_value opts input =
     (let url_decoded = multi_decode input (max_decode_layers opts);
          out = (if contains_char url_decoded CHR ''&'' then decode_entities url_decoded
                 else url_decoded);
          out2 = (if decode_escapes_on opts then decode_escapes out else out)
      in if contains_char out2 CHR ''%'' then multi_decode out2 (max_decode_layers opts) else out2)"

definition replace_plus :: "string \<Rightarrow> string" where
  "replace_plus s = map (\<lambda>c. if c = CHR ''+'' then CHR '' '' else c) s"

definition decode_value_form :: "decode_opts \<Rightarrow> string \<Rightarrow> string" where
  "decode_value_form opts input =
     (if contains_char input CHR ''+'' then decode_value opts (replace_plus input)
      else decode_value opts input)"

section \<open>JSON members\<close>

definition looks_like_json :: "string \<Rightarrow> bool" where
  "looks_like_json s =
     (case trim_start s of [] \<Rightarrow> False | c # _ \<Rightarrow> c = CHR ''{'' \<or> c = CHR ''['')"

text \<open>One layer of matching quotes around the trimmed text.\<close>

definition strip_quotes :: "string \<Rightarrow> string" where
  "strip_quotes s =
     (if 2 \<le> length s \<and> (hd s = CHR 0x27 \<or> hd s = CHR 0x22) \<and> last s = hd s
      then butlast (tl s) else s)"

definition child_path :: "string \<Rightarrow> string \<Rightarrow> string" where
  "child_path path k = (if path = [] then k else path @ ''.'' @ k)"

definition item_path :: "string \<Rightarrow> nat \<Rightarrow> string" where
  "item_path path i = path @ ''['' @ show_nat i @ '']''"

text \<open>The walk appends to the value list and counts; the functions return the values they
  append.  \<open>unpack_string_json\<close> answers \<^verbatim>\<open>true\<close> when that list is not empty.  The two loops
  repeat the depth guard of their callers, so that the recursion is seen to end.\<close>

function (sequential)
    walk_json :: "norm_env \<Rightarrow> decode_opts \<Rightarrow> nat \<Rightarrow> json \<Rightarrow> string \<Rightarrow> nat \<Rightarrow> DecodedValue list \<times> nat"
and walk_items ::
  "norm_env \<Rightarrow> decode_opts \<Rightarrow> nat \<Rightarrow> json list \<Rightarrow> nat \<Rightarrow> string \<Rightarrow> nat \<Rightarrow> DecodedValue list \<times> nat"
and walk_members ::
  "norm_env \<Rightarrow> decode_opts \<Rightarrow> nat \<Rightarrow> (string \<times> json) list \<Rightarrow> string \<Rightarrow> nat \<Rightarrow> DecodedValue list \<times> nat"
and unpack_string_json :: "norm_env \<Rightarrow> decode_opts \<Rightarrow> nat \<Rightarrow> string \<Rightarrow> string \<Rightarrow> DecodedValue list"
where
  "walk_json E opts d v path count =
     (if JSON_MAX_VALUES \<le> count then ([], count)
      else case v of
        JString s \<Rightarrow>
          if s = [] \<or> JSON_MAX_VALUE_LEN < length s then ([], count)
          else
            (let unpacked = unpack_string_json E opts d s path in
             if unpacked \<noteq> [] then (unpacked, Suc count)
             else ([field_value Body path (decode_value opts s)], Suc count))
      | JArray items \<Rightarrow>
          if JSON_MAX_DEPTH \<le> d then ([], count) else walk_items E opts d items 0 path count
      | JObject members \<Rightarrow>
          if JSON_MAX_DEPTH \<le> d then ([], count) else walk_members E opts d members path count
      | JNumber n \<Rightarrow> ([field_value Body path n], Suc count)
      | JBool b \<Rightarrow> ([field_value Body path (if b then ''true'' else ''false'')], Suc count)
      | JNull \<Rightarrow> ([], count))"
| "walk_items E opts d [] i path count = ([], count)"
| "walk_items E opts d (v # vs) i path count =
     (if JSON_MAX_DEPTH \<le> d then ([], count)
      else
        let (out1, c1) = walk_json E opts (Suc d) v (item_path path i) count;
            (out2, c2) = walk_items E opts d vs (Suc i) path c1
        in (out1 @ out2, c2))"
| "walk_members E opts d [] path count = ([], count)"
| "walk_members E opts d ((k, v) # kvs) path count =
     (if JSON_MAX_DEPTH \<le> d then ([], count)
      else
        let (out1, c1) = walk_json E opts (Suc d) v (child_path path k) count;
            (out2, c2) = walk_members E opts d kvs path c1
        in (out1 @ out2, c2))"
| "unpack_string_json E opts d s path =
     (if JSON_MAX_DEPTH \<le> d \<or> s = [] \<or> JSON_MAX_VALUE_LEN < length s then []
      else
        let stripped = strip_quotes (trim_str s) in
        if \<not> looks_like_json stripped then []
        else case json_from_str E stripped of
               None \<Rightarrow> []
             | Some nested \<Rightarrow> fst (walk_json E opts (Suc d) nested path 0))"
  by pat_completeness auto
termination
  by (relation "measures [\<lambda>x. case x of
        Inl (Inl (E, opts, d, v, path, count)) \<Rightarrow> 7 - d
      | Inl (Inr (E, opts, d, items, i, path, count)) \<Rightarrow> 7 - d
      | Inr (Inl (E, opts, d, members, path, count)) \<Rightarrow> 7 - d
      | Inr (Inr (E, opts, d, s, path)) \<Rightarrow> 7 - d,
      \<lambda>x. case x of
        Inl (Inl (E, opts, d, v, path, count)) \<Rightarrow> 2
      | Inl (Inr (E, opts, d, items, i, path, count)) \<Rightarrow> 1
      | Inr (Inl (E, opts, d, members, path, count)) \<Rightarrow> 1
      | Inr (Inr (E, opts, d, s, path)) \<Rightarrow> 1,
      \<lambda>x. case x of
        Inl (Inl (E, opts, d, v, path, count)) \<Rightarrow> 0
      | Inl (Inr (E, opts, d, items, i, path, count)) \<Rightarrow> length items
      | Inr (Inl (E, opts, d, members, path, count)) \<Rightarrow> length members
      | Inr (Inr (E, opts, d, s, path)) \<Rightarrow> 0]")
     (auto simp: JSON_MAX_DEPTH_def)

declare walk_json.simps [simp del] unpack_string_json.simps [simp del]

definition unpack_json :: "norm_env \<Rightarrow> decode_opts \<Rightarrow> string \<Rightarrow> DecodedValue list" where
  "unpack_json E opts body =
     (if JSON_MAX_VALUE_LEN * 64 < length body then []
      else case json_from_str E body of
             None \<Rightarrow> []
           | Some root \<Rightarrow> fst (walk_json E opts 0 root [] 0))"

section \<open>The walk against a declarative reading\<close>

text \<open>The leaves of a document down to the depth limit, each with the values it contributes:
  a scalar or string gives one, a string holding JSON the members found in it.\<close>

definition string_group :: "norm_env \<Rightarrow> decode_opts \<Rightarrow> nat \<Rightarrow> string \<Rightarrow> string \<Rightarrow> DecodedValue list list" where
  "string_group E opts d s path =
     (if s = [] \<or> JSON_MAX_VALUE_LEN < length s then []
      else [if unpack_string_json E opts d s path \<noteq> [] then unpack_string_json E opts d s path
            else [field_value Body path (decode_value opts s)]])"

fun json_groups :: "norm_env \<Rightarrow> decode_opts \<Rightarrow> nat \<Rightarrow> json \<Rightarrow> string \<Rightarrow> DecodedValue list list"
and item_groups :: "norm_env \<Rightarrow> decode_opts \<Rightarrow> nat \<Rightarrow> json list \<Rightarrow> nat \<Rightarrow> string \<Rightarrow> DecodedValue list list"
and member_groups ::
  "norm_env \<Rightarrow> decode_opts \<Rightarrow> nat \<Rightarrow> (string \<times> json) list \<Rightarrow> string \<Rightarrow> DecodedValue list list"
where
  "json_groups E opts d (JString s) path = string_group E opts d s path"
| "json_groups E opts d (JArray items) path =
     (if JSON_MAX_DEPTH \<le> d then [] else item_groups E opts d items 0 path)"
| "json_groups E opts d (JObject members) path =
     (if JSON_MAX_DEPTH \<le> d then [] else member_groups E opts d members path)"
| "json_groups E opts d (JNumber n) path = [[field_value Body path n]]"
| "json_groups E opts d (JBool b) path = [[field_value Body path (if b then ''true'' else ''false'')]]"
| "json_groups E opts d JNull path = []"
| "item_groups E opts d [] i path = []"
| "item_groups E opts d (v # vs) i path =
     json_groups E opts (Suc d) v (item_path path i) @ item_groups E opts d vs (Suc i) path"
| "member_groups E opts d [] path = []"
| "member_groups E opts d ((k, v) # kvs) path =
     json_groups E opts (Suc d) v (child_path path k) @ member_groups E opts d kvs path"

definition budgeted :: "nat \<Rightarrow> DecodedValue list list \<Rightarrow> DecodedValue list \<times> nat" where
  "budgeted count groups =
     (concat (take (JSON_MAX_VALUES - count) groups),
      count + min (JSON_MAX_VALUES - count) (length groups))"

lemma budgeted_Nil [simp]: "budgeted count [] = ([], count)"
  by (simp add: budgeted_def)

lemma budgeted_full: "JSON_MAX_VALUES \<le> count \<Longrightarrow> budgeted count gs = ([], count)"
  by (simp add: budgeted_def)

lemma budgeted_append:
  assumes "budgeted c xs = (o1, c1)" and "budgeted c1 ys = (o2, c2)"
  shows "budgeted c (xs @ ys) = (o1 @ o2, c2)"
proof -
  have "JSON_MAX_VALUES - c1 = JSON_MAX_VALUES - c - length xs"
    using assms(1) by (auto simp: budgeted_def)
  with assms show ?thesis by (auto simp: budgeted_def min_def)
qed

lemma budgeted_single: "count < JSON_MAX_VALUES \<Longrightarrow> budgeted count [g] = (g, Suc count)"
  by (simp add: budgeted_def)

lemma walk_json_groups:
  "walk_json E opts d v path count = budgeted count (json_groups E opts d v path)"
  "d < JSON_MAX_DEPTH \<Longrightarrow>
     walk_items E opts d items i path count = budgeted count (item_groups E opts d items i path)"
  "d < JSON_MAX_DEPTH \<Longrightarrow>
     walk_members E opts d members path count = budgeted count (member_groups E opts d members path)"
  "unpack_string_json E opts d s path = unpack_string_json E opts d s path"
proof (induction E opts d v path count and E opts d items i path count
    and E opts d members path count and E opts d s path
    rule: walk_json_walk_items_walk_members_unpack_string_json.induct)
  case (1 E opts d v path count)
  show ?case
  proof (cases "JSON_MAX_VALUES \<le> count")
    case True
    then show ?thesis by (simp add: walk_json.simps budgeted_full)
  next
    case False
    with 1 show ?thesis
      by (cases v) (auto simp: walk_json.simps budgeted_single string_group_def Let_def)
  qed
next
  case (3 E opts d v vs i path count)
  then show ?case by (auto simp: Let_def split: prod.splits intro!: budgeted_append [symmetric])
next
  case (5 E opts d k v kvs path count)
  then show ?case by (auto simp: Let_def split: prod.splits intro!: budgeted_append [symmetric])
qed simp_all

section \<open>Decoded values are text\<close>

lemma escape_at_Some:
  assumes "escape_at s = Some (c, n)"
  shows "scalar_value c" and "n \<le> length s" and "\<forall>x \<in> set (take n s). is_ascii x"
    and "length (encode_utf8 c) \<le> n"
proof -
  from assms obtain e t w where s: "s = CHR 0x5C # e # t" and w: "escape_width e = Some w"
    and t: "w \<le> length t" "list_all is_ascii_hexdigit (take w t)" and n: "n = w + 2"
    and c: "char_from_u32 (unwrap_or (u32_from_str_radix (take w t) 16) 0) = Some c"
    by (auto simp: escape_at_def split: list.splits if_splits option.splits)
  from c show "scalar_value c" by (auto simp: char_from_u32_def split: if_splits)
  from s t n show "n \<le> length s" by simp
  have w2: "w = 2 \<or> w = 4" "is_ascii e"
    using w by (auto simp: escape_width_def is_ascii_def split: if_splits)
  have "\<forall>x \<in> set (take w t). is_ascii x" using t(2) by (auto simp: list_all_iff hexdigit_is_ascii)
  with s n w2(2) show "\<forall>x \<in> set (take n s). is_ascii x" by (auto simp: is_ascii_def [of "CHR 0x5C"])
  have c': "c = unwrap_or (u32_from_str_radix (take w t) 16) 0"
    using c by (auto simp: char_from_u32_def split: if_splits)
  have "c < 16 ^ 4"
  proof (cases "u32_from_str_radix (take w t) 16")
    case None
    with c' show ?thesis by simp
  next
    case (Some m)
    have "m < 16 ^ length (take w t)" by (rule u32_from_str_radix_bound [OF Some]) simp
    with t(1) w2(1) Some c' show ?thesis by auto
  qed
  then show "length (encode_utf8 c) \<le> n" using n w2 by (auto simp: length_encode_utf8)
qed

lemma escapes_loop_ok:
  assumes "valid_utf8 s"
  shows "valid_utf8 (escapes_loop s) \<and> length (escapes_loop s) \<le> length s"
  using assms
proof (induction s rule: escapes_loop.induct)
  case (1 s)
  show ?case
  proof (cases "s = []")
    case True
    then show ?thesis by (simp add: escapes_loop.simps)
  next
    case False
    show ?thesis
    proof (cases "escape_at s")
      case None
      from 1(3) False obtain n where n: "scalar_len s = Some n" "valid_utf8 (drop n s)"
        by (rule valid_utf8_scalar)
      then have "char_len s = n" by (simp add: char_len_def)
      with 1(1) [OF False None] n None False valid_utf8_take_scalar [OF n(1)] scalar_len_bounds [OF n(1)]
      show ?thesis by (subst (1 2) escapes_loop.simps) (auto simp: valid_utf8_append)
    next
      case (Some p)
      then obtain c n where p: "escape_at s = Some (c, n)" by (cases p) simp
      note e = escape_at_Some [OF p]
      have "valid_utf8 (drop n s)"
        using 1(3) valid_utf8_ascii_prefix [OF e(3), of "drop n s"] by simp
      with 1(2) [OF False p refl] e p False show ?thesis
        by (subst (1 2) escapes_loop.simps) (auto simp: valid_utf8_append valid_utf8_encode_utf8)
    qed
  qed
qed

lemma valid_utf8_decode_escapes [waf_utf8]: "valid_utf8 s \<Longrightarrow> valid_utf8 (decode_escapes s)"
  by (simp add: decode_escapes_def escapes_loop_ok)

lemma valid_utf8_decode_entities [waf_utf8]: "valid_utf8 s \<Longrightarrow> valid_utf8 (decode_entities s)"
  using entities_loop_ok [of s] by (simp add: decode_entities_loop)

lemma valid_utf8_decode_value [waf_utf8]: "valid_utf8 s \<Longrightarrow> valid_utf8 (decode_value opts s)"
  by (simp add: decode_value_def Let_def multi_decode_valid valid_utf8_decode_entities
      valid_utf8_decode_escapes)

lemma valid_utf8_decode_value_form [waf_utf8]:
  "valid_utf8 s \<Longrightarrow> valid_utf8 (decode_value_form opts s)"
  by (auto simp: decode_value_form_def replace_plus_def valid_utf8_decode_value
      is_ascii_def [of "CHR '' ''"] is_ascii_def [of "CHR ''+''"]
      intro!: valid_utf8_decode_value valid_utf8_map_ascii)

lemma decode_entities_id: "CHR ''&'' \<notin> set s \<Longrightarrow> decode_entities s = s"
  by (simp add: decode_entities_def)

text \<open>Percent layers over an entity-escaped payload are peeled off, in that order.\<close>

lemma html_escape_valid: "valid_utf8 s \<Longrightarrow> valid_utf8 (html_escape s)"
  unfolding html_escape_def
  by (rule valid_utf8_concat_map) (auto simp: html_escape_char_def is_ascii_def)

lemma html_escape_no_percent: "CHR ''%'' \<notin> set s \<Longrightarrow> CHR ''%'' \<notin> set (html_escape s)"
  by (induction s) (auto simp: html_escape_def html_escape_char_def)

lemma html_escape_not_Nil: "s \<noteq> [] \<Longrightarrow> html_escape s \<noteq> []"
  by (cases s) (auto simp: html_escape_def html_escape_char_def)

lemma decode_escapes_id: "CHR 0x5C \<notin> set s \<Longrightarrow> decode_escapes s = s"
  by (auto simp: decode_escapes_def contains_str_iff)

lemma decode_value_onion:
  assumes "valid_utf8 s" and "s \<noteq> []" and "CHR ''%'' \<notin> set s" and "k \<le> max_decode_layers opts"
    and "decode_escapes_on opts \<longrightarrow> CHR 0x5C \<notin> set s"
  shows "decode_value opts ((percent_encode ^^ k) (html_escape s)) = s"
proof -
  let ?h = "html_escape s" and ?n = "max_decode_layers opts"
  note v = html_escape_valid [OF assms(1)]
  have "multi_decode ((percent_encode ^^ k) ?h) ?n = decode_steps (k + (?n - k)) ((percent_encode ^^ k) ?h)"
    using assms(4) by (simp add: multi_decode_steps [OF percent_encode_iter_valid [OF v]])
  also have "\<dots> = ?h"
    using decode_steps_encode [OF v html_escape_not_Nil [OF assms(2)]]
      percent_to_bytes_no_percent [OF html_escape_no_percent [OF assms(3)]]
    by (simp add: decode_steps_fixed)
  finally have m: "multi_decode ((percent_encode ^^ k) ?h) ?n = ?h" .
  have "decode_entities ?h = s" by (simp add: decode_entities_loop entities_loop_escape)
  moreover from this have "(if CHR ''&'' \<in> set ?h then decode_entities ?h else ?h) = s"
    using decode_entities_id [of ?h] by auto
  ultimately show ?thesis
    using assms(3,5) by (simp add: decode_value_def m Let_def decode_escapes_id)
qed

section \<open>Properties\<close>


end
