(* ===== verification/Path_Normalize.thy ===== *)
theory Path_Normalize
  imports Rust_Text
begin

text \<open>
  \<^verbatim>\<open>src/pingwaf-waf/src/normalize/path.rs\<close>: the fragment is dropped, empty and dot segments
  removed, \<^verbatim>\<open>..\<close> pops its parent.  The lemmas give the shape of every result, from which
  idempotence and the absence of dot segments follow.
\<close>

definition path_step :: "string list \<Rightarrow> string \<Rightarrow> string list" where
  "path_step segments seg =
     (if seg = [] \<or> seg = ''.'' then segments
      else if seg = ''..'' then butlast segments
      else segments @ [seg])"

definition path_segments :: "string \<Rightarrow> string list" where
  "path_segments path = foldl path_step [] (split_on CHR ''/'' path)"

definition strip_fragment :: "string \<Rightarrow> string" where
  "strip_fragment path = (case split_once_char CHR ''#'' path of Some (p, _) \<Rightarrow> p | None \<Rightarrow> path)"

definition normalize_path :: "string \<Rightarrow> string" where
  "normalize_path path0 =
     (if path0 = [] then ''/''
      else
        let path = strip_fragment path0;
            starts_with_slash = (path \<noteq> [] \<and> hd path = CHR ''/'');
            segments = path_segments path;
            out = (if starts_with_slash then ''/'' else []) @ join_with ''/'' segments
        in if out = [] then ''/''
           else if path \<noteq> [] \<and> last path = CHR ''/'' \<and> last out \<noteq> CHR ''/'' then out @ ''/''
           else out)"

definition clean_segment :: "string \<Rightarrow> bool" where
  "clean_segment w \<longleftrightarrow> w \<noteq> [] \<and> w \<noteq> ''.'' \<and> w \<noteq> ''..'' \<and> CHR ''/'' \<notin> set w \<and> CHR ''#'' \<notin> set w"

lemma strip_fragment_no_hash: "CHR ''#'' \<notin> set (strip_fragment p)"
  by (auto simp: strip_fragment_def split_once_char_None
      dest!: split_once_char_Some split: option.splits)

lemma split_on_append: "split_on c (s @ c # t) = split_on c s @ split_on c t"
proof (induction s)
  case Nil
  then show ?case by simp
next
  case (Cons x s)
  then show ?case by (cases "split_on c s") (auto split: list.splits)
qed

lemma split_on_join:
  "ws \<noteq> [] \<Longrightarrow> \<forall>w \<in> set ws. c \<notin> set w \<Longrightarrow> split_on c (join_with [c] ws) = ws"
proof (induction ws)
  case (Cons w ws)
  show ?case
  proof (cases "ws = []")
    case True
    with Cons show ?thesis by (simp add: split_on_no_occurrence)
  next
    case False
    with Cons show ?thesis by (simp add: join_with_Cons split_on_append split_on_no_occurrence)
  qed
qed simp

lemma set_split_on: "w \<in> set (split_on c s) \<Longrightarrow> set w \<subseteq> set s"
proof (induction s arbitrary: w)
  case (Cons x s)
  then show ?case by (cases "split_on c s") (fastforce split: if_splits)+
qed simp

lemma path_step_clean:
  "list_all clean_segment acc \<Longrightarrow> CHR ''/'' \<notin> set w \<Longrightarrow> CHR ''#'' \<notin> set w \<Longrightarrow>
   list_all clean_segment (path_step acc w)"
  by (auto simp: path_step_def list_all_iff clean_segment_def dest: in_set_butlastD)

lemma path_segments_clean:
  assumes "CHR ''#'' \<notin> set p"
  shows "list_all clean_segment (path_segments p)"
proof -
  have "list_all clean_segment (foldl path_step acc ws)"
    if "list_all clean_segment acc" "\<forall>w \<in> set ws. CHR ''/'' \<notin> set w \<and> CHR ''#'' \<notin> set w" for acc ws
    using that by (induction ws arbitrary: acc) (simp_all add: path_step_clean)
  from this [of "[]" "split_on CHR ''/'' p"] assms split_on_no_sep [of _ "CHR ''/''" p]
    set_split_on [of _ "CHR ''/''" p]
  show ?thesis unfolding path_segments_def by auto
qed

lemma foldl_clean: "list_all clean_segment ws \<Longrightarrow> foldl path_step acc ws = acc @ ws"
  by (induction ws arbitrary: acc) (simp_all add: path_step_def clean_segment_def)

text \<open>The shape of every result: an optional leading slash, clean segments joined by single
  slashes, an optional trailing slash.\<close>

definition path_text :: "bool \<Rightarrow> string list \<Rightarrow> bool \<Rightarrow> string" where
  "path_text lead segs trail =
     (if lead then ''/'' else []) @ join_with ''/'' segs @ (if trail then ''/'' else [])"

lemma split_on_path_text:
  assumes "list_all clean_segment segs" and "segs \<noteq> []"
  shows "split_on CHR ''/'' (path_text lead segs trail)
    = (if lead then [[]] else []) @ segs @ (if trail then [[]] else [])"
proof -
  have "split_on CHR ''/'' (join_with ''/'' segs) = segs"
    using assms by (intro split_on_join) (auto simp: list_all_iff clean_segment_def)
  moreover have "split_on CHR ''/'' (s @ ''/'') = split_on CHR ''/'' s @ [[]]" for s
    using split_on_append [of "CHR ''/''" s "[]"] by simp
  ultimately show ?thesis by (simp add: path_text_def)
qed

lemma path_segments_text:
  assumes "list_all clean_segment segs" and "segs \<noteq> []"
  shows "path_segments (path_text lead segs trail) = segs"
  using assms by (auto simp: path_segments_def split_on_path_text foldl_clean path_step_def)

lemma join_clean_last:
  assumes "list_all clean_segment segs" and "segs \<noteq> []"
  shows "join_with ''/'' segs \<noteq> [] \<and> last (join_with ''/'' segs) \<noteq> CHR ''/''
    \<and> hd (join_with ''/'' segs) \<noteq> CHR ''/''"
  using assms
proof (induction segs)
  case (Cons w ws)
  then have "w \<noteq> []" "CHR ''/'' \<notin> set w" by (simp_all add: clean_segment_def)
  then have w: "w \<noteq> []" "last w \<noteq> CHR ''/''" "hd w \<noteq> CHR ''/''"
    by (metis hd_in_set last_in_set)+
  show ?case
  proof (cases "ws = []")
    case True
    with w show ?thesis by simp
  next
    case False
    with Cons w show ?thesis by (auto simp: join_with_Cons)
  qed
qed simp

lemma normalize_path_text:
  assumes "path \<noteq> []"
  shows "normalize_path path =
    (let p = strip_fragment path; segs = path_segments p; lead = (p \<noteq> [] \<and> hd p = CHR ''/'')
     in if segs = [] then ''/''
        else path_text lead segs (p \<noteq> [] \<and> last p = CHR ''/''))"
proof -
  have "list_all clean_segment (path_segments (strip_fragment path))"
    by (simp add: path_segments_clean strip_fragment_no_hash)
  with join_clean_last [OF this] assms show ?thesis
    by (auto simp: normalize_path_def Let_def path_text_def)
qed

lemma no_hash_text: "list_all clean_segment segs \<Longrightarrow> CHR ''#'' \<notin> set (path_text lead segs trail)"
proof -
  have "CHR ''#'' \<notin> set (join_with ''/'' ws)" if "list_all clean_segment ws" for ws
    using that
  proof (induction ws)
    case (Cons w ws)
    then show ?case by (cases "ws = []") (auto simp: join_with_Cons clean_segment_def)
  qed simp
  then show "list_all clean_segment segs \<Longrightarrow> ?thesis" by (simp add: path_text_def)
qed

lemma strip_fragment_id: "CHR ''#'' \<notin> set p \<Longrightarrow> strip_fragment p = p"
  by (simp add: strip_fragment_def split_once_char_None [symmetric])

lemma normalize_path_shape:
  obtains "normalize_path path = ''/''"
  | lead segs trail where "list_all clean_segment segs" and "segs \<noteq> []"
      and "normalize_path path = path_text lead segs trail"
proof (cases "path = []")
  case True
  then show ?thesis using that by (simp add: normalize_path_def)
next
  case False
  note n = normalize_path_text [OF False, unfolded Let_def]
  show ?thesis
  proof (cases "path_segments (strip_fragment path) = []")
    case True
    with n that(1) show ?thesis by simp
  next
    case False
    with n path_segments_clean [OF strip_fragment_no_hash [of path]] show ?thesis
      by (intro that(2)) auto
  qed
qed

lemma normalize_path_text_id:
  assumes "list_all clean_segment segs" and "segs \<noteq> []"
  shows "normalize_path (path_text lead segs trail) = path_text lead segs trail"
proof -
  let ?t = "path_text lead segs trail"
  note j = join_clean_last [OF assms]
  have "?t \<noteq> []" using j by (simp add: path_text_def)
  moreover have "(hd ?t = CHR ''/'') = lead" "(last ?t = CHR ''/'') = trail"
    using j by (auto simp: path_text_def)
  ultimately show ?thesis
    using path_segments_text [OF assms] assms(2) strip_fragment_id [OF no_hash_text [OF assms(1)]]
    by (simp add: normalize_path_text Let_def)
qed

lemma normalize_path_root: "normalize_path ''/'' = ''/''"
  by (simp add: normalize_path_def strip_fragment_def split_once_char_def path_segments_def
      path_step_def)

section \<open>Properties\<close>

text \<open>
  C32: Path normalization is idempotent and leaves nothing to traverse: normalizing the result
  again changes nothing, and no piece of it between slashes is a dot segment.
\<close>

theorem normalize_path_idempotent:
  "normalize_path (normalize_path path) = normalize_path path
   \<and> ''.'' \<notin> set (split_on CHR ''/'' (normalize_path path))
   \<and> ''..'' \<notin> set (split_on CHR ''/'' (normalize_path path))"
proof (cases rule: normalize_path_shape [of path])
  case 1
  then show ?thesis by (simp add: normalize_path_root)
next
  case (2 lead segs trail)
  then show ?thesis
    by (auto simp: normalize_path_text_id split_on_path_text list_all_iff clean_segment_def)
qed

end
