(* ===== verification/Normalize.thy ===== *)
theory Normalize
  imports Value_Decode Path_Normalize
begin

text \<open>
  \<^verbatim>\<open>src/pingwaf-waf/src/normalize/mod.rs\<close>: a request becomes the flat list of decoded values
  that the detectors scan: path, query pairs, headers, cookies, body members, and what
  base64 wrapped values unpack to, cut to the limits on number and length.
\<close>

definition MAX_QUERY_PARAMS :: nat where "MAX_QUERY_PARAMS = 256"

definition MAX_DECODED_VALUES :: nat where "MAX_DECODED_VALUES = 2048"

definition MAX_DECODED_VALUE_LEN :: nat where "MAX_DECODED_VALUE_LEN = 8 * 1024"

definition MAX_MULTIPART_PARTS :: nat where "MAX_MULTIPART_PARTS = 64"

definition B64_MAX_DEPTH :: nat where "B64_MAX_DEPTH = 2"

definition B64_MAX_VALUE_LEN :: nat where "B64_MAX_VALUE_LEN = 16384"

definition KEY_SCAN_LEN :: nat where "KEY_SCAN_LEN = 1024"

section \<open>Query, form and cookie pairs\<close>

definition split_pair :: "string \<Rightarrow> string \<times> string" where
  "split_pair pair = (case split_once_char CHR ''='' pair of Some kv \<Rightarrow> kv | None \<Rightarrow> (pair, []))"

text \<open>The values one pair of a query or form contributes.\<close>

definition pair_values :: "norm_env \<Rightarrow> decode_opts \<Rightarrow> ValueSource \<Rightarrow> string \<Rightarrow> string \<Rightarrow> DecodedValue list" where
  "pair_values E opts src key_decoded val_decoded =
     (let unpacked = (if val_decoded = [] then []
                      else unpack_string_json E opts 0 val_decoded key_decoded)
      in if unpacked \<noteq> [] then unpacked
         else (if key_decoded \<noteq> [] \<and> length key_decoded \<le> KEY_SCAN_LEN
               then [field_value src [] key_decoded] else [])
              @ [field_value src key_decoded val_decoded])"

definition decode_pair :: "decode_opts \<Rightarrow> string \<Rightarrow> string \<times> string" where
  "decode_pair opts pair =
     (case split_pair pair of (k, v) \<Rightarrow> (decode_value_form opts k, decode_value_form opts v))"

definition parse_query ::
  "norm_env \<Rightarrow> decode_opts \<Rightarrow> string \<Rightarrow> (string \<times> string) list \<times> DecodedValue list" where
  "parse_query E opts query =
     (if query = [] then ([], [])
      else
        let pairs = filter (\<lambda>p. p \<noteq> []) (take MAX_QUERY_PARAMS (split_on CHR ''&'' query));
            params = map (decode_pair opts) pairs
        in (params, concat (map (\<lambda>(k, v). pair_values E opts QueryParam k v) params)))"

definition parse_form_body :: "norm_env \<Rightarrow> decode_opts \<Rightarrow> string \<Rightarrow> DecodedValue list" where
  "parse_form_body E opts body =
     (if body = [] then []
      else
        let pairs = filter (\<lambda>p. p \<noteq> []) (split_on CHR ''&'' body)
        in concat (map (\<lambda>p. case decode_pair opts p of (k, v) \<Rightarrow> pair_values E opts Body k v) pairs))"

definition parse_cookies ::
  "decode_opts \<Rightarrow> string \<Rightarrow> (string \<times> string) list \<times> DecodedValue list" where
  "parse_cookies opts header =
     (let pairs = filter (\<lambda>p. p \<noteq> []) (map trim_str (split_on CHR '';'' header));
          cookies = map (\<lambda>pair.
            let (k, v) = (case split_once_char CHR ''='' pair of
                            Some (k, v) \<Rightarrow> (trim_str k, trim_str v) | None \<Rightarrow> (pair, []))
            in (multi_decode k (max_decode_layers opts), decode_value opts v)) pairs
      in (cookies, map (\<lambda>(k, v). field_value Cookie k v) cookies))"

section \<open>Multipart bodies\<close>

text \<open>\<^verbatim>\<open>str::split\<close> with a non-empty pattern, and \<^verbatim>\<open>str::lines\<close>.\<close>

function split_str :: "string \<Rightarrow> string \<Rightarrow> string list" where
  "split_str d s =
     (if d = [] then [s]
      else case split_once_str d s of None \<Rightarrow> [s] | Some (a, b) \<Rightarrow> a # split_str d b)"
  by pat_completeness auto
termination
  by (relation "measure (\<lambda>(d, s). length s)") (auto dest: split_once_str_length)

declare split_str.simps [simp del]

definition str_lines :: "string \<Rightarrow> string list" where
  "str_lines s =
     (let ws = split_on CHR 0x0A s
      in map (\<lambda>w. unwrap_or (strip_suffix [CHR 0x0D] w) w) (butlast ws)
         @ (if last ws = [] then [] else [last ws]))"

definition multipart_boundary :: "string \<Rightarrow> string option" where
  "multipart_boundary content_type =
     find_map (\<lambda>param.
         case split_once_char CHR ''='' param of
           None \<Rightarrow> None
         | Some (n, v) \<Rightarrow>
             if \<not> eq_ignore_ascii_case (trim_str n) ''boundary'' then None
             else
               let v' = trim_matches_char CHR 0x22 (trim_str v)
               in if v' \<noteq> [] then Some v' else None)
       (drop 1 (split_on CHR '';'' content_type))"

definition line_part_name :: "string \<Rightarrow> string option" where
  "line_part_name line =
     (case find_str ''name='' (to_ascii_lowercase line) of
        None \<Rightarrow> None
      | Some pos \<Rightarrow>
          let rest = trim_start (drop (pos + 5) line);
              rest' = unwrap_or (strip_prefix [CHR 0x22] rest) rest
          in Some (takeWhile (\<lambda>c. c \<noteq> CHR 0x22) rest'))"

definition multipart_part_name :: "string \<Rightarrow> string" where
  "multipart_part_name head = unwrap_or (find_map line_part_name (str_lines head)) []"

text \<open>The longest prefix of at most \<open>n\<close> bytes that ends at a character boundary.\<close>

fun floor_boundary :: "string \<Rightarrow> nat \<Rightarrow> nat" where
  "floor_boundary s 0 = 0"
| "floor_boundary s (Suc n) = (if boundary (drop (Suc n) s) then Suc n else floor_boundary s n)"

definition truncate_text :: "nat \<Rightarrow> string \<Rightarrow> string" where
  "truncate_text n s = (if n < length s then take (floor_boundary s n) s else s)"

definition part_field :: "decode_opts \<Rightarrow> string \<Rightarrow> DecodedValue option" where
  "part_field opts part0 =
     (let part = unwrap_or (strip_prefix [CHR 0x0D, CHR 0x0A] part0) part0 in
      if part = [] \<or> prefix ''--'' part then None
      else
        case (case split_once_str [CHR 0x0D, CHR 0x0A, CHR 0x0D, CHR 0x0A] part of
                Some hc \<Rightarrow> Some hc | None \<Rightarrow> split_once_str [CHR 0x0A, CHR 0x0A] part) of
          None \<Rightarrow> None
        | Some (head, content) \<Rightarrow>
            let head_lower = to_ascii_lowercase head in
            if contains_str head_lower ''filename='' then None
            else if contains_str head_lower ''content-type:'' \<and> \<not> contains_str head_lower ''text/''
                    \<and> \<not> contains_str head_lower ''json'' \<and> \<not> contains_str head_lower ''xml''
              then None
            else
              let content1 = unwrap_or (strip_suffix [CHR 0x0D, CHR 0x0A] content) content;
                  content2 = unwrap_or (strip_suffix [CHR 0x0A] content1) content1;
                  content3 = truncate_text MAX_DECODED_VALUE_LEN content2
              in Some (field_value Body (multipart_part_name head) (decode_value_form opts content3)))"

definition multipart_fields :: "decode_opts \<Rightarrow> string \<Rightarrow> string \<Rightarrow> DecodedValue list" where
  "multipart_fields opts content_type text =
     (case multipart_boundary content_type of
        None \<Rightarrow> []
      | Some b \<Rightarrow>
          List.map_filter (part_field opts) (take MAX_MULTIPART_PARTS (split_str (''--'' @ b) text)))"

definition body_values :: "norm_env \<Rightarrow> decode_opts \<Rightarrow> string \<Rightarrow> string \<Rightarrow> DecodedValue list" where
  "body_values E opts content_type text =
     (let ctype = to_ascii_lowercase content_type in
      if contains_str ctype ''multipart/form-data'' then
        multipart_fields opts content_type text @ [blob_value (decode_value opts text)]
      else if contains_str ctype ''application/x-www-form-urlencoded'' then
        parse_form_body E opts text
      else if contains_str ctype ''json'' \<or> looks_like_json text then
        blob_value (decode_value opts text) # unpack_json E opts text
      else [blob_value (decode_value opts text)])"

section \<open>Base64 wrapped values\<close>

definition b64_char :: "char \<Rightarrow> bool" where
  "b64_char b \<longleftrightarrow> is_ascii_alphanumeric b \<or> b = CHR ''+'' \<or> b = CHR ''/'' \<or> b = CHR ''=''"

definition is_ascii_graphic :: "char \<Rightarrow> bool" where
  "is_ascii_graphic c \<longleftrightarrow> 33 \<le> byte c \<and> byte c \<le> 126"

definition is_ascii_whitespace :: "char \<Rightarrow> bool" where
  "is_ascii_whitespace c \<longleftrightarrow> c \<in> {CHR '' '', CHR 0x09, CHR 0x0A, CHR 0x0C, CHR 0x0D}"

definition is_ascii_control :: "char \<Rightarrow> bool" where
  "is_ascii_control c \<longleftrightarrow> byte c < 32 \<or> byte c = 127"

definition b64_decode_value :: "norm_env \<Rightarrow> string \<Rightarrow> string option" where
  "b64_decode_value E s =
     (if \<not> list_all b64_char s then None
      else
        let core = trim_end_char CHR ''='' s in
        if length core < 12 then None
        else
          let pad = (4 - length core mod 4) mod 4 in
          if pad = 3 then None
          else
            case b64_engine E (core @ replicate pad CHR ''='') of
              None \<Rightarrow> None
            | Some raw \<Rightarrow>
                if \<not> valid_utf8 raw then None
                else
                  let printable =
                        length (filter (\<lambda>b. is_ascii_graphic b \<or> is_ascii_whitespace b) raw)
                  in if printable * 10 < length raw * 9 then None else Some raw)"

definition stray_control :: "char \<Rightarrow> bool" where
  "stray_control c \<longleftrightarrow> is_ascii_control c \<and> c \<noteq> CHR 0x09 \<and> c \<noteq> CHR 0x0A \<and> c \<noteq> CHR 0x0D"

definition blank_where :: "(char \<Rightarrow> bool) \<Rightarrow> string \<Rightarrow> string" where
  "blank_where p s = (if list_ex p s then map (\<lambda>c. if p c then CHR '' '' else c) s else s)"

definition b64_name :: "string \<Rightarrow> string" where
  "b64_name n = (if n = [] then ''b64'' else n @ ''.b64'')"

text \<open>The body of the loop over one value of a layer: what it pushes.\<close>

definition expand_b64_value :: "norm_env \<Rightarrow> decode_opts \<Rightarrow> DecodedValue \<Rightarrow> DecodedValue list" where
  "expand_b64_value E opts v =
     (if length (decoded v) < 10 \<or> B64_MAX_VALUE_LEN < length (decoded v) then []
      else case b64_decode_value E (decoded v) of
        None \<Rightarrow> []
      | Some d0 \<Rightarrow>
          let d1 = (if contains_str d0 [CHR 0x5C, CHR ''u''] \<or> contains_str d0 [CHR 0x5C, CHR ''x'']
                    then decode_escapes d0 else d0);
              d2 = (if contains_char d1 CHR ''%'' \<or> contains_str d1 ''&#'' then decode_value opts d1 else d1)
          in if d2 = [] \<or> B64_MAX_VALUE_LEN < length d2 then []
             else
               let d3 = blank_where stray_control d2;
                   n = b64_name (name v);
                   strict = (if looks_like_json d3 then unpack_string_json E opts 0 d3 n else []);
                   lenient = (if looks_like_json d3 \<and> list_ex is_ascii_control d3
                              then unpack_string_json E opts 0 (blank_where is_ascii_control d3) n
                              else [])
               in if strict \<noteq> [] then strict
                  else if lenient \<noteq> [] then lenient
                  else [field_value (source v) n d3])"

definition b64_candidate :: "DecodedValue \<Rightarrow> bool" where
  "b64_candidate v \<longleftrightarrow> is_field v \<and> 10 \<le> length (decoded v) \<and> length (decoded v) \<le> B64_MAX_VALUE_LEN
     \<and> list_all b64_char (decoded v)"

text \<open>\<open>k\<close> layers are left; the values before \<open>layer_start\<close> have been expanded.\<close>

fun b64_layers :: "norm_env \<Rightarrow> decode_opts \<Rightarrow> nat \<Rightarrow> nat \<Rightarrow> DecodedValue list \<Rightarrow> DecodedValue list" where
  "b64_layers E opts 0 layer_start vs = vs"
| "b64_layers E opts (Suc k) layer_start vs =
     (if layer_start < length vs then
        (let layer = filter b64_candidate (drop layer_start vs)
         in b64_layers E opts k (length vs) (vs @ concat (map (expand_b64_value E opts) layer)))
      else vs)"

definition expand_base64 :: "norm_env \<Rightarrow> decode_opts \<Rightarrow> DecodedValue list \<Rightarrow> DecodedValue list" where
  "expand_base64 E opts vs = b64_layers E opts B64_MAX_DEPTH 0 vs"

text \<open>The scan for quoted runs: \<open>s\<close> is the rest of the value, \<open>left\<close> how many more may be
  pushed.\<close>

function quoted_runs :: "norm_env \<Rightarrow> nat \<Rightarrow> string \<Rightarrow> string list" where
  "quoted_runs E left s =
     (if left = 0 \<or> length s < 2 then []
      else if hd s \<noteq> CHR 0x22 \<and> hd s \<noteq> CHR 0x27 then quoted_runs E left (tl s)
      else
        let run = takeWhile b64_char (tl s); rest = dropWhile b64_char (tl s) in
        if 16 \<le> length run \<and> rest \<noteq> [] \<and> hd rest = hd s then
          (case b64_decode_value E run of
             Some d \<Rightarrow> d # quoted_runs E (left - 1) (tl rest)
           | None \<Rightarrow> quoted_runs E left (tl rest))
        else quoted_runs E left (drop (max (length run) 1) (tl s)))"
  by pat_completeness auto
termination
proof (relation "measure (\<lambda>(E, left, s). length s)", goal_cases)
  case (3 E left s run rest)
  have "length rest \<le> length (tl s)" unfolding 3(4) by (rule length_dropWhile_le)
  with 3(1) show ?case by auto
next
  case (4 E left s run rest d)
  have "length rest \<le> length (tl s)" unfolding 4(4) by (rule length_dropWhile_le)
  with 4(1) show ?case by auto
qed auto

declare quoted_runs.simps [simp del]

definition expand_b64_substrings :: "norm_env \<Rightarrow> bool \<Rightarrow> DecodedValue list \<Rightarrow> DecodedValue list" where
  "expand_b64_substrings E strict vs =
     (if \<not> strict then vs
      else
        let layer = filter (\<lambda>v. is_field v \<and> \<not> contains_str (name v) ''.b64'' \<and> 16 \<le> length (decoded v)
                      \<and> (contains_char (decoded v) CHR 0x22 \<or> contains_char (decoded v) CHR 0x27)) vs
        in vs @ concat (map (\<lambda>v. map (field_value (source v)
             (if name v = [] then ''b64q'' else name v @ ''.b64q'')) (quoted_runs E 4 (decoded v))) layer))"

section \<open>The request\<close>

record NormalizedRequest =
  nr_method :: string
  nr_path :: string
  nr_full_uri :: string
  nr_query_params :: "(string \<times> string) list"
  nr_headers :: "(string \<times> string) list"
  nr_body :: "string option"
  nr_body_text :: "string option"
  nr_body_inspection :: BodyInspection
  nr_cookies :: "(string \<times> string) list"
  nr_decoded_values :: "DecodedValue list"

definition nr_header :: "NormalizedRequest \<Rightarrow> string \<Rightarrow> string option" where
  "nr_header r n = header_value (nr_headers r) n"

definition nr_host :: "NormalizedRequest \<Rightarrow> string" where
  "nr_host r =
     unwrap_or (case nr_header r ''host'' of Some h \<Rightarrow> Some h | None \<Rightarrow> nr_header r '':authority'') []"

definition nr_user_agent :: "NormalizedRequest \<Rightarrow> string" where
  "nr_user_agent r = unwrap_or (nr_header r ''user-agent'') []"

definition SKIP_HEADERS :: "string list" where
  "SKIP_HEADERS =
     [''cookie'', ''authorization'', ''proxy-authorization'', ''content-length'', ''transfer-encoding'']"

definition join_params :: "(string \<times> string) list \<Rightarrow> string" where
  "join_params params = join_with ''&'' (map (\<lambda>(k, v). k @ ''='' @ v) params)"

text \<open>The loop over the headers: parsed cookies and the values pushed.\<close>

fun header_loop ::
  "decode_opts \<Rightarrow> (string \<times> string) list \<Rightarrow> (string \<times> string) list \<times> DecodedValue list" where
  "header_loop opts [] = ([], [])"
| "header_loop opts ((k, v) # hs) =
     (let (cookies, vs) = header_loop opts hs in
      if eq_ignore_ascii_case k ''cookie'' then
        (case parse_cookies opts v of (cs, cvs) \<Rightarrow> (cs @ cookies, cvs @ vs))
      else if list_ex (eq_ignore_ascii_case k) SKIP_HEADERS then (cookies, vs)
      else (cookies, field_value Header k (decode_value opts v) # vs))"

definition truncate_value :: "DecodedValue \<Rightarrow> DecodedValue" where
  "truncate_value v = v\<lparr>decoded := truncate_text MAX_DECODED_VALUE_LEN (decoded v)\<rparr>"

text \<open>The scan list before the final bounds, then bounded.\<close>

definition raw_values ::
  "norm_env \<Rightarrow> decode_opts \<Rightarrow> string \<Rightarrow> string \<Rightarrow> (string \<times> string) list \<Rightarrow> string option \<Rightarrow> DecodedValue list" where
  "raw_values E opts raw_path raw_query headers body_text1 =
     field_value Path [] (multi_decode raw_path (max_decode_layers opts))
       # snd (parse_query E opts raw_query)
       @ snd (header_loop opts headers)
       @ (case body_text1 of
            None \<Rightarrow> []
          | Some text \<Rightarrow> body_values E opts (unwrap_or (header_value headers ''content-type'') []) text)"

definition normalize_request ::
  "norm_env \<Rightarrow> decode_opts \<Rightarrow> string \<Rightarrow> string \<Rightarrow> string \<Rightarrow> (string \<times> string) list \<Rightarrow> string option
     \<Rightarrow> NormalizedRequest" where
  "normalize_request E opts method1 raw_path raw_query headers body =
     (let normalized_path = normalize_path (multi_decode raw_path (max_decode_layers opts));
          query_params = fst (parse_query E opts raw_query);
          full_uri = normalized_path @
            (if query_params = [] then [] else ''?'' @ join_params query_params);
          decoded_body = map_option (decode_body (codec E) headers) body;
          text = map_option body_text decoded_body;
          insp = (case decoded_body of Some d \<Rightarrow> inspection d | None \<Rightarrow> Inspected);
          values = expand_b64_substrings E (decode_escapes_on opts)
            (expand_base64 E opts (raw_values E opts raw_path raw_query headers text))
      in \<lparr>nr_method = (if list_ex is_ascii_lowercase method1 then to_ascii_uppercase method1 else method1),
          nr_path = normalized_path,
          nr_full_uri = full_uri,
          nr_query_params = query_params,
          nr_headers = headers,
          nr_body = body,
          nr_body_text = text,
          nr_body_inspection = insp,
          nr_cookies = fst (header_loop opts headers),
          nr_decoded_values = map truncate_value (take MAX_DECODED_VALUES values)\<rparr>)"

end
