(* ===== verification/Normalize_Scan.thy ===== *)
theory Normalize_Scan
  imports Normalize
begin

text \<open>
  What the normalized request guarantees to the detectors: the scan list is bounded, every
  value in it is text, every query parameter is in it, and which parts of a request can
  never be in it.
\<close>

section \<open>The scan surface is bounded\<close>

lemma floor_boundary_le: "floor_boundary s n \<le> n"
  by (induction n) (auto simp: le_Suc_eq)

lemma truncate_text_length: "length (truncate_text n s) \<le> n"
  using floor_boundary_le [of s n] by (simp add: truncate_text_def)

lemma normalize_request_bounds:
  "length (nr_decoded_values (normalize_request E opts m p q hs b)) \<le> MAX_DECODED_VALUES"
  "v \<in> set (nr_decoded_values (normalize_request E opts m p q hs b)) \<Longrightarrow>
   length (decoded v) \<le> MAX_DECODED_VALUE_LEN"
  by (auto simp: normalize_request_def Let_def truncate_value_def truncate_text_length)

section \<open>Every decoded value is text\<close>

lemma floor_boundary_boundary: "valid_utf8 s \<Longrightarrow> boundary (drop (floor_boundary s n) s)"
  by (induction n) (auto simp: valid_utf8_boundary)

lemma valid_utf8_truncate: "valid_utf8 s \<Longrightarrow> valid_utf8 (truncate_text n s)"
  unfolding truncate_text_def
  using valid_utf8_split_boundary [of "take (floor_boundary s n) s" "drop (floor_boundary s n) s"]
    floor_boundary_boundary by auto

definition all_text :: "DecodedValue list \<Rightarrow> bool" where
  "all_text vs = list_all (\<lambda>v. valid_utf8 (decoded v)) vs"

lemma all_text_simps [simp]:
  "all_text []" "all_text (v # vs) \<longleftrightarrow> valid_utf8 (decoded v) \<and> all_text vs"
  "all_text (vs @ ws) \<longleftrightarrow> all_text vs \<and> all_text ws"
  by (simp_all add: all_text_def)

lemma all_text_concat: "(\<And>vs. vs \<in> set vss \<Longrightarrow> all_text vs) \<Longrightarrow> all_text (concat vss)"
  by (induction vss) auto

fun json_text :: "json \<Rightarrow> bool" where
  "json_text (JString s) \<longleftrightarrow> valid_utf8 s"
| "json_text (JNumber n) \<longleftrightarrow> valid_utf8 n"
| "json_text (JArray items) \<longleftrightarrow> list_all json_text items"
| "json_text (JObject members) \<longleftrightarrow> list_all (\<lambda>kv. json_text (snd kv)) members"
| "json_text _ \<longleftrightarrow> True"

text \<open>What the JSON parser promises: text in, text out.\<close>

definition json_parser_text :: "norm_env \<Rightarrow> bool" where
  "json_parser_text E \<longleftrightarrow>
     (\<forall>s j. valid_utf8 s \<longrightarrow> json_from_str E s = Some j \<longrightarrow> json_text j)"

lemma valid_utf8_strip_quotes:
  assumes "valid_utf8 s"
  shows "valid_utf8 (strip_quotes s)"
proof (cases "2 \<le> length s \<and> (hd s = CHR 0x27 \<or> hd s = CHR 0x22) \<and> last s = hd s")
  case True
  then obtain q m where s: "s = q # m @ [q]" and q: "q = CHR 0x27 \<or> q = CHR 0x22"
    by (cases s; cases "tl s" rule: rev_cases) auto
  then have a: "is_ascii q" by (auto simp: is_ascii_def)
  with assms s have "valid_utf8 (m @ [q])" by simp
  from valid_utf8_ascii_suffix [OF this] a have "valid_utf8 m" by simp
  with s q show ?thesis by (simp add: strip_quotes_def)
next
  case False
  with assms show ?thesis unfolding strip_quotes_def by (simp only: if_False)
qed

lemma walk_text:
  assumes E: "json_parser_text E"
  shows "json_text v \<Longrightarrow> all_text (fst (walk_json E opts d v path count))"
    and "list_all json_text items \<Longrightarrow> all_text (fst (walk_items E opts d items i path count))"
    and "list_all (\<lambda>kv. json_text (snd kv)) members \<Longrightarrow>
      all_text (fst (walk_members E opts d members path count))"
    and "valid_utf8 s \<Longrightarrow> all_text (unpack_string_json E opts d s path)"
  using E
proof (induction E opts d v path count and E opts d items i path count
    and E opts d members path count and E opts d s path
    rule: walk_json_walk_items_walk_members_unpack_string_json.induct)
  case (1 E opts d v path count)
  then show ?case
    by (subst walk_json.simps)
       (auto simp: Let_def valid_utf8_decode_value is_ascii_def split: json.split)
next
  case (3 E opts d v vs i path count)
  then show ?case by (auto simp: Let_def split: prod.split)
next
  case (5 E opts d k v kvs path count)
  then show ?case by (auto simp: Let_def split: prod.split)
next
  case (6 E opts d s path)
  have v: "valid_utf8 (strip_quotes (trim_str s))"
    using 6(2) by (intro valid_utf8_strip_quotes valid_utf8_trim_str)
  with 6 show ?case
    by (subst unpack_string_json.simps)
       (auto simp: Let_def json_parser_text_def split: option.split)
qed simp_all

lemmas unpack_text = walk_text(4)

lemma pair_values_text:
  "json_parser_text E \<Longrightarrow> valid_utf8 k \<Longrightarrow> valid_utf8 v \<Longrightarrow> all_text (pair_values E opts src k v)"
  by (simp add: pair_values_def Let_def unpack_text)

lemma decode_pair_text:
  assumes "valid_utf8 p" and "decode_pair opts p = (k, v)"
  shows "valid_utf8 k \<and> valid_utf8 v"
proof -
  obtain a b where ab: "split_pair p = (a, b)" by fastforce
  have "valid_utf8 a \<and> valid_utf8 b"
    using ab assms(1)
    by (auto simp: split_pair_def is_ascii_def dest: valid_utf8_split_once split: option.splits)
  with assms(2) ab show ?thesis by (auto simp: decode_pair_def valid_utf8_decode_value_form)
qed

lemma split_amp_text:
  "valid_utf8 q \<Longrightarrow> p \<in> set (split_on CHR ''&'' q) \<Longrightarrow> valid_utf8 p"
  by (rule valid_utf8_split_on) (simp_all add: is_ascii_def)

lemma parse_query_text:
  assumes "json_parser_text E" and "valid_utf8 q"
  shows "all_text (snd (parse_query E opts q))"
proof -
  have "all_text (pair_values E opts QueryParam k v)"
    if "p \<in> set (take MAX_QUERY_PARAMS (split_on CHR ''&'' q))" "decode_pair opts p = (k, v)" for p k v
    using decode_pair_text [OF split_amp_text [OF assms(2) in_set_takeD [OF that(1)]] that(2)]
      pair_values_text [OF assms(1)] by blast
  then show ?thesis
    by (auto simp: parse_query_def Let_def intro!: all_text_concat split: prod.splits)
qed

lemma parse_form_text:
  assumes "json_parser_text E" and "valid_utf8 b"
  shows "all_text (parse_form_body E opts b)"
proof -
  have "all_text (pair_values E opts Body k v)"
    if "p \<in> set (split_on CHR ''&'' b)" "decode_pair opts p = (k, v)" for p k v
    using decode_pair_text [OF split_amp_text [OF assms(2) that(1)] that(2)]
      pair_values_text [OF assms(1)] by blast
  then show ?thesis
    by (auto simp: parse_form_body_def Let_def intro!: all_text_concat split: prod.splits)
qed

lemma parse_cookies_text:
  assumes "valid_utf8 h"
  shows "all_text (snd (parse_cookies opts h))"
proof -
  have "valid_utf8 (decode_value opts v)"
    if "p \<in> set (split_on CHR '';'' h)"
      "(case split_once_char CHR ''='' (trim_str p) of
          Some (k, v) \<Rightarrow> (trim_str k, trim_str v) | None \<Rightarrow> (trim_str p, [])) = (k, v)" for p k v
  proof -
    have "valid_utf8 p" by (rule valid_utf8_split_on [OF _ assms that(1)]) (simp add: is_ascii_def)
    then have t: "valid_utf8 (trim_str p)" by (rule valid_utf8_trim_str)
    have "valid_utf8 v"
      using that(2) valid_utf8_split_once [OF _ _ t]
      by (auto simp: is_ascii_def valid_utf8_trim_str split: option.splits)
    then show ?thesis by (rule valid_utf8_decode_value)
  qed
  then show ?thesis
    by (auto simp: parse_cookies_def Let_def all_text_def list_all_iff split: prod.splits)
qed

lemma header_loop_text:
  "\<forall>(k, v) \<in> set hs. valid_utf8 v \<Longrightarrow> all_text (snd (header_loop opts hs))"
proof (induction hs)
  case (Cons h hs)
  obtain k v where h: "h = (k, v)" by (cases h)
  with Cons.prems have v: "valid_utf8 v" "\<forall>(k, v) \<in> set hs. valid_utf8 v" by auto
  note parts = Cons.IH [OF v(2)] parse_cookies_text [OF v(1), of opts] valid_utf8_decode_value [OF v(1), of opts]
  then show ?case by (auto simp: h Let_def split: prod.split)
qed simp

lemma valid_utf8_split_str:
  "valid_utf8 d \<Longrightarrow> valid_utf8 s \<Longrightarrow> p \<in> set (split_str d s) \<Longrightarrow> valid_utf8 p"
proof (induction d s rule: split_str.induct)
  case (1 d s)
  from 1(4) show ?case
    by (subst (asm) split_str.simps)
       (use 1 in \<open>auto dest: valid_utf8_split_once_str split: if_splits option.splits\<close>)
qed

lemma valid_utf8_strip:
  "valid_utf8 s \<Longrightarrow> valid_utf8 p \<Longrightarrow> valid_utf8 (unwrap_or (strip_prefix p s) s)"
  "valid_utf8 s \<Longrightarrow> \<forall>x \<in> set q. is_ascii x \<Longrightarrow> valid_utf8 (unwrap_or (strip_suffix q s) s)"
  by (auto simp: strip_prefix_def strip_suffix_def prefix_def suffix_def valid_utf8_append
      intro: valid_utf8_ascii_suffix)

lemma newline_text:
  "valid_utf8 [CHR 0x0D, CHR 0x0A]" "valid_utf8 [CHR 0x0A, CHR 0x0A]"
  "valid_utf8 [CHR 0x0D, CHR 0x0A, CHR 0x0D, CHR 0x0A]"
  by (simp_all add: is_ascii_def)

lemma part_field_text:
  assumes "valid_utf8 part" and "part_field opts part = Some v"
  shows "valid_utf8 (decoded v)"
proof -
  let ?p = "unwrap_or (strip_prefix [CHR 0x0D, CHR 0x0A] part) part"
  have p: "valid_utf8 ?p" using assms(1) newline_text(1) by (rule valid_utf8_strip(1))
  from assms(2) obtain head content where
    hc: "(case split_once_str [CHR 0x0D, CHR 0x0A, CHR 0x0D, CHR 0x0A] ?p of
            Some hc \<Rightarrow> Some hc | None \<Rightarrow> split_once_str [CHR 0x0A, CHR 0x0A] ?p) = Some (head, content)"
    and v: "v = field_value Body (multipart_part_name head) (decode_value_form opts
      (truncate_text MAX_DECODED_VALUE_LEN (unwrap_or (strip_suffix [CHR 0x0A]
        (unwrap_or (strip_suffix [CHR 0x0D, CHR 0x0A] content) content))
        (unwrap_or (strip_suffix [CHR 0x0D, CHR 0x0A] content) content))))"
    unfolding part_field_def Let_def by (auto split: if_splits option.splits prod.splits)
  have "valid_utf8 content"
    using hc p valid_utf8_split_once_str newline_text by (fastforce split: option.splits)
  then show ?thesis
    by (simp add: v valid_utf8_decode_value_form valid_utf8_truncate valid_utf8_strip is_ascii_def)
qed

lemma multipart_boundary_text:
  assumes "valid_utf8 ct" and "multipart_boundary ct = Some b"
  shows "valid_utf8 b"
proof -
  from assms(2) obtain param n v where p: "param \<in> set (drop 1 (split_on CHR '';'' ct))"
    "split_once_char CHR ''='' param = Some (n, v)" "b = trim_matches_char CHR 0x22 (trim_str v)"
    unfolding multipart_boundary_def
    by (auto dest!: find_map_Some simp: Let_def split: option.splits if_splits prod.splits)
  have "valid_utf8 param"
    by (rule valid_utf8_split_on [OF _ assms(1) in_set_dropD [OF p(1)]]) (simp add: is_ascii_def)
  with valid_utf8_split_once [OF p(2)] have "valid_utf8 v" by (simp add: is_ascii_def)
  then show ?thesis unfolding p(3) by (simp add: valid_utf8_trim_matches valid_utf8_trim_str is_ascii_def)
qed

lemma multipart_fields_text:
  assumes "valid_utf8 ct" and "valid_utf8 text"
  shows "all_text (multipart_fields opts ct text)"
proof (cases "multipart_boundary ct")
  case (Some b)
  have d: "valid_utf8 (''--'' @ b)" using multipart_boundary_text [OF assms(1) Some] by (simp add: is_ascii_def)
  have "valid_utf8 (decoded v)"
    if "p \<in> set (take MAX_MULTIPART_PARTS (split_str (''--'' @ b) text))" "part_field opts p = Some v" for p v
    using part_field_text [OF valid_utf8_split_str [OF d assms(2) in_set_takeD [OF that(1)]] that(2)] .
  then show ?thesis
    using Some by (auto simp: multipart_fields_def all_text_def list_all_iff List.map_filter_def)
qed (simp add: multipart_fields_def)

lemma unpack_json_text: "json_parser_text E \<Longrightarrow> valid_utf8 b \<Longrightarrow> all_text (unpack_json E opts b)"
  by (auto simp: unpack_json_def json_parser_text_def intro!: walk_text(1) split: option.splits)

lemma body_values_text:
  "json_parser_text E \<Longrightarrow> valid_utf8 ct \<Longrightarrow> valid_utf8 text \<Longrightarrow> all_text (body_values E opts ct text)"
  by (simp add: body_values_def Let_def multipart_fields_text parse_form_text unpack_json_text
      valid_utf8_decode_value)

lemma b64_decode_value_text: "b64_decode_value E s = Some t \<Longrightarrow> valid_utf8 t"
  by (auto simp: b64_decode_value_def Let_def split: if_splits option.splits)

lemma valid_utf8_blank: "valid_utf8 s \<Longrightarrow> (\<And>c. p c \<Longrightarrow> is_ascii c) \<Longrightarrow> valid_utf8 (blank_where p s)"
  by (auto simp: blank_where_def is_ascii_def [of "CHR '' ''"] intro!: valid_utf8_map_ascii)

lemma control_ascii: "is_ascii_control c \<Longrightarrow> is_ascii c" "stray_control c \<Longrightarrow> is_ascii c"
  by (auto simp: is_ascii_control_def stray_control_def is_ascii_def)

lemma expand_b64_value_text:
  assumes "json_parser_text E"
  shows "all_text (expand_b64_value E opts v)"
proof (cases "b64_decode_value E (decoded v)")
  case (Some d0)
  note d0 = b64_decode_value_text [OF Some]
  define d1 where "d1 = (if contains_str d0 [CHR 0x5C, CHR ''u''] \<or> contains_str d0 [CHR 0x5C, CHR ''x'']
                    then decode_escapes d0 else d0)"
  define d2 where "d2 = (if contains_char d1 CHR ''%'' \<or> contains_str d1 ''&#'' then decode_value opts d1 else d1)"
  have "valid_utf8 d1" using d0 by (simp add: d1_def valid_utf8_decode_escapes)
  then have d2: "valid_utf8 d2" by (simp add: d2_def valid_utf8_decode_value)
  have d3: "valid_utf8 (blank_where stray_control d2)"
    by (rule valid_utf8_blank [OF d2 control_ascii(2)])
  have d4: "valid_utf8 (blank_where is_ascii_control (blank_where stray_control d2))"
    by (rule valid_utf8_blank [OF d3 control_ascii(1)])
  show ?thesis
    unfolding expand_b64_value_def Some option.case Let_def d1_def [symmetric] d2_def [symmetric]
    by (simp add: d3 unpack_text [OF assms d3] unpack_text [OF assms d4])
qed (simp add: expand_b64_value_def)

lemma expand_layer_text:
  "json_parser_text E \<Longrightarrow> all_text (concat (map (expand_b64_value E opts) layer))"
  by (auto simp: expand_b64_value_text intro!: all_text_concat)

lemma b64_layers_text: "json_parser_text E \<Longrightarrow> all_text vs \<Longrightarrow> all_text (b64_layers E opts k i vs)"
  by (induction E opts k i vs rule: b64_layers.induct) (simp_all add: Let_def expand_layer_text)

lemma quoted_runs_text: "d \<in> set (quoted_runs E left s) \<Longrightarrow> valid_utf8 d"
proof (induction E left s rule: quoted_runs.induct)
  case (1 E left s)
  from 1(5) show ?case
    by (subst (asm) quoted_runs.simps)
       (use 1 in \<open>auto simp: Let_def dest: b64_decode_value_text split: if_splits option.splits\<close>)
qed

lemma expand_b64_substrings_text: "all_text vs \<Longrightarrow> all_text (expand_b64_substrings E strict vs)"
  by (auto simp: expand_b64_substrings_def Let_def all_text_def list_all_iff dest: quoted_runs_text)

lemma normalize_request_text:
  assumes "json_parser_text E" and "valid_utf8 p" and "valid_utf8 q"
    and "\<forall>(k, v) \<in> set hs. valid_utf8 v"
  shows "all_text (nr_decoded_values (normalize_request E opts m p q hs b))"
proof -
  have ct: "valid_utf8 (unwrap_or (header_value hs ''content-type'') [])"
    using assms(4) by (auto simp: header_value_def unwrap_or_def find_Some_iff split: option.splits)
      (metis (no_types, lifting) case_prodD nth_mem old.prod.case)
  have "all_text (raw_values E opts p q hs (map_option (\<lambda>x. body_text (decode_body (codec E) hs x)) b))"
    using assms ct
    by (auto simp: raw_values_def multi_decode_valid parse_query_text header_loop_text
        body_values_text valid_utf8_decode_body split: option.split)
  then have "all_text (expand_b64_substrings E (decode_escapes_on opts) (expand_base64 E opts
      (raw_values E opts p q hs (map_option (\<lambda>x. body_text (decode_body (codec E) hs x)) b))))"
    by (simp add: expand_b64_substrings_text expand_base64_def b64_layers_text assms(1))
  then show ?thesis
    by (auto simp: normalize_request_def Let_def all_text_def list_all_iff truncate_value_def
        option.map_comp comp_def valid_utf8_truncate dest!: in_set_takeD)
qed

section \<open>What reaches the scan list\<close>

lemma parse_query_covers:
  assumes "(k, v) \<in> set (fst (parse_query E opts q))" and "unpack_string_json E opts 0 v k = []"
  shows "field_value QueryParam k v \<in> set (snd (parse_query E opts q))"
    and "k \<noteq> [] \<Longrightarrow> length k \<le> KEY_SCAN_LEN \<Longrightarrow>
      field_value QueryParam [] k \<in> set (snd (parse_query E opts q))"
proof -
  have "set (pair_values E opts QueryParam k v) \<subseteq> set (snd (parse_query E opts q))"
    using assms(1) by (fastforce simp: parse_query_def Let_def split: if_splits)
  then show "field_value QueryParam k v \<in> set (snd (parse_query E opts q))"
    and "k \<noteq> [] \<Longrightarrow> length k \<le> KEY_SCAN_LEN \<Longrightarrow>
      field_value QueryParam [] k \<in> set (snd (parse_query E opts q))"
    using assms(2) by (auto simp: pair_values_def Let_def)
qed

lemma b64_layers_prefix: "\<exists>ws. b64_layers E opts k i vs = vs @ ws"
proof (induction E opts k i vs rule: b64_layers.induct)
  case (2 E opts k i vs)
  then show ?case by (auto simp: Let_def)
qed simp

lemma expansions_prefix:
  "\<exists>ws. expand_b64_substrings E strict (expand_base64 E opts vs) = vs @ ws"
  using b64_layers_prefix [of E opts B64_MAX_DEPTH 0 vs]
  by (auto simp: expand_b64_substrings_def expand_base64_def Let_def)

definition request_values ::
  "norm_env \<Rightarrow> decode_opts \<Rightarrow> string \<Rightarrow> string \<Rightarrow> (string \<times> string) list \<Rightarrow> string option \<Rightarrow> DecodedValue list" where
  "request_values E opts p q hs b =
     raw_values E opts p q hs (map_option (\<lambda>x. body_text (decode_body (codec E) hs x)) b)"

lemma normalize_request_covers:
  assumes "v \<in> set (request_values E opts p q hs b)"
    and "length (request_values E opts p q hs b) \<le> MAX_DECODED_VALUES"
  shows "truncate_value v \<in> set (nr_decoded_values (normalize_request E opts m p q hs b))"
proof -
  obtain ws where "expand_b64_substrings E (decode_escapes_on opts)
      (expand_base64 E opts (request_values E opts p q hs b)) = request_values E opts p q hs b @ ws"
    using expansions_prefix by blast
  with assms show ?thesis
    by (auto simp: normalize_request_def Let_def request_values_def option.map_comp comp_def)
qed

lemma request_values_query:
  "set (snd (parse_query E opts q)) \<subseteq> set (request_values E opts p q hs b)"
  by (auto simp: request_values_def raw_values_def)

text \<open>Pieces of a query past the limit change nothing.\<close>

lemma parse_query_limit:
  assumes "\<forall>w \<in> set ws. CHR ''&'' \<notin> set w" and "length ws = MAX_QUERY_PARAMS"
    and "\<forall>w \<in> set rest. CHR ''&'' \<notin> set w" and "hd ws \<noteq> []"
  shows "parse_query E opts (join_with ''&'' (ws @ rest)) = parse_query E opts (join_with ''&'' ws)"
proof -
  have ws: "ws \<noteq> []" using assms(2) by (auto simp: MAX_QUERY_PARAMS_def)
  then have "join_with ''&'' (ws @ r) \<noteq> []" for r
    using assms(4) by (cases ws; cases "tl ws"; cases r) (auto simp: join_with_Cons)
  moreover from this [of "[]"] have "join_with ''&'' ws \<noteq> []" by simp
  moreover have "split_on CHR ''&'' (join_with ''&'' (ws @ rest)) = ws @ rest"
    using assms(1,3) ws by (intro split_on_join) auto
  moreover have "split_on CHR ''&'' (join_with ''&'' ws) = ws"
    using assms(1) ws by (intro split_on_join) auto
  ultimately show ?thesis using assms(2) by (simp add: parse_query_def)
qed

text \<open>A plain body: ASCII without the characters any decoder reacts to.\<close>

definition plain_char :: "char \<Rightarrow> bool" where
  "plain_char c \<longleftrightarrow> is_ascii c \<and> c \<noteq> CHR ''%'' \<and> c \<noteq> CHR ''&'' \<and> c \<noteq> CHR 0x5C"

lemma decode_value_plain: "\<forall>c \<in> set s. plain_char c \<Longrightarrow> decode_value opts s = s"
proof -
  assume "\<forall>c \<in> set s. plain_char c"
  then have "CHR ''%'' \<notin> set s" "CHR ''&'' \<notin> set s" "CHR 0x5C \<notin> set s"
    by (auto simp: plain_char_def)
  then show ?thesis by (simp add: decode_value_def multi_decode_def Let_def decode_escapes_id)
qed

lemma truncate_text_plain:
  assumes "\<forall>c \<in> set s. is_ascii c" and "n \<le> length s"
  shows "truncate_text n s = take n s"
proof -
  have "boundary (drop k s)" for k
  proof (cases "drop k s")
    case (Cons c t)
    then have "c \<in> set s" by (metis in_set_dropD list.set_intros(1))
    with assms(1) have "is_ascii c" by blast
    with Cons show ?thesis by (simp add: boundary_def is_ascii_def is_cont_def)
  qed (simp add: boundary_def)
  then have "floor_boundary s n = n" by (cases n) auto
  with assms(2) show ?thesis by (auto simp: truncate_text_def)
qed

text \<open>Scan lists that differ only in blobs with the same scanned prefix.\<close>

definition same_scan :: "DecodedValue \<Rightarrow> DecodedValue \<Rightarrow> bool" where
  "same_scan v w \<longleftrightarrow>
     v = w \<or> (\<not> is_field v \<and> \<not> is_field w \<and> truncate_value v = truncate_value w)"

lemma same_scan_filter:
  "list_all2 same_scan vs ws \<Longrightarrow> (\<And>v. P v \<Longrightarrow> is_field v) \<Longrightarrow> filter P vs = filter P ws"
  by (induction vs ws rule: list_all2_induct) (auto simp: same_scan_def)

lemma same_scan_refl: "list_all2 same_scan vs vs"
  by (induction vs) (auto simp: same_scan_def)

lemma b64_layers_same_scan:
  "list_all2 same_scan vs ws \<Longrightarrow>
   list_all2 same_scan (b64_layers E opts k i vs) (b64_layers E opts k i ws)"
proof (induction k arbitrary: i vs ws)
  case (Suc k)
  have "filter b64_candidate (drop i vs) = filter b64_candidate (drop i ws)"
    by (rule same_scan_filter) (auto simp: Suc.prems list_all2_dropI b64_candidate_def)
  moreover have "length vs = length ws" using Suc.prems by (rule list_all2_lengthD)
  ultimately show ?case
    using Suc.IH [OF list_all2_appendI [OF Suc.prems same_scan_refl]] Suc.prems by (simp add: Let_def)
qed simp

lemma substrings_same_scan:
  assumes "list_all2 same_scan vs ws"
  shows "list_all2 same_scan (expand_b64_substrings E strict vs) (expand_b64_substrings E strict ws)"
proof -
  let ?P = "\<lambda>v. is_field v \<and> \<not> contains_str (name v) ''.b64'' \<and> 16 \<le> length (decoded v)
    \<and> (contains_char (decoded v) CHR 0x22 \<or> contains_char (decoded v) CHR 0x27)"
  have "filter ?P vs = filter ?P ws" by (rule same_scan_filter [OF assms]) simp
  with assms show ?thesis
    by (simp add: expand_b64_substrings_def Let_def same_scan_refl list_all2_appendI)
qed

lemma same_scan_truncate: "list_all2 same_scan vs ws \<Longrightarrow> map truncate_value vs = map truncate_value ws"
  by (induction vs ws rule: list_all2_induct) (auto simp: same_scan_def)

text \<open>Headers under which a body is one blob: no \<^verbatim>\<open>Content-Encoding\<close>, no UTF-16 charset and a content
  type, if any, that is not a form, multipart or JSON.\<close>

definition blob_headers :: "(string \<times> string) list \<Rightarrow> bool" where
  "blob_headers hs \<longleftrightarrow>
     header_value hs ''content-encoding'' = None
     \<and> (case header_value hs ''content-type'' of
          None \<Rightarrow> True
        | Some ct \<Rightarrow>
            charset_of ct \<notin> {Some ''utf-16le'', Some ''utf-16be'', Some ''utf-16''}
            \<and> \<not> contains_str (to_ascii_lowercase ct) ''multipart/form-data''
            \<and> \<not> contains_str (to_ascii_lowercase ct) ''application/x-www-form-urlencoded''
            \<and> \<not> contains_str (to_ascii_lowercase ct) ''json'')"

lemma plain_body_text:
  assumes "\<forall>c \<in> set b. plain_char c" and "blob_headers hs"
  shows "decode_body C hs b = \<lparr>body_text = b, inspection = Inspected\<rparr>"
proof -
  have "valid_utf8 b" using assms by (intro ascii_valid) (simp add: plain_char_def)
  moreover have "\<not> plain_char (CHR 0xFE)" "\<not> plain_char (CHR 0xFF)"
    by (simp_all add: plain_char_def is_ascii_def)
  then have "\<not> prefix [CHR 0xFE, CHR 0xFF] b" "\<not> prefix [CHR 0xFF, CHR 0xFE] b"
    using assms by (auto simp: prefix_def)
  ultimately show ?thesis using assms(2)
    by (auto simp: decode_body_def unsupported_encoding_def decompress_def blob_headers_def
        transcode_to_utf8_def text_from_bytes_def Let_def split: option.splits)
qed

lemma blob_body_values:
  assumes "\<forall>c \<in> set b. plain_char c" and "blob_headers hs" and "\<not> looks_like_json b"
  shows "body_values E opts (unwrap_or (header_value hs ''content-type'') []) b = [blob_value b]"
proof -
  have "\<not> contains_str [] (c # d)" for c d by (simp add: contains_str_def)
  with assms show ?thesis
    by (cases "header_value hs ''content-type''")
       (simp_all add: body_values_def blob_headers_def decode_value_plain to_ascii_lowercase_def [of "[]"])
qed

lemma body_tail_unseen:
  assumes plain: "\<forall>c \<in> set (b @ x). plain_char c" and len: "MAX_DECODED_VALUE_LEN \<le> length b"
    and j: "\<not> looks_like_json b" "\<not> looks_like_json (b @ x)" and hs: "blob_headers hs" "blob_headers hs'"
    and same: "snd (header_loop opts hs') = snd (header_loop opts hs)"
  shows "nr_decoded_values (normalize_request E opts m p q hs' (Some (b @ x)))
      = nr_decoded_values (normalize_request E opts m p q hs (Some b))"
    and "nr_body_inspection (normalize_request E opts m p q hs' (Some (b @ x))) = Inspected"
proof -
  have pb: "\<forall>c \<in> set b. plain_char c" using plain by simp
  note texts = plain_body_text [OF plain hs(2)] plain_body_text [OF pb hs(1)]
  have a: "\<forall>c \<in> set (b @ x). is_ascii c" "\<forall>c \<in> set b. is_ascii c"
    using plain by (auto simp: plain_char_def)
  have "truncate_text MAX_DECODED_VALUE_LEN (b @ x) = truncate_text MAX_DECODED_VALUE_LEN b"
    using truncate_text_plain [OF a(1)] truncate_text_plain [OF a(2)] len by simp
  then have "same_scan (blob_value (b @ x)) (blob_value b)"
    by (simp add: same_scan_def truncate_value_def)
  then have "list_all2 same_scan (raw_values E opts p q hs' (Some (b @ x))) (raw_values E opts p q hs (Some b))"
    by (simp add: raw_values_def same blob_body_values [OF plain hs(2) j(2)] blob_body_values [OF pb hs(1) j(1)]
        same_scan_def [of "field_value _ _ _"] same_scan_refl list_all2_appendI)
  note final = same_scan_truncate [OF list_all2_takeI [OF
      substrings_same_scan [OF b64_layers_same_scan [OF this]]]]
  from final show "nr_decoded_values (normalize_request E opts m p q hs' (Some (b @ x)))
      = nr_decoded_values (normalize_request E opts m p q hs (Some b))"
    by (simp add: normalize_request_def Let_def texts expand_base64_def)
  show "nr_body_inspection (normalize_request E opts m p q hs' (Some (b @ x))) = Inspected"
    by (simp add: normalize_request_def Let_def texts)
qed

text \<open>An encoded parameter is split and decoded back.\<close>

lemma percent_encode_chars:
  "c \<in> set (percent_encode s) \<Longrightarrow> c = CHR ''%'' \<or> is_ascii_hexdigit c"
proof -
  assume "c \<in> set (percent_encode s)"
  then obtain b where "c \<in> {CHR ''%'', hex_digit (byte b div 16), hex_digit (byte b mod 16)}"
    by (auto simp: percent_encode_def split: if_splits)
  moreover have "byte b div 16 < 16" "byte b mod 16 < 16" by (simp_all add: less_mult_imp_div_less)
  ultimately show ?thesis using hex_digit_value by blast
qed

lemma percent_encode_no_delimiter:
  "CHR ''+'' \<notin> set (percent_encode s)" "CHR ''&'' \<notin> set (percent_encode s)"
  by (auto dest!: percent_encode_chars simp: is_ascii_hexdigit_def is_ascii_digit_def)

lemma split_on_absent: "c \<notin> set s \<Longrightarrow> split_on c s = [s]"
  by (induction s) auto

definition param_char :: "char \<Rightarrow> bool" where
  "param_char c \<longleftrightarrow> is_ascii_alphanumeric c \<or> c = CHR ''_''"

lemma param_char_plain: "param_char c \<Longrightarrow> plain_char c \<and> c \<noteq> CHR ''='' \<and> c \<noteq> CHR ''+''"
  by (auto simp: param_char_def plain_char_def is_ascii_def is_ascii_alphanumeric_def
      is_ascii_digit_def is_ascii_lowercase_def is_ascii_uppercase_def)

lemma decode_pair_encoded:
  assumes "\<forall>c \<in> set n. param_char c" and "valid_utf8 s" and "s \<noteq> []" and "CHR ''%'' \<notin> set s"
    and "Suc k \<le> max_decode_layers opts" and "decode_escapes_on opts \<longrightarrow> CHR 0x5C \<notin> set s"
  shows "decode_pair opts (n @ ''='' @ (percent_encode ^^ Suc k) (html_escape s)) = (n, s)"
proof -
  let ?e = "(percent_encode ^^ Suc k) (html_escape s)"
  have n: "\<forall>c \<in> set n. plain_char c" "CHR ''='' \<notin> set n" "CHR ''+'' \<notin> set n"
    using assms(1) param_char_plain by blast+
  have "split_once_char CHR ''='' (n @ ''='' @ ?e) = Some (n, ?e)"
    using split_once_char_append [OF n(2)] by simp
  moreover have "decode_value_form opts ?e = s"
    using percent_encode_no_delimiter(1) decode_value_onion [OF assms(2,3,4,5,6)]
    by (simp add: decode_value_form_def)
  moreover have "decode_value_form opts n = n"
    using n by (simp add: decode_value_form_def decode_value_plain)
  ultimately show ?thesis by (simp add: decode_pair_def split_pair_def)
qed


lemma encoded_query_value:
  assumes "\<forall>c \<in> set n. param_char c" and "valid_utf8 s" and "s \<noteq> []" and "CHR ''%'' \<notin> set s"
    and "Suc k \<le> max_decode_layers opts" and "decode_escapes_on opts \<longrightarrow> CHR 0x5C \<notin> set s"
    and "unpack_string_json E opts 0 s n = []"
  shows "snd (parse_query E opts (n @ ''='' @ (percent_encode ^^ Suc k) (html_escape s)))
     = (if n \<noteq> [] \<and> length n \<le> KEY_SCAN_LEN then [field_value QueryParam [] n] else [])
       @ [field_value QueryParam n s]"
proof -
  let ?q = "n @ ''='' @ (percent_encode ^^ Suc k) (html_escape s)"
  have "CHR ''&'' \<notin> set ?q"
    using assms(1) param_char_plain percent_encode_no_delimiter(2) by (auto simp: plain_char_def)
  then have "split_on CHR ''&'' ?q = [?q]" by (rule split_on_absent)
  then show ?thesis
    using assms(3,7) decode_pair_encoded [OF assms(1-6)]
    by (simp add: parse_query_def MAX_QUERY_PARAMS_def pair_values_def)
qed

section \<open>Properties\<close>

text \<open>
  C27: Whatever the client sends, the scan list has at most 2048 values, each of at most 8 KiB and
  each well-formed text, when path, query and header values are text (as a Rust
  \<^verbatim>\<open>str\<close> always is) and the JSON parser yields text.
\<close>

theorem request_scan_bounded:
  "json_parser_text E \<Longrightarrow> valid_utf8 p \<Longrightarrow> valid_utf8 q \<Longrightarrow> list_all (\<lambda>(k, v). valid_utf8 v) hs \<Longrightarrow>
   length (nr_decoded_values (normalize_request E opts m p q hs b)) \<le> MAX_DECODED_VALUES
   \<and> list_all (\<lambda>v. valid_utf8 (decoded v) \<and> length (decoded v) \<le> MAX_DECODED_VALUE_LEN)
       (nr_decoded_values (normalize_request E opts m p q hs b))"
  using normalize_request_text [of E p q hs opts m b] normalize_request_bounds
  by (auto simp: all_text_def list_all_iff)

definition plain_env :: norm_env where
  "plain_env = \<lparr>codec = identity_codecs, json_from_str = (\<lambda>s. None), b64_engine = (\<lambda>s. None)\<rparr>"

definition sample_opts :: decode_opts where
  "sample_opts = \<lparr>max_decode_layers = 3, decode_escapes_on = True\<rparr>"

theorem request_scan_bounded_witness:
  "list_all (\<lambda>v. valid_utf8 (decoded v) \<and> length (decoded v) \<le> MAX_DECODED_VALUE_LEN)
     (nr_decoded_values (normalize_request plain_env sample_opts ''GET'' ''/a'' ''x=1''
        [(''Host'', ''h'')] None))"
proof -
  have "json_parser_text plain_env" by (simp add: json_parser_text_def plain_env_def)
  moreover have "valid_utf8 ''/a''" "valid_utf8 ''x=1''" "list_all (\<lambda>(k, v). valid_utf8 v) [(''Host'', ''h'')]"
    by code_simp+
  ultimately show ?thesis using request_scan_bounded by blast
qed

lemma encoded_payload_value:
  assumes "\<forall>c \<in> set n. param_char c" and "valid_utf8 s" and "s \<noteq> []" and "CHR ''%'' \<notin> set s"
    and "Suc k \<le> max_decode_layers opts" and "decode_escapes_on opts \<longrightarrow> CHR 0x5C \<notin> set s"
    and "unpack_string_json E opts 0 s n = []" and "length s \<le> MAX_DECODED_VALUE_LEN"
    and "length (request_values E opts p (n @ ''='' @ (percent_encode ^^ Suc k) (html_escape s)) hs b)
      \<le> MAX_DECODED_VALUES"
  shows "field_value QueryParam n s \<in> set (nr_decoded_values (normalize_request E opts m p
     (n @ ''='' @ (percent_encode ^^ Suc k) (html_escape s)) hs b))"
proof -
  let ?q = "n @ ''='' @ (percent_encode ^^ Suc k) (html_escape s)"
  have "field_value QueryParam n s \<in> set (request_values E opts p ?q hs b)"
    using request_values_query [of E opts ?q p hs b] encoded_query_value [OF assms(1-7)] by auto
  then have "truncate_value (field_value QueryParam n s)
      \<in> set (nr_decoded_values (normalize_request E opts m p ?q hs b))"
    by (rule normalize_request_covers) (rule assms(9))
  with assms(8) show ?thesis by (simp add: truncate_value_def truncate_text_def)
qed

text \<open>
  Layered obfuscation of a query parameter does not hide it: a payload escaped as HTML entities
  and then percent-encoded up to the configured number of layers appears in plain text,
  under the parameter's name, among the values the detectors scan (unless it is a JSON
  document, whose members are scanned instead).
\<close>

theorem encoded_payload_scanned:
  "\<forall>c \<in> set n. param_char c \<Longrightarrow> valid_utf8 s \<Longrightarrow> s \<noteq> [] \<Longrightarrow> CHR ''%'' \<notin> set s \<Longrightarrow>
   Suc k \<le> max_decode_layers opts \<Longrightarrow> (decode_escapes_on opts \<longrightarrow> CHR 0x5C \<notin> set s) \<Longrightarrow>
   unpack_string_json E opts 0 s n = [] \<Longrightarrow> length s \<le> MAX_DECODED_VALUE_LEN \<Longrightarrow>
   field_value QueryParam n s \<in> set (nr_decoded_values (normalize_request E opts m p
     (n @ ''='' @ (percent_encode ^^ Suc k) (html_escape s)) [] None))"
proof goal_cases
  case 1
  show ?case
    using encoded_query_value [OF 1(1-7)]
    by (intro encoded_payload_value [OF 1]) (simp add: request_values_def raw_values_def MAX_DECODED_VALUES_def)
qed

theorem encoded_payload_scanned_witness:
  "field_value QueryParam ''q'' ''<script>'' \<in> set (nr_decoded_values
     (normalize_request plain_env sample_opts ''GET'' ''/''
       (''q'' @ ''='' @ (percent_encode ^^ Suc 1) (html_escape ''<script>'')) [] None))"
proof (rule encoded_payload_scanned)
  show "\<forall>c \<in> set ''q''. param_char c" by code_simp
  show "valid_utf8 ''<script>''" by code_simp
  show "unpack_string_json plain_env sample_opts 0 ''<script>'' ''q'' = []"
    by (subst unpack_string_json.simps) (simp add: plain_env_def Let_def)
qed (simp_all add: sample_opts_def MAX_DECODED_VALUE_LEN_def)

text \<open>
  Query pairs past the 256th reach no detector: appending any further pairs to a query of 256
  leaves the parsed parameters and the scanned values as they are.
\<close>

theorem query_tail_unseen:
  "list_all (\<lambda>w. CHR ''&'' \<notin> set w) ws \<Longrightarrow> length ws = MAX_QUERY_PARAMS \<Longrightarrow> hd ws \<noteq> [] \<Longrightarrow>
   list_all (\<lambda>w. CHR ''&'' \<notin> set w) rest \<Longrightarrow>
   normalize_request E opts m p (join_with ''&'' (ws @ rest)) hs b
     = normalize_request E opts m p (join_with ''&'' ws) hs b"
  using parse_query_limit [of ws rest E opts]
  by (simp add: list_all_iff normalize_request_def raw_values_def)

theorem query_tail_unseen_witness:
  "normalize_request plain_env sample_opts ''GET'' ''/''
      (join_with ''&'' (replicate 256 ''a'' @ [''q=<script>''])) [] None
   = normalize_request plain_env sample_opts ''GET'' ''/'' (join_with ''&'' (replicate 256 ''a'')) [] None"
  by (rule query_tail_unseen) (simp_all add: MAX_QUERY_PARAMS_def list_all_iff numeral_eq_Suc)

text \<open>
  C28: The tail of a plain body past 8 KiB is in no value of the scan list, and the request is
  still reported as fully inspected.  Take any two requests for the same target whose bodies
  are \<open>x\<close> and \<open>x\<close> with more text behind it, where \<open>x\<close> has at least 8 KiB, the bodies are ASCII
  without a percent sign, ampersand or backslash and do not look like JSON, and the headers
  declare no content encoding, no UTF-16 charset and no form, multipart or JSON type.  If the
  headers contribute the same values to the scan list (they may differ in \<^verbatim>\<open>Content-Length\<close>, which
  contributes none), both requests give the same scan list, and the longer body has the marker
  \<^verbatim>\<open>Inspected\<close>.
\<close>

theorem body_tail_not_scanned:
  "list_all plain_char (x @ y) \<Longrightarrow> MAX_DECODED_VALUE_LEN \<le> length x \<Longrightarrow>
   \<not> looks_like_json x \<Longrightarrow> \<not> looks_like_json (x @ y) \<Longrightarrow> blob_headers hs \<Longrightarrow> blob_headers hs' \<Longrightarrow>
   snd (header_loop opts hs') = snd (header_loop opts hs) \<Longrightarrow>
   nr_decoded_values (normalize_request E opts m p q hs' (Some (x @ y)))
     = nr_decoded_values (normalize_request E opts m p q hs (Some x))
   \<and> nr_body_inspection (normalize_request E opts m p q hs' (Some (x @ y))) = Inspected"
  using body_tail_unseen [of x y hs hs' opts] by (simp add: list_all_iff)

lemma looks_like_json_word: "\<not> looks_like_json (CHR ''a'' # s)"
proof -
  have "trim_start (CHR ''a'' # s) = CHR ''a'' # s"
    unfolding trim_start_def white_space_code by (subst strip_all.simps) simp
  then show ?thesis by (simp add: looks_like_json_def)
qed

definition note_headers :: "string \<Rightarrow> (string \<times> string) list" where
  "note_headers len = [(''host'', ''shop.example''), (''content-type'', ''text/plain; charset=utf-8''),
     (''content-length'', len)]"

theorem body_tail_not_scanned_witness:
  "nr_decoded_values (normalize_request plain_env sample_opts ''POST'' ''/note'' [] (note_headers ''8200'')
       (Some (replicate 8192 CHR ''a'' @ ''<script>'')))
     = nr_decoded_values (normalize_request plain_env sample_opts ''POST'' ''/note'' [] (note_headers ''8192'')
       (Some (replicate 8192 CHR ''a'')))
   \<and> nr_body_inspection (normalize_request plain_env sample_opts ''POST'' ''/note'' [] (note_headers ''8200'')
       (Some (replicate 8192 CHR ''a'' @ ''<script>''))) = Inspected"
proof -
  have r: "replicate 8192 CHR ''a'' = CHR ''a'' # replicate 8191 CHR ''a''"
    by (metis Suc_numeral replicate_Suc semiring_norm(5) semiring_norm(2) semiring_norm(8))
  have "list_all plain_char (replicate 8192 CHR ''a'')" by (simp add: list_all_length plain_char_def is_ascii_def)
  moreover have "list_all plain_char ''<script>''" by code_simp
  ultimately have "list_all plain_char (replicate 8192 CHR ''a'' @ ''<script>'')" by simp
  moreover have "\<not> looks_like_json (replicate 8192 CHR ''a'')" unfolding r by (rule looks_like_json_word)
  moreover have "\<not> looks_like_json (replicate 8192 CHR ''a'' @ ''<script>'')"
    unfolding r append_Cons by (rule looks_like_json_word)
  moreover have "blob_headers (note_headers ''8192'')" "blob_headers (note_headers ''8200'')"
    "snd (header_loop sample_opts (note_headers ''8200'')) = snd (header_loop sample_opts (note_headers ''8192''))"
    by code_simp+
  ultimately show ?thesis
    using body_tail_not_scanned [of "replicate 8192 CHR ''a''" "''<script>''" "note_headers ''8192''" "note_headers ''8200''" sample_opts]
    by (simp add: MAX_DECODED_VALUE_LEN_def del: replicate.simps)
qed

end
