(* ===== verification/Waf_Types.thy ===== *)
theory Waf_Types
  imports Rust_Text
begin

unbundle bit_operations_syntax

text \<open>
  The public vocabulary of the detection engine (\<^verbatim>\<open>pingwaf-waf/src/lib.rs\<close>) and the attack
  categories of \<^verbatim>\<open>rules/signatures.rs\<close>: detection level, the two bit sets a site uses to
  narrow or downgrade detection, and the action of a verdict.  The bit sets stay words, as the
  code has them; the lemmas read them back as sets of stacks and of categories, which is what
  the downgrade logic of the engine relies on.
\<close>

section \<open>Attack categories and detection level\<close>

datatype AttackCategory =
    SqlInjection | Xss | CommandInjection | PathTraversal | Ssrf
  | Deserialization | CrlfInjection | Xxe | TemplateInjection

fun category_as_str :: "AttackCategory \<Rightarrow> string" where
  "category_as_str SqlInjection = ''sqli''"
| "category_as_str Xss = ''xss''"
| "category_as_str CommandInjection = ''rce''"
| "category_as_str PathTraversal = ''lfi''"
| "category_as_str Ssrf = ''ssrf''"
| "category_as_str Deserialization = ''deser''"
| "category_as_str CrlfInjection = ''crlf''"
| "category_as_str Xxe = ''xxe''"
| "category_as_str TemplateInjection = ''ssti''"

definition all_categories :: "AttackCategory list" where
  "all_categories = [SqlInjection, Xss, CommandInjection, PathTraversal, Ssrf,
     Deserialization, CrlfInjection, Xxe, TemplateInjection]"

lemma all_categories_complete: "c \<in> set all_categories"
  by (cases c) (simp_all add: all_categories_def)

datatype WafLevel = Normal | Strict

fun is_strict :: "WafLevel \<Rightarrow> bool" where
  "is_strict Strict = True"
| "is_strict Normal = False"

fun level_as_str :: "WafLevel \<Rightarrow> string" where
  "level_as_str Normal = ''normal''"
| "level_as_str Strict = ''strict''"

definition level_parse :: "string \<Rightarrow> WafLevel option" where
  "level_parse s =
     (let n = to_ascii_lowercase (trim_str s) in
      if n = ''normal'' then Some Normal
      else if n = ''strict'' then Some Strict
      else None)"

section \<open>Backend stacks\<close>

datatype StackSet = StackSet (stack_bits: u8)

definition stack_generic :: StackSet where "stack_generic = StackSet 1"
definition stack_java :: StackSet where "stack_java = StackSet 2"
definition stack_php :: StackSet where "stack_php = StackSet 4"
definition stack_python :: StackSet where "stack_python = StackSet 8"
definition stack_node :: StackSet where "stack_node = StackSet 16"
definition stack_all :: StackSet where "stack_all = StackSet 31"
definition stack_empty :: StackSet where "stack_empty = StackSet 0"

lemmas stack_consts = stack_generic_def stack_java_def stack_php_def stack_python_def
  stack_node_def stack_all_def stack_empty_def

definition stack_union :: "StackSet \<Rightarrow> StackSet \<Rightarrow> StackSet" where
  "stack_union a b = StackSet (stack_bits a OR stack_bits b)"

definition stack_contains :: "StackSet \<Rightarrow> StackSet \<Rightarrow> bool" where
  "stack_contains a b \<longleftrightarrow> stack_bits a AND stack_bits b = stack_bits b"

definition stack_is_empty :: "StackSet \<Rightarrow> bool" where
  "stack_is_empty a \<longleftrightarrow> stack_bits a = 0"

definition stack_intersects :: "StackSet \<Rightarrow> StackSet \<Rightarrow> bool" where
  "stack_intersects a b \<longleftrightarrow> stack_bits a AND stack_bits b \<noteq> 0"

definition stack_except_generic :: "StackSet \<Rightarrow> StackSet" where
  "stack_except_generic a = StackSet (stack_bits a AND NOT (stack_bits stack_generic))"

definition stack_parse_name :: "string \<Rightarrow> StackSet option" where
  "stack_parse_name name =
     (let n = to_ascii_lowercase (trim_str name) in
      if n = ''generic'' then Some stack_generic
      else if n = ''java'' \<or> n = ''jvm'' then Some stack_java
      else if n = ''php'' then Some stack_php
      else if n = ''python'' then Some stack_python
      else if n = ''node'' \<or> n = ''nodejs'' \<or> n = ''javascript'' \<or> n = ''js''
        then Some stack_node
      else None)"

fun stack_add_names :: "StackSet \<Rightarrow> string list \<Rightarrow> StackSet" where
  "stack_add_names acc [] = acc"
| "stack_add_names acc (name # names) =
     stack_add_names
       (case stack_parse_name name of Some s \<Rightarrow> stack_union acc s | None \<Rightarrow> acc) names"

definition stack_from_names :: "string list \<Rightarrow> StackSet" where
  "stack_from_names names = stack_add_names stack_generic names"

definition stack_from_names_exact :: "string list \<Rightarrow> StackSet" where
  "stack_from_names_exact names = stack_add_names stack_empty names"

text \<open>The bit set read as a set of bit positions.\<close>

definition stacks_of :: "StackSet \<Rightarrow> nat set" where
  "stacks_of s = {i. bit (stack_bits s) i}"

lemma stack_bit_less: "bit w i \<Longrightarrow> i < 8" for w :: u8
  using bit_imp_le_length [of w i] by simp

lemma stacks_of_union [simp]: "stacks_of (stack_union a b) = stacks_of a \<union> stacks_of b"
  by (auto simp: stacks_of_def stack_union_def bit_or_iff)

lemma stack_contains_iff: "stack_contains a b \<longleftrightarrow> stacks_of b \<subseteq> stacks_of a"
  by (auto simp: stack_contains_def stacks_of_def bit_eq_iff bit_and_iff
      dest: stack_bit_less)

lemma stack_is_empty_iff: "stack_is_empty a \<longleftrightarrow> stacks_of a = {}"
  by (auto simp: stack_is_empty_def stacks_of_def bit_eq_iff dest: stack_bit_less)

lemma stack_intersects_iff: "stack_intersects a b \<longleftrightarrow> stacks_of a \<inter> stacks_of b \<noteq> {}"
  by (auto simp: stack_intersects_def stacks_of_def bit_eq_iff bit_and_iff dest: stack_bit_less)

lemma stacks_of_generic: "stacks_of stack_generic = {0}"
  by (auto simp: stacks_of_def stack_generic_def bit_1_iff)

lemma stacks_of_except_generic: "stacks_of (stack_except_generic a) = stacks_of a - {0}"
  by (auto simp: stacks_of_def stack_except_generic_def stack_generic_def bit_and_iff
      bit_not_iff bit_1_iff dest: stack_bit_less)

lemma stacks_of_empty [simp]: "stacks_of stack_empty = {}"
  by (simp add: stacks_of_def stack_empty_def)

lemma stacks_of_add_names:
  "stacks_of (stack_add_names s names) =
     stacks_of s \<union> (\<Union>n \<in> set names. case stack_parse_name n of None \<Rightarrow> {} | Some t \<Rightarrow> stacks_of t)"
  by (induction s names rule: stack_add_names.induct) (auto split: option.splits)

lemma stack_from_names_generic: "stack_contains (stack_from_names names) stack_generic"
  by (simp add: stack_contains_iff stack_from_names_def stacks_of_add_names)

section \<open>Monitor-only attack categories\<close>

datatype CategorySet = CategorySet (category_bits: u16)

definition category_empty :: CategorySet where "category_empty = CategorySet 0"
definition category_all :: CategorySet where "category_all = CategorySet 511"

fun category_bit :: "AttackCategory \<Rightarrow> nat" where
  "category_bit SqlInjection = 0"
| "category_bit Xss = 1"
| "category_bit CommandInjection = 2"
| "category_bit PathTraversal = 3"
| "category_bit Ssrf = 4"
| "category_bit Deserialization = 5"
| "category_bit CrlfInjection = 6"
| "category_bit Xxe = 7"
| "category_bit TemplateInjection = 8"

definition category_singleton :: "AttackCategory \<Rightarrow> CategorySet" where
  "category_singleton c = CategorySet (push_bit (category_bit c) 1)"

definition category_union :: "CategorySet \<Rightarrow> CategorySet \<Rightarrow> CategorySet" where
  "category_union a b = CategorySet (category_bits a OR category_bits b)"

definition category_is_empty :: "CategorySet \<Rightarrow> bool" where
  "category_is_empty a \<longleftrightarrow> category_bits a = 0"

definition contains_category :: "CategorySet \<Rightarrow> AttackCategory \<Rightarrow> bool" where
  "contains_category a c \<longleftrightarrow>
     category_bits a AND category_bits (category_singleton c) \<noteq> 0"

definition category_parse_name :: "string \<Rightarrow> CategorySet option" where
  "category_parse_name name =
     (let n = to_ascii_lowercase (trim_str name) in
      if n = ''sqli'' \<or> n = ''sql_injection'' then Some (category_singleton SqlInjection)
      else if n = ''xss'' then Some (category_singleton Xss)
      else if n = ''rce'' \<or> n = ''command_injection'' then Some (category_singleton CommandInjection)
      else if n = ''lfi'' \<or> n = ''path_traversal'' then Some (category_singleton PathTraversal)
      else if n = ''ssrf'' then Some (category_singleton Ssrf)
      else if n = ''deser'' \<or> n = ''deserialization'' then Some (category_singleton Deserialization)
      else if n = ''crlf'' \<or> n = ''crlf_injection'' then Some (category_singleton CrlfInjection)
      else if n = ''xxe'' then Some (category_singleton Xxe)
      else if n = ''ssti'' \<or> n = ''template_injection''
        then Some (category_singleton TemplateInjection)
      else None)"

fun category_add_names :: "CategorySet \<Rightarrow> string list \<Rightarrow> CategorySet" where
  "category_add_names acc [] = acc"
| "category_add_names acc (name # names) =
     category_add_names
       (case category_parse_name name of Some c \<Rightarrow> category_union acc c | None \<Rightarrow> acc) names"

definition category_from_names :: "string list \<Rightarrow> CategorySet" where
  "category_from_names names = category_add_names category_empty names"

lemma contains_category_iff: "contains_category a c \<longleftrightarrow> bit (category_bits a) (category_bit c)"
proof -
  have lt: "category_bit c < LENGTH(16)" by (cases c) simp_all
  have "category_bits a AND push_bit (category_bit c) 1 \<noteq> 0
      \<longleftrightarrow> bit (category_bits a) (category_bit c)"
    using lt bit_eq_iff [of "category_bits a AND push_bit (category_bit c) 1" 0]
    by (auto simp: bit_and_iff bit_exp_iff)
  then show ?thesis by (simp add: contains_category_def category_singleton_def)
qed

lemma category_bit_inj: "category_bit a = category_bit b \<longleftrightarrow> a = b"
  by (cases a; cases b) simp_all

lemma contains_singleton [simp]: "contains_category (category_singleton c) d \<longleftrightarrow> c = d"
proof -
  have "category_bit c < LENGTH(16)" by (cases c) simp_all
  then show ?thesis
    by (auto simp: contains_category_iff category_singleton_def bit_exp_iff
        category_bit_inj [symmetric])
qed

lemma contains_union [simp]:
  "contains_category (category_union a b) c \<longleftrightarrow> contains_category a c \<or> contains_category b c"
  by (simp add: contains_category_iff category_union_def bit_or_iff)

lemma contains_empty [simp]: "\<not> contains_category category_empty c"
  by (simp add: contains_category_iff category_empty_def)

lemma contains_add_names:
  "contains_category (category_add_names s names) c \<longleftrightarrow>
     contains_category s c \<or>
     (\<exists>n \<in> set names. \<exists>t. category_parse_name n = Some t \<and> contains_category t c)"
  by (induction s names rule: category_add_names.induct) (auto split: option.splits)

section \<open>The action of a verdict\<close>

datatype WafAction = Pass | Monitor | Block | Challenge

fun enforce_action_str :: "WafAction \<Rightarrow> string" where
  "enforce_action_str Pass = ''pass''"
| "enforce_action_str Monitor = ''monitor''"
| "enforce_action_str Block = ''block''"
| "enforce_action_str Challenge = ''challenge''"

lemma category_parse_singleton:
  "category_parse_name n = Some t \<Longrightarrow> contains_category t c \<longleftrightarrow> t = category_singleton c"
  by (auto simp: category_parse_name_def Let_def split: if_splits)

section \<open>Properties\<close>

text \<open>
  C33: The set of monitor-only categories a site configures is read exactly: a category is in the
  parsed set if and only if one of the names denotes it, unknown names adding nothing, and
  the name the engine reports for a category denotes that category.
\<close>

theorem monitor_categories_exact:
  "(contains_category (category_from_names names) c
     \<longleftrightarrow> list_ex (\<lambda>n. category_parse_name n = Some (category_singleton c)) names)
   \<and> category_parse_name (category_as_str c) = Some (category_singleton c)"
proof
  show "contains_category (category_from_names names) c
     \<longleftrightarrow> list_ex (\<lambda>n. category_parse_name n = Some (category_singleton c)) names"
    by (auto simp: category_from_names_def contains_add_names list_ex_iff category_parse_singleton)
      (metis contains_singleton)
  have "list_all (\<lambda>c. to_ascii_lowercase (trim_str (category_as_str c)) = category_as_str c) all_categories"
    by code_simp
  then have "to_ascii_lowercase (trim_str (category_as_str c)) = category_as_str c"
    using all_categories_complete by (simp add: list_all_iff)
  then show "category_parse_name (category_as_str c) = Some (category_singleton c)"
    by (cases c) (simp_all add: category_parse_name_def)
qed

end
