(* ===== verification/Signatures.thy ===== *)
theory Signatures
  imports Waf_Types
begin

text \<open>
  \<^verbatim>\<open>src/pingwaf-waf/src/rules/signatures.rs\<close>, the first detection layer: the built-in needle
  table, its restriction to a level and a set of backend stacks, and the scan that turns
  matches of the automaton into hits.  The automaton of the \<^verbatim>\<open>aho-corasick\<close> crate is a
  parameter; \<open>automaton_law\<close> states the part of its documentation the scan relies on, and
  \<open>reference_find\<close> is a leftmost-longest search that satisfies it.  The lemmas show that the
  table is well-formed, that a hit is a real occurrence reported once per signature, and
  which signatures can never fire beside a twin.
\<close>

section \<open>The needle table\<close>

record SignaturePattern =
  pat_id :: string
  pat_category :: AttackCategory
  pat_severity :: u8
  pat_stack :: StackSet
  pat_strict_only :: bool
  pat_description :: string
  pat_needle :: string

record SignatureHit =
  hit_pattern :: nat
  hit_category :: AttackCategory
  hit_severity :: u8
  hit_offset :: nat
  hit_length :: nat

definition push_pattern ::
  "string \<Rightarrow> AttackCategory \<Rightarrow> u8 \<Rightarrow> string \<Rightarrow> string \<Rightarrow> SignaturePattern" where
  "push_pattern i cat sev desc needle =
     \<lparr>pat_id = i, pat_category = cat, pat_severity = sev, pat_stack = stack_generic,
      pat_strict_only = False, pat_description = desc, pat_needle = needle\<rparr>"

definition push_strict ::
  "string \<Rightarrow> AttackCategory \<Rightarrow> u8 \<Rightarrow> StackSet \<Rightarrow> string \<Rightarrow> string \<Rightarrow> SignaturePattern" where
  "push_strict i cat sev stack desc needle =
     \<lparr>pat_id = i, pat_category = cat, pat_severity = sev, pat_stack = stack,
      pat_strict_only = True, pat_description = desc, pat_needle = needle\<rparr>"

definition path_traversal_patterns :: "SignaturePattern list" where
  "path_traversal_patterns =
     [push_pattern ''PT-001'' PathTraversal 4 ''directory traversal (../)'' ''../'',
      push_pattern ''PT-002'' PathTraversal 4 (''directory traversal (..'' @ [CHR 0x5C] @ '')'') (''..'' @ [CHR 0x5C]),
      push_pattern ''PT-003'' PathTraversal 5 ''etc/passwd access'' ''/etc/passwd'',
      push_pattern ''PT-004'' PathTraversal 5 ''etc/shadow access'' ''/etc/shadow'',
      push_pattern ''PT-005'' PathTraversal 4 ''proc/self enumeration'' ''/proc/self'',
      push_pattern ''PT-006'' PathTraversal 4 ''windows system32 access'' (''windows'' @ [CHR 0x5C] @ ''system32''),
      push_pattern ''PT-007'' PathTraversal 4 ''windows system32 access (forward slash)'' ''/windows/system32'',
      push_pattern ''PT-008'' PathTraversal 3 ''htaccess probe'' ''.htaccess'',
      push_pattern ''PT-009'' PathTraversal 3 ''htpasswd probe'' ''.htpasswd'',
      push_pattern ''PT-010'' PathTraversal 3 ''web.config probe'' ''web.config'',
      push_pattern ''PT-011'' PathTraversal 3 ''boot.ini probe'' ''boot.ini'',
      push_pattern ''PT-012'' PathTraversal 4 ''double-encoded traversal'' ''....//'',
      push_pattern ''PT-013'' PathTraversal 5 ''etc/passwd access (no leading slash)'' ''etc/passwd'',
      push_pattern ''PT-014'' PathTraversal 5 ''etc/shadow access (no leading slash)'' ''etc/shadow'',
      push_pattern ''PT-015'' PathTraversal 4 ''proc/self enumeration (no leading slash)'' ''proc/self'',
      push_pattern ''PT-016'' PathTraversal 5 ''windows win.ini access'' ''win.ini'',
      push_pattern ''PT-017'' PathTraversal 5 ''WEB-INF deployment descriptor dir'' ''web-inf'',
      push_pattern ''PT-020'' PathTraversal 5 ''web.xml deployment descriptor probe'' ''web.xml'',
      push_pattern ''PT-018'' PathTraversal 5 ''Cisco ASA +CSCOE+ traversal'' ''portal_inc.lua'',
      push_pattern ''PT-019'' PathTraversal 5 ''semicolon path traversal'' ''..;/'']"

definition command_injection_patterns1 :: "SignaturePattern list" where
  "command_injection_patterns1 =
     [push_pattern ''CI-001'' CommandInjection 5 ''command substitution $(whoami)'' ''$(whoami)'',
      push_pattern ''CI-002'' CommandInjection 5 ''command substitution $(id)'' ''$(id)'',
      push_pattern ''CI-003'' CommandInjection 4 ''backtick command'' ([CHR 0x60] @ ''id'' @ [CHR 0x60]),
      push_pattern ''CI-004'' CommandInjection 4 ''backtick command (whoami)'' ([CHR 0x60] @ ''whoami'' @ [CHR 0x60]),
      push_pattern ''CI-005'' CommandInjection 4 ''shell pipe to cat'' ''|cat'',
      push_pattern ''CI-006'' CommandInjection 4 ''shell pipe to ls'' ''|ls'',
      push_pattern ''CI-007'' CommandInjection 4 ''shell pipe to wget'' ''|wget'',
      push_pattern ''CI-008'' CommandInjection 4 ''shell pipe to curl'' ''|curl'',
      push_pattern ''CI-009'' CommandInjection 4 ''semicolon chained ls'' '';ls'',
      push_pattern ''CI-010'' CommandInjection 4 ''semicolon chained cat'' '';cat'',
      push_pattern ''CI-011'' CommandInjection 4 ''semicolon chained id'' '';id'',
      push_pattern ''CI-012'' CommandInjection 4 ''semicolon chained wget'' '';wget'',
      push_pattern ''CI-013'' CommandInjection 4 ''semicolon chained curl'' '';curl'',
      push_pattern ''CI-014'' CommandInjection 5 ''&& chained wget'' ''&&wget'',
      push_pattern ''CI-015'' CommandInjection 5 ''&& chained curl'' ''&&curl'',
      push_pattern ''CI-016'' CommandInjection 5 ''|| chained curl'' ''||curl'',
      push_pattern ''CI-017'' CommandInjection 5 ''|| chained wget'' ''||wget'',
      push_pattern ''CI-018'' CommandInjection 4 ''IFS variable'' ''${ifs}'',
      push_pattern ''CI-019'' CommandInjection 5 ''/bin/sh invocation'' ''/bin/sh'',
      push_pattern ''CI-020'' CommandInjection 5 ''/bin/bash invocation'' ''/bin/bash'']"

definition command_injection_patterns2 :: "SignaturePattern list" where
  "command_injection_patterns2 =
     [push_pattern ''CI-021'' CommandInjection 5 ''interactive bash'' ''bash -i'',
      push_pattern ''CI-022'' CommandInjection 5 ''cmd.exe invocation'' ''cmd.exe'',
      push_pattern ''CI-023'' CommandInjection 5 ''powershell invocation'' ''powershell'',
      push_pattern ''CI-024'' CommandInjection 4 ''nc reverse shell'' ''nc -e'',
      push_pattern ''CI-025'' CommandInjection 4 ''newline before /bin/'' ([CHR 0x0A] @ ''/bin/''),
      push_pattern ''CI-026'' CommandInjection 5 ''python os.system call'' ''os.system'',
      push_pattern ''CI-027'' CommandInjection 5 ''python __import__ call'' ''__import__'',
      push_pattern ''CI-028'' CommandInjection 5 ''php shell_exec call'' ''shell_exec('',
      push_pattern ''CI-029'' CommandInjection 5 ''php passthru call'' ''passthru('',
      push_pattern ''CI-030'' CommandInjection 5 ''php proc_open call'' ''proc_open('',
      push_pattern ''CI-031'' CommandInjection 4 ''python subprocess call'' ''subprocess.'',
      push_pattern ''CI-032'' CommandInjection 5 ''powershell invoke-expression'' ''invoke-expression'',
      push_pattern ''CI-033'' CommandInjection 4 ''powershell iex alias'' ''iex ('',
      push_pattern ''CI-034'' CommandInjection 4 ''windows cmd /c chain'' ''cmd /c'',
      push_pattern ''CI-035'' CommandInjection 4 ''windows cmd.exe /c chain'' ''cmd.exe /c'',
      push_pattern ''CI-036'' CommandInjection 5 ''powershell encoded command'' ''powershell -enc'',
      push_pattern ''CI-037'' CommandInjection 4 ''C/PHP system() call'' ''system('',
      push_pattern ''CI-038'' CommandInjection 5 ''shell pipe to whoami'' ''|whoami'',
      push_pattern ''CI-039'' CommandInjection 4 ''semicolon chained whoami'' '';whoami'',
      push_pattern ''CI-040'' CommandInjection 4 ''shell pipe to uname'' ''|uname'']"

definition command_injection_patterns3 :: "SignaturePattern list" where
  "command_injection_patterns3 =
     [push_pattern ''CI-041'' CommandInjection 4 ''backtick command (uname)'' ([CHR 0x60] @ ''uname'' @ [CHR 0x60]),
      push_pattern ''CI-042'' CommandInjection 4 ''semicolon chained uname'' '';uname'',
      push_pattern ''CI-043'' CommandInjection 5 ''Java runtime exec chain'' ''getruntime().exec'',
      push_pattern ''CI-044'' CommandInjection 5 ''Jenkins Groovy sandbox endpoint'' ''securegroovy'',
      push_pattern ''CI-045'' CommandInjection 4 ''spaced command separator'' ''; whoami'',
      push_pattern ''CI-046'' CommandInjection 4 ''spaced command separator'' ''; uname'',
      push_pattern ''CI-047'' CommandInjection 4 ''spaced command separator'' ''; ping '',
      push_pattern ''CI-048'' CommandInjection 4 ''spaced command separator'' ''; curl '',
      push_pattern ''CI-049'' CommandInjection 4 ''spaced command separator'' ''; wget '',
      push_pattern ''CI-04a'' CommandInjection 4 ''spaced command separator'' ''; sleep '',
      push_pattern ''CI-04b'' CommandInjection 4 ''spaced command separator'' ''; echo '',
      push_pattern ''CI-050'' CommandInjection 4 ''piped spaced command'' ''| whoami'',
      push_pattern ''CI-051'' CommandInjection 4 ''piped spaced command'' ''| uname'',
      push_pattern ''CI-052'' CommandInjection 4 ''piped spaced command'' ''| ping '',
      push_pattern ''CI-053'' CommandInjection 4 ''piped spaced command'' ''| curl '',
      push_pattern ''CI-054'' CommandInjection 4 ''piped spaced command'' ''| wget '',
      push_pattern ''CI-055'' CommandInjection 4 ''piped spaced command'' ''| sleep '',
      push_pattern ''CI-060'' CommandInjection 4 ''double-pipe spaced command'' ''|| whoami'',
      push_pattern ''CI-061'' CommandInjection 4 ''double-pipe spaced command'' ''|| uname'']"

definition command_injection_patterns4 :: "SignaturePattern list" where
  "command_injection_patterns4 =
     [push_pattern ''CI-062'' CommandInjection 4 ''double-pipe spaced command'' ''|| ping '',
      push_pattern ''CI-063'' CommandInjection 4 ''double-pipe spaced command'' ''|| curl '',
      push_pattern ''CI-064'' CommandInjection 4 ''double-pipe spaced command'' ''|| wget '',
      push_pattern ''CI-065'' CommandInjection 4 ''double-pipe spaced command'' ''|| sleep '',
      push_pattern ''CI-070'' CommandInjection 4 ''backtick command'' ([CHR 0x60] @ ''ping ''),
      push_pattern ''CI-071'' CommandInjection 4 ''backtick command'' ([CHR 0x60] @ ''curl ''),
      push_pattern ''CI-072'' CommandInjection 4 ''backtick command'' ([CHR 0x60] @ ''wget ''),
      push_pattern ''CI-078'' CommandInjection 5 ''eval(atob()) payload wrapper'' ''eval(atob('',
      push_pattern ''CI-080'' CommandInjection 5 ''LDAP filter injection break'' '')(uid='',
      push_pattern ''CI-081'' CommandInjection 5 ''LDAP filter injection break'' '')(|('',
      push_pattern ''CI-082'' CommandInjection 5 ''LDAP filter injection break'' ''*)(objectclass='',
      push_pattern ''CI-083'' CommandInjection 5 ''chained ping probe'' ''ping -c '',
      push_pattern ''CI-084'' CommandInjection 5 ''OGNL context variable chain'' ''#context.get('',
      push_pattern ''CI-085'' CommandInjection 5 ''PHP code tag'' ''<?php'',
      push_pattern ''CI-086'' CommandInjection 5 ''ThinkPHP invokefunction route'' (''think'' @ [CHR 0x5C] @ ''app/invokefunction''),
      push_pattern ''CI-087'' CommandInjection 5 ''backtick touch command'' ([CHR 0x60] @ ''touch ''),
      push_pattern ''CI-088'' CommandInjection 5 ''DedeCMS runphp template exec'' ''runphp='',
      push_pattern ''CI-089'' CommandInjection 5 ''LDAP filter injection break'' ''*)((|'']"

definition command_injection_patterns5 :: "SignaturePattern list" where
  "command_injection_patterns5 =
     [push_pattern ''CI-090'' CommandInjection 5 ''PHP-CGI ini override flag'' ''allow_url_include'',
      push_pattern ''CI-091'' CommandInjection 5 ''Drupal render-array post_render key'' ''#post_render'',
      push_pattern ''CI-092'' CommandInjection 5 ''Drupal render-array pre_render key'' ''#pre_render'',
      push_pattern ''CI-093'' CommandInjection 5 ''Drupal render-array lazy_builder key'' ''#lazy_builder'',
      push_pattern ''CI-094'' CommandInjection 5 ''Drupal render-array markup key'' ''#markup'',
      push_pattern ''CI-095'' CommandInjection 5 ''Drupal render-array elements key'' ''#elements'',
      push_pattern ''CI-096'' CommandInjection 5 ''ASP scriptlet eval backdoor'' ''<%eval'',
      push_pattern ''CI-097'' CommandInjection 5 ''ASP scriptlet execute backdoor'' ''<%execute'',
      push_pattern ''CI-098'' CommandInjection 5 ''ASP eval-request one-liner'' ''eval request('',
      push_pattern ''CI-099'' CommandInjection 5 ''PHP file write primitive'' ''file_put_contents'',
      push_pattern ''CI-107'' CommandInjection 4 ''piped DNS lookup'' ''||nslookup '',
      push_pattern ''CI-108'' CommandInjection 4 ''piped file write'' ''|touch /'',
      push_pattern ''CI-109'' CommandInjection 5 ''git pager option injection'' ''--open-files-in-pager='',
      push_pattern ''CI-110'' CommandInjection 5 ''git shell option injection'' ''--upload-pack='',
      push_pattern ''CI-111'' CommandInjection 5 ''Lua os library escape'' (''require('' @ [CHR 0x27] @ ''os'' @ [CHR 0x27] @ '')''),
      push_pattern ''CI-112'' CommandInjection 5 ''Lua os library escape'' (''require('' @ [CHR 0x22] @ ''os'' @ [CHR 0x22] @ '')''),
      push_pattern ''CI-113'' CommandInjection 5 ''Java runtime introspection'' ''getruntime()'']"

definition command_injection_patterns6 :: "SignaturePattern list" where
  "command_injection_patterns6 =
     [push_pattern ''CI-114'' CommandInjection 5 ''Nexus EL arithmetic probe (A variant)'' (''$'' @ [CHR 0x5C] @ ''a{''),
      push_pattern ''CI-115'' CommandInjection 5 ''Nexus EL arithmetic probe (B variant)'' (''$'' @ [CHR 0x5C] @ ''b{''),
      push_pattern ''XSS-022'' Xss 5 ''JSFuck invocation prefix'' ''[(+{}+[])'',
      push_pattern ''XSS-023'' Xss 5 ''UTF-7 encoded markup opener'' ''+ADw-'',
      push_pattern ''XSS-024'' Xss 5 ''alert(1) literal probe'' ''alert(1)'']"

definition ssrf_patterns :: "SignaturePattern list" where
  "ssrf_patterns =
     [push_pattern ''SSRF-001'' Ssrf 5 ''AWS metadata endpoint'' ''169.254.169.254'',
      push_pattern ''SSRF-002'' Ssrf 5 ''GCP metadata host'' ''metadata.google'',
      push_pattern ''SSRF-003'' Ssrf 5 ''AWS task metadata'' ''169.254.170.2'',
      push_pattern ''SSRF-004'' Ssrf 4 ''loopback IPv6'' ''[::1]'',
      push_pattern ''SSRF-005'' Ssrf 4 ''loopback IPv4'' ''127.0.0.1'',
      push_pattern ''SSRF-006'' Ssrf 3 ''wildcard IPv4'' ''0.0.0.0'',
      push_pattern ''SSRF-007'' Ssrf 4 ''localhost with port'' ''localhost:'',
      push_pattern ''SSRF-008'' Ssrf 5 ''file:// scheme'' ''file://'',
      push_pattern ''SSRF-009'' Ssrf 5 ''gopher:// scheme'' ''gopher://'',
      push_pattern ''SSRF-010'' Ssrf 5 ''dict:// scheme'' ''dict://'',
      push_pattern ''SSRF-011'' Ssrf 4 ''ldap:// scheme'' ''ldap://'',
      push_pattern ''SSRF-012'' Ssrf 4 ''ftp:// scheme'' ''ftp://'',
      push_pattern ''SSRF-013'' Ssrf 4 ''localhost name'' ''localhost'',
      push_pattern ''SSRF-014'' Ssrf 4 ''loopback IPv4'' ''127.0.0.1'',
      push_pattern ''SSRF-015'' Ssrf 5 ''hex loopback encoding'' ''0x7f000001'',
      push_pattern ''SSRF-016'' Ssrf 5 ''decimal loopback encoding'' ''2130706433'',
      push_pattern ''SSRF-017'' Ssrf 5 ''octal loopback encoding'' ''0177.0.0.1'',
      push_pattern ''SSRF-018'' Ssrf 5 ''Atlassian gadget makeRequest proxy'' ''gadgets/makerequest'']"

definition deserialization_patterns1 :: "SignaturePattern list" where
  "deserialization_patterns1 =
     [push_pattern ''DZ-001'' Deserialization 5 ''Java serialized stream'' ''aced0005'',
      push_pattern ''DZ-002'' Deserialization 5 ''Python __reduce__'' ''__reduce__'',
      push_pattern ''DZ-003'' Deserialization 5 ''Node.js prototype pollution'' ''__proto__'',
      push_pattern ''DZ-004'' Deserialization 4 ''Python class introspection'' ''__class__'',
      push_pattern ''DZ-005'' Deserialization 4 ''PHP magic __wakeup'' '':__wakeup'',
      push_pattern ''DZ-006'' Deserialization 4 ''PHP magic __destruct'' '':__destruct'',
      push_pattern ''DZ-007'' Deserialization 4 ''PHP magic __toString'' '':__tostring'',
      push_pattern ''DZ-008'' Deserialization 5 ''Java Runtime.exec'' ''runtime.exec'',
      push_pattern ''DZ-009'' Deserialization 5 ''Java ProcessBuilder'' ''processbuilder'',
      push_pattern ''DZ-010'' Deserialization 4 ''PHP unserialize call'' ''unserialize('',
      push_pattern ''DZ-011'' Deserialization 4 ''YAML unsafe_load'' ''yaml.unsafe_load'',
      push_pattern ''DZ-012'' Deserialization 4 ''OGNL static class call'' ''@java.lang.'',
      push_pattern ''DZ-013'' Deserialization 4 ''Struts2 context reference'' ''#context='',
      push_pattern ''DZ-014'' Deserialization 4 ''Struts2 attr reference'' ''#attr['',
      push_pattern ''DZ-015'' Deserialization 4 ''Struts2 application reference'' ''#application'',
      push_pattern ''DZ-016'' Deserialization 5 ''getClass().forName gadget chain'' ''getclass().forname'',
      push_pattern ''DZ-017'' Deserialization 5 ''Java serialized object magic (b64)'' ''rO0AB'',
      push_pattern ''DZ-018'' Deserialization 4 ''XStream java element'' ''<java.util.'']"

definition deserialization_patterns2 :: "SignaturePattern list" where
  "deserialization_patterns2 =
     [push_pattern ''DZ-019'' Deserialization 5 ''XStream custom serialization'' (''serialization='' @ [CHR 0x27] @ ''custom'' @ [CHR 0x27])]"

definition xxe_patterns :: "SignaturePattern list" where
  "xxe_patterns =
     [push_pattern ''XXE-001'' Xxe 3 ''DOCTYPE declaration'' ''<!doctype'',
      push_pattern ''XXE-002'' Xxe 5 ''ENTITY declaration'' ''<!entity'',
      push_pattern ''XXE-003'' Xxe 5 ''SYSTEM file: entity'' (''system '' @ [CHR 0x22] @ ''file:''),
      push_pattern ''XXE-004'' Xxe 5 ''SYSTEM file: entity (single-quoted)'' (''system '' @ [CHR 0x27] @ ''file:''),
      push_pattern ''XXE-005'' Xxe 4 ''PUBLIC identifier'' (''public '' @ [CHR 0x22] @ ''-//'')]"

definition crlf_patterns :: "SignaturePattern list" where
  "crlf_patterns =
     [push_pattern ''CRLF-001'' CrlfInjection 4 ''raw CRLF in value'' [CHR 0x0D, CHR 0x0A],
      push_pattern ''CRLF-002'' CrlfInjection 4 ''raw CR in value'' [CHR 0x0D],
      push_pattern ''CRLF-003'' CrlfInjection 5 ''CRLF before set-cookie header'' ([CHR 0x0D, CHR 0x0A] @ ''set-cookie''),
      push_pattern ''CRLF-004'' CrlfInjection 5 ''CRLF before location header'' ([CHR 0x0D, CHR 0x0A] @ ''location:'')]"

definition template_injection_patterns :: "SignaturePattern list" where
  "template_injection_patterns =
     [push_pattern ''TI-001'' TemplateInjection 4 ''Jinja/Twig double brace'' ''{{'',
      push_pattern ''TI-002'' TemplateInjection 4 ''Jinja statement block'' ''{%'',
      push_pattern ''TI-003'' TemplateInjection 4 ''EL/Shell expression'' ''${'',
      push_pattern ''TI-004'' TemplateInjection 4 ''Ruby/JS template hash'' ''#{'',
      push_pattern ''TI-005'' TemplateInjection 4 ''EJS/JSP expression'' ''<%='',
      push_pattern ''TI-006'' TemplateInjection 5 ''Log4Shell JNDI lookup'' ''${jndi:'',
      push_pattern ''TI-007'' TemplateInjection 5 ''Jinja self reference'' ''{{self'',
      push_pattern ''TI-008'' TemplateInjection 5 ''Jinja config leak'' ''{{config'']"

definition sql_injection_patterns1 :: "SignaturePattern list" where
  "sql_injection_patterns1 =
     [push_pattern ''SQL-001'' SqlInjection 5 ''UNION SELECT'' ''union select'',
      push_pattern ''SQL-002'' SqlInjection 5 ''UNION ALL SELECT'' ''union all select'',
      push_pattern ''SQL-003'' SqlInjection 4 ''SLEEP function'' ''sleep('',
      push_pattern ''SQL-004'' SqlInjection 5 ''BENCHMARK function'' ''benchmark('',
      push_pattern ''SQL-005'' SqlInjection 5 ''pg_sleep function'' ''pg_sleep('',
      push_pattern ''SQL-006'' SqlInjection 5 ''waitfor delay'' ''waitfor delay'',
      push_pattern ''SQL-007'' SqlInjection 5 ''load_file function'' ''load_file('',
      push_pattern ''SQL-008'' SqlInjection 5 ''INTO OUTFILE'' ''into outfile'',
      push_pattern ''SQL-009'' SqlInjection 5 ''INTO DUMPFILE'' ''into dumpfile'',
      push_pattern ''SQL-010'' SqlInjection 3 ''information_schema probe'' ''information_schema'',
      push_pattern ''SQL-011'' SqlInjection 3 ''sqlite_master probe'' ''sqlite_master'',
      push_pattern ''SQL-012'' SqlInjection 3 ''pg_catalog probe'' ''pg_catalog'',
      push_pattern ''SQL-013'' SqlInjection 4 ''group_concat aggregation'' ''group_concat('',
      push_pattern ''SQL-014'' SqlInjection 4 ''concat_ws aggregation'' ''concat_ws('',
      push_pattern ''SQL-015'' SqlInjection 4 ''extractvalue function'' ''extractvalue('',
      push_pattern ''SQL-016'' SqlInjection 4 ''updatexml function'' ''updatexml('',
      push_pattern ''SQL-017'' SqlInjection 4 ''DROP TABLE'' ''drop table'',
      push_pattern ''SQL-018'' SqlInjection 4 ''TRUNCATE TABLE'' ''truncate table'',
      push_pattern ''SQL-019'' SqlInjection 4 ''exec xp_cmdshell'' ''xp_cmdshell'',
      push_pattern ''SQL-020'' SqlInjection 5 ''utl_inaddr error-based probe'' ''utl_inaddr'']"

definition sql_injection_patterns2 :: "SignaturePattern list" where
  "sql_injection_patterns2 =
     [push_pattern ''SQL-021'' SqlInjection 5 ''COPY TO PROGRAM exfiltration'' (''to program '' @ [CHR 0x27]),
      push_pattern ''SQL-022'' SqlInjection 5 ''nested CAST((SELECT exfiltration'' ''cast((select'',
      push_pattern ''SQL-023'' SqlInjection 5 ''extractvalue XPATH error-based probe'' ''extractvalue('',
      push_pattern ''SQL-024'' SqlInjection 5 ''or-1-limit tautology truncation'' ''or 1 limit'',
      push_pattern ''SQL-025'' SqlInjection 5 ''xp_dirtree filesystem probe'' ''xp_dirtree'',
      push_pattern ''SQL-026'' SqlInjection 5 ''Oracle dbms_pipe time-based blind'' ''dbms_pipe.receive_message'',
      push_pattern ''SQL-027'' SqlInjection 5 ''updatexml error-based exfiltration'' ''updatexml('']"

definition xss_patterns :: "SignaturePattern list" where
  "xss_patterns =
     [push_pattern ''XSS-001'' Xss 5 ''<script tag'' ''<script'',
      push_pattern ''XSS-002'' Xss 5 ''</script tag'' ''</script'',
      push_pattern ''XSS-003'' Xss 4 ''<iframe tag'' ''<iframe'',
      push_pattern ''XSS-004'' Xss 4 ''<object tag'' ''<object'',
      push_pattern ''XSS-005'' Xss 4 ''<embed tag'' ''<embed'',
      push_pattern ''XSS-006'' Xss 4 ''<svg tag'' ''<svg'',
      push_pattern ''XSS-007'' Xss 5 ''javascript: URI'' ''javascript:'',
      push_pattern ''XSS-008'' Xss 5 ''vbscript: URI'' ''vbscript:'',
      push_pattern ''XSS-009'' Xss 4 ''data:text/html URI'' ''data:text/html'',
      push_pattern ''XSS-010'' Xss 4 ''onerror handler'' ''onerror='',
      push_pattern ''XSS-011'' Xss 4 ''onload handler'' ''onload='',
      push_pattern ''XSS-012'' Xss 4 ''onmouseover handler'' ''onmouseover='',
      push_pattern ''XSS-013'' Xss 4 ''onclick handler'' ''onclick='',
      push_pattern ''XSS-014'' Xss 4 ''onfocus handler'' ''onfocus='',
      push_pattern ''XSS-015'' Xss 3 ''document.cookie access'' ''document.cookie'',
      push_pattern ''XSS-016'' Xss 3 ''window.location assignment'' ''window.location'',
      push_pattern ''XSS-017'' Xss 4 ''CSS expression()'' ''expression('',
      push_pattern ''XSS-018'' Xss 4 ''eval() call'' ''eval('',
      push_pattern ''XSS-019'' Xss 3 ''alert() call'' ''alert('',
      push_pattern ''XSS-020'' Xss 4 ''constructor.prototype chain'' ''constructor.prototype'',
      push_pattern ''XSS-021'' Xss 4 ''JSFuck alphabet'' ''+!![]'']"

definition strict_patterns :: "SignaturePattern list" where
  "strict_patterns =
     [push_strict ''CI-101'' CommandInjection 5 stack_generic ''command substitution (cat)'' ''$(cat'',
      push_strict ''CI-102'' CommandInjection 5 stack_generic ''command substitution (ping)'' ''$(ping'',
      push_strict ''CI-103'' CommandInjection 5 stack_generic ''command substitution (curl)'' ''$(curl'',
      push_strict ''CI-104'' CommandInjection 5 stack_generic ''command substitution (wget)'' ''$(wget'',
      push_strict ''CI-105'' CommandInjection 5 stack_generic ''command substitution (netcat)'' ''$(nc'',
      push_strict ''CI-106'' CommandInjection 5 stack_generic ''command substitution (bash)'' ''$(bash'',
      push_strict ''TI-101'' TemplateInjection 5 stack_java ''Log4j case-normalization lookup'' ''${lower:'',
      push_strict ''TI-102'' TemplateInjection 5 stack_java ''Log4j case-normalization lookup (upper)'' ''${upper:'',
      push_strict ''TI-103'' TemplateInjection 5 stack_java ''Log4j environment lookup'' ''${env:'',
      push_strict ''TI-104'' TemplateInjection 5 stack_java ''Log4j system-property lookup'' ''${sys:'']"

definition stack_for :: "string \<Rightarrow> StackSet" where
  "stack_for i =
     (if i \<in> {''DZ-001'', ''DZ-008'', ''DZ-009'', ''TI-006''} then stack_java
      else if i \<in> {''DZ-002'', ''DZ-004'', ''DZ-011'', ''TI-007''} then stack_python
      else if i \<in> {''DZ-005'', ''DZ-006'', ''DZ-007'', ''DZ-010''} then stack_php
      else if i = ''DZ-003'' then stack_node
      else stack_generic)"

definition builtin_patterns :: "SignaturePattern list" where
  "builtin_patterns =
     map (\<lambda>p. p\<lparr>pat_stack := stack_for (pat_id p)\<rparr>)
       (path_traversal_patterns @ command_injection_patterns1 @ command_injection_patterns2 @
        command_injection_patterns3 @ command_injection_patterns4 @ command_injection_patterns5 @ command_injection_patterns6 @
        ssrf_patterns @ deserialization_patterns1 @ deserialization_patterns2 @ xxe_patterns @
        crlf_patterns @ template_injection_patterns @ sql_injection_patterns1 @ sql_injection_patterns2
        @ xss_patterns)
     @ strict_patterns"

section \<open>The engine\<close>

text \<open>A match of the automaton: pattern index, start, end.\<close>

type_synonym ac_match = "nat \<times> nat \<times> nat"

type_synonym automaton = "string list \<Rightarrow> string \<Rightarrow> ac_match list"

record SignatureEngine =
  aho :: automaton
  patterns :: "SignaturePattern list"

definition for_profile :: "automaton \<Rightarrow> WafLevel \<Rightarrow> StackSet \<Rightarrow> SignatureEngine" where
  "for_profile find_iter level stacks =
     \<lparr>aho = find_iter,
      patterns = filter (\<lambda>p. (is_strict level \<or> \<not> pat_strict_only p)
                            \<and> stack_contains stacks (pat_stack p)) builtin_patterns\<rparr>"

definition signature_engine_new :: "automaton \<Rightarrow> SignatureEngine" where
  "signature_engine_new find_iter = for_profile find_iter Normal stack_all"

definition pattern_count :: "SignatureEngine \<Rightarrow> nat" where
  "pattern_count e = length (patterns e)"

text \<open>Indexing past the table panics: the index is bounded by every automaton that obeys its
  law, and the default of \<open>pattern\<close> is then never read.\<close>

definition pattern :: "SignatureEngine \<Rightarrow> nat \<Rightarrow> SignaturePattern" where
  "pattern e idx =
     (if idx < length (patterns e) then patterns e ! idx
      else push_pattern [] SqlInjection 0 [] [])"

definition pattern_id :: "SignatureEngine \<Rightarrow> nat \<Rightarrow> string" where
  "pattern_id e idx = pat_id (pattern e idx)"

definition needles :: "SignatureEngine \<Rightarrow> string list" where
  "needles e = map pat_needle (patterns e)"

definition numeric_dot :: "char \<Rightarrow> bool" where
  "numeric_dot b \<longleftrightarrow> is_ascii_digit b \<or> b = CHR ''.''"

definition ip_literal_boundary_ok :: "string \<Rightarrow> nat \<Rightarrow> nat \<Rightarrow> bool" where
  "ip_literal_boundary_ok haystack start stop \<longleftrightarrow>
     (let extends = (\<lambda>i. i < length haystack \<and> numeric_dot (haystack ! i))
      in (start = 0 \<or> \<not> extends (start - 1)) \<and> (length haystack \<le> stop \<or> \<not> extends stop))"

definition boundary_rejected :: "SignatureEngine \<Rightarrow> string \<Rightarrow> ac_match \<Rightarrow> bool" where
  "boundary_rejected e haystack m =
     (case m of (pid, s, t) \<Rightarrow>
        pat_category (pattern e pid) = Ssrf \<and> list_all numeric_dot (pat_needle (pattern e pid))
        \<and> \<not> ip_literal_boundary_ok haystack s t)"

definition hit_of :: "SignatureEngine \<Rightarrow> ac_match \<Rightarrow> SignatureHit" where
  "hit_of e m =
     (case m of (pid, s, t) \<Rightarrow>
        \<lparr>hit_pattern = pid, hit_category = pat_category (pattern e pid),
         hit_severity = pat_severity (pattern e pid), hit_offset = s, hit_length = t - s\<rparr>)"

text \<open>The loop over the matches, with the list of patterns already reported.\<close>

fun scan_loop :: "SignatureEngine \<Rightarrow> string \<Rightarrow> nat list \<Rightarrow> ac_match list \<Rightarrow> SignatureHit list" where
  "scan_loop e haystack seen [] = []"
| "scan_loop e haystack seen (m # ms) =
     (if boundary_rejected e haystack m then scan_loop e haystack seen ms
      else if fst m \<in> set seen then scan_loop e haystack seen ms
      else hit_of e m # scan_loop e haystack (seen @ [fst m]) ms)"

definition scan_into :: "SignatureEngine \<Rightarrow> string \<Rightarrow> SignatureHit list" where
  "scan_into e haystack =
     (if haystack = [] then [] else scan_loop e haystack [] (aho e (needles e) haystack))"

text \<open>\<^verbatim>\<open>max_by_key\<close> keeps the last of several maxima.\<close>

fun max_by_severity :: "SignatureHit option \<Rightarrow> SignatureHit list \<Rightarrow> SignatureHit option" where
  "max_by_severity best [] = best"
| "max_by_severity best (h # hs) =
     max_by_severity
       (case best of None \<Rightarrow> Some h
        | Some b \<Rightarrow> if hit_severity b \<le> hit_severity h then Some h else Some b) hs"

definition scan_top :: "SignatureEngine \<Rightarrow> string \<Rightarrow> SignatureHit option" where
  "scan_top e haystack = max_by_severity None (scan_into e haystack)"

section \<open>The automaton\<close>

text \<open>What the crate documents of \<^verbatim>\<open>find_iter\<close> on an automaton that ignores ASCII case and prefers
  the leftmost and there the longest match: every match is an occurrence of its needle, the
  matches are ordered and do not overlap, and no occurrence is passed over: its start lies
  inside a match, and a match that starts there too is at least as long.\<close>

definition occurrence :: "string list \<Rightarrow> string \<Rightarrow> ac_match \<Rightarrow> bool" where
  "occurrence ns haystack m \<longleftrightarrow>
     (case m of (pid, s, t) \<Rightarrow>
        pid < length ns \<and> s \<le> t \<and> t \<le> length haystack
        \<and> eq_ignore_ascii_case (take (t - s) (drop s haystack)) (ns ! pid))"

definition covers :: "ac_match \<Rightarrow> ac_match \<Rightarrow> bool" where
  "covers m' m \<longleftrightarrow>
     (case (m', m) of ((_, s', t'), (_, s, t)) \<Rightarrow> s' \<le> s \<and> s < t' \<and> (s' = s \<longrightarrow> t \<le> t'))"

definition automaton_law :: "automaton \<Rightarrow> bool" where
  "automaton_law find_iter \<longleftrightarrow>
     (\<forall>ns haystack. list_all (\<lambda>n. n \<noteq> []) ns \<longrightarrow>
        list_all (occurrence ns haystack) (find_iter ns haystack)
        \<and> sorted_wrt (\<lambda>m m'. snd (snd m) \<le> fst (snd m')) (find_iter ns haystack)
        \<and> (\<forall>m. occurrence ns haystack m \<longrightarrow> (\<exists>m' \<in> set (find_iter ns haystack). covers m' m)))"

text \<open>A leftmost-longest search: at each position the longest needle, the first of the longest.\<close>

fun longest_needle :: "nat \<Rightarrow> string list \<Rightarrow> string \<Rightarrow> (nat \<times> nat) option" where
  "longest_needle i [] haystack = None"
| "longest_needle i (n # ns) haystack =
     (case longest_needle (Suc i) ns haystack of
        Some (j, len) \<Rightarrow>
          if len \<le> length n \<and> eq_ignore_ascii_case (take (length n) haystack) n
          then Some (i, length n) else Some (j, len)
      | None \<Rightarrow>
          if eq_ignore_ascii_case (take (length n) haystack) n then Some (i, length n) else None)"

function reference_loop :: "string list \<Rightarrow> nat \<Rightarrow> string \<Rightarrow> ac_match list" where
  "reference_loop ns pos haystack =
     (if haystack = [] then []
      else case longest_needle 0 ns haystack of
        Some (pid, len) \<Rightarrow>
          (pid, pos, pos + len) # reference_loop ns (pos + max 1 len) (drop (max 1 len) haystack)
      | None \<Rightarrow> reference_loop ns (Suc pos) (tl haystack))"
  by pat_completeness auto
termination
  by (relation "measure (\<lambda>(ns, pos, haystack). length haystack)") auto

declare reference_loop.simps [simp del]

definition reference_find :: automaton where
  "reference_find ns haystack = reference_loop ns 0 haystack"

lemma longest_needle_Some:
  "longest_needle i ns haystack = Some (j, len) \<Longrightarrow>
   \<exists>k < length ns. j = i + k \<and> len = length (ns ! k) \<and> eq_ignore_ascii_case (take len haystack) (ns ! k)"
proof (induction ns arbitrary: i)
  case (Cons n ns)
  show ?case
  proof (cases "longest_needle (Suc i) ns haystack = Some (j, len)")
    case True
    then obtain k where "k < length ns" "j = Suc i + k" "len = length (ns ! k)"
      "eq_ignore_ascii_case (take len haystack) (ns ! k)" using Cons.IH by blast
    then show ?thesis by (intro exI [of _ "Suc k"]) simp
  next
    case False
    with Cons.prems have "j = i" "len = length n" "eq_ignore_ascii_case (take len haystack) n"
      by (auto split: option.splits if_splits)
    then show ?thesis by (intro exI [of _ 0]) simp
  qed
qed simp

lemma eq_ignore_ascii_case_length: "eq_ignore_ascii_case s t \<Longrightarrow> length s = length t"
  unfolding eq_ignore_ascii_case_def to_ascii_lowercase_def by (metis length_map)

lemma longest_needle_occurrence:
  assumes "longest_needle 0 ns haystack = Some (j, len)"
  shows "occurrence ns haystack (j, 0, len)"
proof -
  from longest_needle_Some [OF assms] have "j < length ns" "len = length (ns ! j)"
    and e: "eq_ignore_ascii_case (take len haystack) (ns ! j)" by auto
  moreover from eq_ignore_ascii_case_length [OF e] have "len \<le> length haystack"
    using \<open>len = length (ns ! j)\<close> by simp
  ultimately show ?thesis by (simp add: occurrence_def)
qed

lemma occurrence_nonempty:
  assumes "occurrence ns haystack m" and "list_all (\<lambda>n. n \<noteq> []) ns"
  shows "fst (snd m) < snd (snd m)"
proof -
  obtain pid s t where m: "m = (pid, s, t)" by (cases m)
  with assms have e: "eq_ignore_ascii_case (take (t - s) (drop s haystack)) (ns ! pid)" "ns ! pid \<noteq> []"
    by (auto simp: occurrence_def list_all_length)
  from eq_ignore_ascii_case_length [OF e(1)] e(2) m show ?thesis by (cases "s < t") auto
qed

text \<open>A match of a suffix is a match of the whole text, moved.\<close>

definition moved :: "nat \<Rightarrow> ac_match \<Rightarrow> ac_match" where
  "moved k m = (case m of (pid, s, t) \<Rightarrow> (pid, s + k, t + k))"

lemma occurrence_moved:
  assumes "occurrence ns (drop k haystack) m" and "k \<le> length haystack"
  shows "occurrence ns haystack (moved k m)"
proof -
  obtain pid s t where m: "m = (pid, s, t)" by (cases m)
  have "drop s (drop k haystack) = drop (s + k) haystack" by simp
  with assms show ?thesis by (auto simp: m occurrence_def moved_def)
qed

lemma reference_loop_moved:
  "reference_loop ns pos haystack = map (moved pos) (reference_loop ns 0 haystack)"
proof -
  have "reference_loop ns (pos + q) haystack = map (moved pos) (reference_loop ns q haystack)" for q
  proof (induction ns q haystack rule: reference_loop.induct)
    case (1 ns q haystack)
    then show ?case
      by (subst (1 2) reference_loop.simps)
         (auto simp: moved_def add_ac split: option.splits)
  qed
  from this [of 0] show ?thesis by simp
qed

lemma reference_loop_step:
  assumes "haystack \<noteq> []"
  shows "reference_loop ns 0 haystack =
        (case longest_needle 0 ns haystack of
           Some (pid, len) \<Rightarrow>
             (pid, 0, len) # map (moved (max 1 len)) (reference_loop ns 0 (drop (max 1 len) haystack))
         | None \<Rightarrow> map (moved 1) (reference_loop ns 0 (drop 1 haystack)))"
  using assms reference_loop_moved [of ns "Suc 0" "tl haystack"]
  by (subst reference_loop.simps)
     (auto simp: drop_Suc reference_loop_moved [of ns "max (Suc 0) _"] split: option.split)

lemma reference_loop_law:
  assumes "list_all (\<lambda>n. n \<noteq> []) ns"
  shows "list_all (occurrence ns haystack) (reference_loop ns 0 haystack)
     \<and> sorted_wrt (\<lambda>m m'. snd (snd m) \<le> fst (snd m')) (reference_loop ns 0 haystack)"
  using assms
proof (induction haystack rule: length_induct)
  case (1 haystack)
  show ?case
  proof (cases "haystack = []")
    case True
    then show ?thesis by (simp add: reference_loop.simps)
  next
    case False
    then have ne: "length (drop k haystack) < length haystack" if "0 < k" for k using that by simp
    have rest: "list_all (occurrence ns haystack) (map (moved k) (reference_loop ns 0 (drop k haystack)))
        \<and> sorted_wrt (\<lambda>m m'. snd (snd m) \<le> fst (snd m')) (map (moved k) (reference_loop ns 0 (drop k haystack)))"
      if "0 < k" "k \<le> length haystack" for k
    proof -
      from 1(1) ne [OF that(1)] 1(2)
      have ih: "list_all (occurrence ns (drop k haystack)) (reference_loop ns 0 (drop k haystack))"
        "sorted_wrt (\<lambda>m m'. snd (snd m) \<le> fst (snd m')) (reference_loop ns 0 (drop k haystack))" by blast+
      then have "list_all (occurrence ns haystack) (map (moved k) (reference_loop ns 0 (drop k haystack)))"
        using that(2) by (auto simp: list_all_iff occurrence_moved)
      moreover have "snd (snd (moved k m)) \<le> fst (snd (moved k m')) \<longleftrightarrow> snd (snd m) \<le> fst (snd m')" for m m'
        by (simp add: moved_def split: prod.split)
      then have "sorted_wrt (\<lambda>m m'. snd (snd m) \<le> fst (snd m')) (map (moved k) (reference_loop ns 0 (drop k haystack)))"
        using ih(2) by (simp add: sorted_wrt_map)
      ultimately show ?thesis ..
    qed
    note step = reference_loop_step [OF False, of ns]
    show ?thesis
    proof (cases "longest_needle 0 ns haystack")
      case None
      with step rest [of 1] False show ?thesis by (simp add: Suc_le_eq)
    next
      case (Some p)
      then obtain pid len where p: "longest_needle 0 ns haystack = Some (pid, len)" by (cases p) simp
      have "len \<le> fst (snd (moved (max 1 len) m))" for m by (cases m) (simp add: moved_def trans_le_add2)
      moreover have o: "occurrence ns haystack (pid, 0, len)" by (rule longest_needle_occurrence [OF p])
      moreover from o False have "max 1 len \<le> length haystack" by (simp add: occurrence_def Suc_le_eq)
      ultimately show ?thesis using step p rest [of "max 1 len"] by simp
    qed
  qed
qed

text \<open>The longest needle at a place is at least as long as every needle there.\<close>

lemma longest_needle_best:
  "k < length ns \<Longrightarrow> eq_ignore_ascii_case (take (length (ns ! k)) haystack) (ns ! k) \<Longrightarrow>
   \<exists>j len. longest_needle i ns haystack = Some (j, len) \<and> length (ns ! k) \<le> len"
proof (induction ns arbitrary: i k)
  case (Cons n ns)
  show ?case
  proof (cases k)
    case 0
    with Cons.prems show ?thesis by (auto split: option.split)
  next
    case (Suc k')
    with Cons obtain j len where "longest_needle (Suc i) ns haystack = Some (j, len)" "length (ns ! k') \<le> len"
      by fastforce
    with Suc show ?thesis by auto
  qed
qed simp

lemma occurrence_start:
  assumes "occurrence ns haystack (pid, 0, t)"
  shows "\<exists>j len. longest_needle 0 ns haystack = Some (j, len) \<and> t \<le> len"
proof -
  from assms have p: "pid < length ns" "t \<le> length haystack" and e: "eq_ignore_ascii_case (take t haystack) (ns ! pid)"
    by (auto simp: occurrence_def)
  from eq_ignore_ascii_case_length [OF e] p(2) have "length (ns ! pid) = t" by simp
  with longest_needle_best [OF p(1), of haystack 0] e show ?thesis by simp
qed

lemma occurrence_drop:
  assumes "occurrence ns haystack (pid, s, t)" and "k \<le> s"
  shows "occurrence ns (drop k haystack) (pid, s - k, t - k)"
proof -
  have "drop (s - k) (drop k haystack) = drop s haystack" using assms(2) by simp
  with assms show ?thesis by (auto simp: occurrence_def)
qed

lemma covers_moved: "k \<le> s \<Longrightarrow> covers m (pid, s - k, t - k) \<Longrightarrow> covers (moved k m) (pid, s, t)"
  by (auto simp: covers_def moved_def split: prod.splits)

lemma reference_loop_covers:
  assumes "list_all (\<lambda>n. n \<noteq> []) ns" and "occurrence ns haystack (pid, s, t)"
  shows "\<exists>m \<in> set (reference_loop ns 0 haystack). covers m (pid, s, t)"
  using assms(2)
proof (induction haystack arbitrary: s t rule: length_induct)
  case (1 haystack)
  have "s < t" using occurrence_nonempty [OF 1(2) assms(1)] by simp
  moreover from 1(2) have "t \<le> length haystack" by (simp add: occurrence_def)
  ultimately have ne: "haystack \<noteq> []" by auto
  have rest: "\<exists>m \<in> set (map (moved k) (reference_loop ns 0 (drop k haystack))). covers m (pid, s, t)"
    if k: "0 < k" "k \<le> s" for k
  proof -
    have "length (drop k haystack) < length haystack" using ne k(1) by simp
    with 1(1) occurrence_drop [OF 1(2) k(2)]
    obtain m where "m \<in> set (reference_loop ns 0 (drop k haystack))" "covers m (pid, s - k, t - k)" by blast
    with covers_moved [OF k(2), of m] show ?thesis by auto
  qed
  show ?case
  proof (cases "longest_needle 0 ns haystack")
    case None
    with occurrence_start [of ns haystack pid t] 1(2) have "1 \<le> s" by (cases s) auto
    with rest [of 1] None show ?thesis by (simp add: reference_loop_step [OF ne])
  next
    case (Some p)
    then obtain j len where p: "longest_needle 0 ns haystack = Some (j, len)" by (cases p) simp
    have len: "0 < len" using occurrence_nonempty [OF longest_needle_occurrence [OF p] assms(1)] by simp
    note step = reference_loop_step [OF ne, of ns, unfolded p, simplified]
    show ?thesis
    proof (cases "s < len")
      case True
      have "s = 0 \<Longrightarrow> t \<le> len" using occurrence_start [of ns haystack pid t] 1(2) p by auto
      with True have "covers (j, 0, len) (pid, s, t)" by (auto simp: covers_def)
      with step show ?thesis by simp
    next
      case False
      with rest [of "max 1 len"] len step show ?thesis by simp
    qed
  qed
qed

lemma reference_find_law: "automaton_law reference_find"
  using reference_loop_covers
  by (fastforce simp: automaton_law_def reference_find_def reference_loop_law)

section \<open>The scan\<close>

text \<open>The declarative reading: the first accepted match of each pattern.\<close>

fun first_reports :: "nat list \<Rightarrow> ac_match list \<Rightarrow> ac_match list" where
  "first_reports seen [] = []"
| "first_reports seen (m # ms) =
     (if fst m \<in> set seen then first_reports seen ms
      else m # first_reports (fst m # seen) ms)"

lemma first_reports_cong: "set seen = set seen' \<Longrightarrow> first_reports seen ms = first_reports seen' ms"
proof (induction ms arbitrary: seen seen')
  case (Cons m ms)
  then have "set (fst m # seen) = set (fst m # seen')" by simp
  from Cons.IH [OF this] Cons.IH [OF Cons.prems] Cons.prems show ?case by simp
qed simp

lemma scan_loop_reports:
  "scan_loop e haystack seen ms =
     map (hit_of e) (first_reports seen (filter (\<lambda>m. \<not> boundary_rejected e haystack m) ms))"
proof (induction e haystack seen ms rule: scan_loop.induct)
  case (2 e haystack seen m ms)
  then show ?case using first_reports_cong [of "seen @ [fst m]" "fst m # seen"] by auto
qed simp

lemma set_first_reports: "set (first_reports seen ms) \<subseteq> set ms"
  by (induction seen ms rule: first_reports.induct) auto

lemma distinct_first_reports:
  "distinct (map fst (first_reports seen ms)) \<and> set (map fst (first_reports seen ms)) = fst ` set ms - set seen"
  by (induction seen ms rule: first_reports.induct) auto

lemma hit_pattern_of [simp]: "hit_pattern (hit_of e m) = fst m"
  by (simp add: hit_of_def split: prod.split)

text \<open>The hit is an occurrence of the needle, with the metadata of its table entry.\<close>

definition hit_ok :: "SignatureEngine \<Rightarrow> string \<Rightarrow> SignatureHit \<Rightarrow> bool" where
  "hit_ok e haystack h \<longleftrightarrow>
     hit_pattern h < pattern_count e
     \<and> hit_category h = pat_category (pattern e (hit_pattern h))
     \<and> hit_severity h = pat_severity (pattern e (hit_pattern h))
     \<and> eq_ignore_ascii_case (take (hit_length h) (drop (hit_offset h) haystack))
         (pat_needle (pattern e (hit_pattern h)))"

lemma hit_of_ok: "occurrence (needles e) haystack m \<Longrightarrow> hit_ok e haystack (hit_of e m)"
  by (auto simp: hit_ok_def hit_of_def occurrence_def needles_def pattern_def pattern_count_def
      split: prod.splits)

lemma scan_into_ok:
  assumes "automaton_law (aho e)" and "list_all (\<lambda>n. n \<noteq> []) (needles e)"
  shows "list_all (hit_ok e haystack) (scan_into e haystack)"
proof -
  have "list_all (occurrence (needles e) haystack) (aho e (needles e) haystack)"
    using assms by (simp add: automaton_law_def)
  then show ?thesis
    using set_first_reports
    by (fastforce simp: scan_into_def scan_loop_reports list_all_iff intro: hit_of_ok)
qed

section \<open>The table\<close>

definition pattern_ok :: "SignaturePattern \<Rightarrow> bool" where
  "pattern_ok p \<longleftrightarrow> 1 \<le> pat_severity p \<and> pat_severity p \<le> 5 \<and> pat_needle p \<noteq> []"

lemma pattern_tables_ok:
  "list_all pattern_ok path_traversal_patterns"
  "list_all pattern_ok command_injection_patterns1"
  "list_all pattern_ok command_injection_patterns2"
  "list_all pattern_ok command_injection_patterns3"
  "list_all pattern_ok command_injection_patterns4"
  "list_all pattern_ok command_injection_patterns5"
  "list_all pattern_ok command_injection_patterns6"
  "list_all pattern_ok ssrf_patterns"
  "list_all pattern_ok deserialization_patterns1"
  "list_all pattern_ok deserialization_patterns2"
  "list_all pattern_ok xxe_patterns"
  "list_all pattern_ok crlf_patterns"
  "list_all pattern_ok template_injection_patterns"
  "list_all pattern_ok sql_injection_patterns1"
  "list_all pattern_ok sql_injection_patterns2"
  "list_all pattern_ok xss_patterns"
  "list_all pattern_ok strict_patterns"
  by (simp_all add: pattern_ok_def push_pattern_def push_strict_def
      path_traversal_patterns_def command_injection_patterns1_def command_injection_patterns2_def
      command_injection_patterns3_def command_injection_patterns4_def command_injection_patterns5_def
      command_injection_patterns6_def ssrf_patterns_def deserialization_patterns1_def
      deserialization_patterns2_def xxe_patterns_def crlf_patterns_def
      template_injection_patterns_def sql_injection_patterns1_def sql_injection_patterns2_def
      xss_patterns_def strict_patterns_def)

lemma pattern_ok_stack [simp]: "pattern_ok (p\<lparr>pat_stack := s\<rparr>) = pattern_ok p"
  by (simp add: pattern_ok_def)

lemma builtin_patterns_ok: "list_all pattern_ok builtin_patterns"
  by (simp add: builtin_patterns_def pattern_tables_ok list.pred_map comp_def)

lemma for_profile_needles: "list_all (\<lambda>n. n \<noteq> []) (needles (for_profile f level stacks))"
  using builtin_patterns_ok by (auto simp: needles_def for_profile_def list_all_iff pattern_ok_def)

text \<open>Matches of non-empty needles start at different places.\<close>

lemma sorted_matches_start:
  fixes ms :: "ac_match list"
  assumes "sorted_wrt (\<lambda>m m'. snd (snd m) \<le> fst (snd m')) ms"
    and "\<forall>m \<in> set ms. fst (snd m) < snd (snd m)"
    and "m \<in> set ms" and "m' \<in> set ms" and "fst (snd m) = fst (snd m')"
  shows "m = m'"
  using assms
proof (induction ms)
  case (Cons a ms)
  have later: "fst (snd a) < fst (snd x)" if "x \<in> set ms" for x
    using Cons.prems(1,2) that by fastforce
  show ?case
  proof (cases "m = a \<or> m' = a")
    case True
    with later Cons.prems(3-5) show ?thesis by fastforce
  next
    case False
    with Cons show ?thesis by simp
  qed
qed simp

text \<open>The entries that a profile keeps.\<close>

definition profile_keeps :: "WafLevel \<Rightarrow> StackSet \<Rightarrow> SignaturePattern \<Rightarrow> bool" where
  "profile_keeps level stacks p \<longleftrightarrow>
     (pat_strict_only p \<longrightarrow> is_strict level) \<and> stack_contains stacks (pat_stack p)"

lemma for_profile_patterns:
  "set (patterns (for_profile f level stacks)) = {p \<in> set builtin_patterns. profile_keeps level stacks p}"
  by (auto simp: for_profile_def profile_keeps_def)

lemma for_profile_pattern:
  "i < pattern_count (for_profile f level stacks) \<Longrightarrow>
   pattern (for_profile f level stacks) i \<in> {p \<in> set builtin_patterns. profile_keeps level stacks p}"
  unfolding for_profile_patterns [symmetric, of level stacks f] by (simp add: pattern_def pattern_count_def)

lemma active_occurrence:
  assumes "p \<in> set builtin_patterns" and "profile_keeps level stacks p"
    and o: "eq_ignore_ascii_case (take (length (pat_needle p)) (drop s haystack)) (pat_needle p)"
  shows "\<exists>i. occurrence (needles (for_profile f level stacks)) haystack (i, s, s + length (pat_needle p))"
proof -
  have "p \<in> set (patterns (for_profile f level stacks))" using assms by (simp add: for_profile_patterns)
  then obtain i where "i < length (patterns (for_profile f level stacks))" "patterns (for_profile f level stacks) ! i = p"
    by (auto simp: in_set_conv_nth)
  moreover have "0 < length (pat_needle p)"
    using builtin_patterns_ok assms(1) by (auto simp: list_all_iff pattern_ok_def)
  then have "s + length (pat_needle p) \<le> length haystack"
    using eq_ignore_ascii_case_length [OF o] unfolding length_take length_drop by linarith
  ultimately show ?thesis using o by (auto simp: occurrence_def needles_def)
qed

lemma scan_reports_accepted:
  assumes "m \<in> set (aho e (needles e) haystack)" and "haystack \<noteq> []"
  shows "fst m \<in> hit_pattern ` set (scan_into e haystack) \<or> boundary_rejected e haystack m"
proof -
  let ?ok = "filter (\<lambda>m. \<not> boundary_rejected e haystack m) (aho e (needles e) haystack)"
  have "hit_pattern ` set (scan_into e haystack) = fst ` set ?ok"
    using distinct_first_reports [of "[]" ?ok] assms(2)
    by (simp add: scan_into_def scan_loop_reports image_image)
  then show ?thesis using assms(1) by auto
qed

lemma scan_into_accepted:
  assumes "automaton_law (aho e)" and "list_all (\<lambda>n. n \<noteq> []) (needles e)" and "h \<in> set (scan_into e haystack)"
  shows "\<not> boundary_rejected e haystack (hit_pattern h, hit_offset h, hit_offset h + hit_length h)"
proof -
  let ?ok = "filter (\<lambda>m. \<not> boundary_rejected e haystack m) (aho e (needles e) haystack)"
  from assms(3) obtain m where "m \<in> set (first_reports [] ?ok)" and h: "h = hit_of e m"
    by (auto simp: scan_into_def scan_loop_reports split: if_splits)
  with set_first_reports have m: "m \<in> set ?ok" by blast
  then have "fst (snd m) < snd (snd m)"
    using assms(1,2) occurrence_nonempty [of "needles e" haystack m]
    by (simp add: automaton_law_def list_all_iff)
  then have "(hit_pattern h, hit_offset h, hit_offset h + hit_length h) = m"
    by (cases m) (simp add: h hit_of_def)
  with m show ?thesis by simp
qed

lemma occurrence_haystack: "occurrence ns haystack m \<Longrightarrow> list_all (\<lambda>n. n \<noteq> []) ns \<Longrightarrow> haystack \<noteq> []"
  using occurrence_nonempty [of ns haystack m] by (auto simp: occurrence_def)

abbreviation pattern_key :: "SignaturePattern \<Rightarrow> string \<times> string \<times> u8" where
  "pattern_key p \<equiv> (pat_id p, pat_needle p, pat_severity p)"

lemma hit_offset_of [simp]: "hit_offset (hit_of e m) = fst (snd m)"
  by (simp add: hit_of_def split: prod.split)

section \<open>Properties\<close>

text \<open>
  C34: What a signature scan with the table of a profile reports.  Every hit names an entry of the
  built-in table that the level and the stacks of the profile keep, carries that entry's
  category and severity, is an occurrence of its needle (ignoring ASCII case) and, for an
  address literal, stands alone; no signature is reported twice; and nothing active is passed
  over: where the needle of an active entry starts, the automaton has a match, at least as long
  if it starts at the same place, whose signature is reported or which is an address literal
  inside a longer number.
\<close>

theorem scan_reports_signatures:
  assumes "automaton_law f" and "e = for_profile f level stacks"
  shows "list_all (\<lambda>h. pattern e (hit_pattern h) \<in> set builtin_patterns
             \<and> profile_keeps level stacks (pattern e (hit_pattern h)) \<and> hit_ok e haystack h
             \<and> \<not> boundary_rejected e haystack (hit_pattern h, hit_offset h, hit_offset h + hit_length h))
           (scan_into e haystack)
       \<and> distinct (map hit_pattern (scan_into e haystack))
       \<and> (\<forall>p s. p \<in> set builtin_patterns \<and> profile_keeps level stacks p
              \<and> eq_ignore_ascii_case (take (length (pat_needle p)) (drop s haystack)) (pat_needle p) \<longrightarrow>
            (\<exists>pid s' t'. occurrence (needles e) haystack (pid, s', t')
               \<and> s' \<le> s \<and> s < t' \<and> (s' = s \<longrightarrow> s + length (pat_needle p) \<le> t')
               \<and> (pid \<in> hit_pattern ` set (scan_into e haystack)
                   \<or> boundary_rejected e haystack (pid, s', t'))))"
proof (intro conjI allI impI)
  have ne: "list_all (\<lambda>n. n \<noteq> []) (needles e)" and aho: "aho e = f"
    using for_profile_needles by (simp_all add: assms(2) for_profile_def)
  show "list_all (\<lambda>h. pattern e (hit_pattern h) \<in> set builtin_patterns
             \<and> profile_keeps level stacks (pattern e (hit_pattern h)) \<and> hit_ok e haystack h
             \<and> \<not> boundary_rejected e haystack (hit_pattern h, hit_offset h, hit_offset h + hit_length h))
           (scan_into e haystack)"
    using scan_into_ok [of e haystack] scan_into_accepted [of e _ haystack] ne aho assms(1)
      for_profile_pattern [of _ f level stacks]
    by (auto simp: list_all_iff hit_ok_def assms(2))
  show "distinct (map hit_pattern (scan_into e haystack))"
    using distinct_first_reports by (simp add: scan_into_def scan_loop_reports comp_def)
  fix p s
  assume "p \<in> set builtin_patterns \<and> profile_keeps level stacks p
    \<and> eq_ignore_ascii_case (take (length (pat_needle p)) (drop s haystack)) (pat_needle p)"
  then have p: "p \<in> set builtin_patterns" "profile_keeps level stacks p"
    and o: "eq_ignore_ascii_case (take (length (pat_needle p)) (drop s haystack)) (pat_needle p)" by blast+
  obtain pid where pid: "occurrence (needles e) haystack (pid, s, s + length (pat_needle p))"
    using active_occurrence [OF p o] assms(2) by blast
  then obtain m where m: "m \<in> set (f (needles e) haystack)" "covers m (pid, s, s + length (pat_needle p))"
    using assms(1) ne unfolding automaton_law_def by blast
  moreover have "occurrence (needles e) haystack m"
    using assms(1) ne m(1) unfolding automaton_law_def list_all_iff by blast
  moreover have "fst m \<in> hit_pattern ` set (scan_into e haystack) \<or> boundary_rejected e haystack m"
    using scan_reports_accepted m(1) occurrence_haystack [OF pid ne] by (simp add: aho)
  ultimately show "\<exists>pid s' t'. occurrence (needles e) haystack (pid, s', t')
      \<and> s' \<le> s \<and> s < t' \<and> (s' = s \<longrightarrow> s + length (pat_needle p) \<le> t')
      \<and> (pid \<in> hit_pattern ` set (scan_into e haystack) \<or> boundary_rejected e haystack (pid, s', t'))"
    by (intro exI [of _ "fst m"] exI [of _ "fst (snd m)"] exI [of _ "snd (snd m)"])
       (simp add: covers_def split: prod.splits)
qed

theorem scan_reports_signatures_witness:
  "automaton_law reference_find
   \<and> (\<exists>pid s' t'. s' \<le> 1 \<and> 1 < t' \<and> (s' = 1 \<longrightarrow> 1 + length ''<script'' \<le> t')
       \<and> (pid \<in> hit_pattern ` set (scan_into (for_profile reference_find Normal stack_generic) ''q<SCRIPT>'')
           \<or> boundary_rejected (for_profile reference_find Normal stack_generic) ''q<SCRIPT>'' (pid, s', t')))"
proof -
  let ?q = "push_pattern ''XSS-001'' Xss 5 ''<script tag'' ''<script''"
  let ?p = "?q\<lparr>pat_stack := stack_for (pat_id ?q)\<rparr>"
  let ?e = "for_profile reference_find Normal stack_generic"
  have "?q \<in> set xss_patterns" by (simp only: xss_patterns_def list.set insert_iff simp_thms)
  moreover have "(\<lambda>p. p\<lparr>pat_stack := stack_for (pat_id p)\<rparr>) ` set xss_patterns \<subseteq> set builtin_patterns"
    unfolding builtin_patterns_def set_append set_map image_Un by blast
  ultimately have "?p \<in> set builtin_patterns" by blast
  moreover have "profile_keeps Normal stack_generic ?p"
    "eq_ignore_ascii_case (take (length (pat_needle ?p)) (drop 1 ''q<SCRIPT>'')) (pat_needle ?p)"
    by code_simp+
  ultimately have "\<exists>pid s' t'. occurrence (needles ?e) ''q<SCRIPT>'' (pid, s', t')
      \<and> s' \<le> 1 \<and> 1 < t' \<and> (s' = 1 \<longrightarrow> 1 + length (pat_needle ?p) \<le> t')
      \<and> (pid \<in> hit_pattern ` set (scan_into ?e ''q<SCRIPT>'') \<or> boundary_rejected ?e ''q<SCRIPT>'' (pid, s', t'))"
    using scan_reports_signatures [OF reference_find_law refl, of Normal stack_generic "''q<SCRIPT>''"] by blast
  moreover have "pat_needle ?p = ''<script''" by (simp add: push_pattern_def)
  ultimately show ?thesis using reference_find_law by (simp only:) blast
qed

text \<open>
  Two signatures with the same needle exclude each other.  The scan reports one hit per
  position, so of the twins \<^verbatim>\<open>SQL-015\<close> and \<^verbatim>\<open>SQL-023\<close>, which register the same text at
  severity 4 and at the critical severity 5 (as do \<^verbatim>\<open>SQL-016\<close> and \<^verbatim>\<open>SQL-027\<close>), at most one
  fires on an occurrence.
\<close>

theorem twin_signatures_exclude:
  "{(''SQL-015'', ''extractvalue('', 4), (''SQL-023'', ''extractvalue('', 5),
     (''SQL-016'', ''updatexml('', 4), (''SQL-027'', ''updatexml('', 5)}
     \<subseteq> set (map pattern_key builtin_patterns)
   \<and> (automaton_law f \<longrightarrow> inj_on hit_offset (set (scan_into (for_profile f level stacks) haystack)))"
proof (intro conjI impI inj_onI)
  have "set (map pattern_key sql_injection_patterns1) \<union> set (map pattern_key sql_injection_patterns2)
      \<subseteq> set (map pattern_key builtin_patterns)"
    by (simp add: builtin_patterns_def image_Un image_image) blast
  moreover have "{(''SQL-015'', ''extractvalue('', 4), (''SQL-016'', ''updatexml('', 4)}
      \<subseteq> set (map pattern_key sql_injection_patterns1)"
    by (simp add: sql_injection_patterns1_def push_pattern_def)
  moreover have "{(''SQL-023'', ''extractvalue('', 5), (''SQL-027'', ''updatexml('', 5)}
      \<subseteq> set (map pattern_key sql_injection_patterns2)"
    by (simp add: sql_injection_patterns2_def push_pattern_def)
  ultimately show "{(''SQL-015'', ''extractvalue('', 4), (''SQL-023'', ''extractvalue('', 5),
     (''SQL-016'', ''updatexml('', 4), (''SQL-027'', ''updatexml('', 5)}
     \<subseteq> set (map pattern_key builtin_patterns)" by blast
next
  let ?e = "for_profile f level stacks"
  let ?ms = "aho ?e (needles ?e) haystack"
  fix h h'
  assume law: "automaton_law f" and h: "h \<in> set (scan_into ?e haystack)" "h' \<in> set (scan_into ?e haystack)"
    and o: "hit_offset h = hit_offset h'"
  have aho: "aho ?e = f" by (simp add: for_profile_def)
  have ms: "list_all (occurrence (needles ?e) haystack) ?ms"
    "sorted_wrt (\<lambda>m m'. snd (snd m) \<le> fst (snd m')) ?ms"
    using law for_profile_needles unfolding aho automaton_law_def by blast+
  have "\<forall>m \<in> set ?ms. fst (snd m) < snd (snd m)"
    using ms(1) occurrence_nonempty [OF _ for_profile_needles] by (auto simp: list_all_iff)
  note start = sorted_matches_start [OF ms(2) this]
  have "\<exists>m \<in> set ?ms. x = hit_of ?e m" if "x \<in> set (scan_into ?e haystack)" for x
    using that set_first_reports
    by (fastforce simp: scan_into_def scan_loop_reports split: if_splits)
  with h obtain m m' where m: "m \<in> set ?ms" "m' \<in> set ?ms" "h = hit_of ?e m" "h' = hit_of ?e m'" by blast
  with o have "m = m'" by (intro start) simp_all
  with m show "h = h'" by simp
qed

theorem twin_signatures_exclude_witness:
  "inj_on hit_offset (set (scan_into (for_profile reference_find Normal stack_all) ''extractvalue(1''))"
  using twin_signatures_exclude [of reference_find Normal stack_all "''extractvalue(1''"] reference_find_law
  by blast

end
