(* ===== verification/Detectors.thy ===== *)
theory Detectors
  imports Waf_Types
begin

text \<open>
  \<^verbatim>\<open>src/pingwaf-waf/src/rules/signatures.rs\<close>, the second detection layer: the fingerprinting
  tokenizer for SQL, the detectors built on regular expressions, the structural detector for
  template expressions and the shapes that tell a statement from a search phrase.  The
  \<^verbatim>\<open>regex\<close> and \<^verbatim>\<open>aho-corasick\<close> crates are parameters; the expressions themselves are part of
  the model.
\<close>

section \<open>Regular expressions and needles\<close>

text \<open>Matching a pattern text, replacing all its matches, and the test of an automaton.\<close>

record matchers =
  is_match :: "string \<Rightarrow> string \<Rightarrow> bool"
  replace_all :: "string \<Rightarrow> string \<Rightarrow> string \<Rightarrow> string"
  ac_is_match :: "string list \<Rightarrow> string \<Rightarrow> bool"

text \<open>In the pattern texts below a tilde stands for the backslash.\<close>

definition raw :: "string \<Rightarrow> string" where
  "raw s = map (\<lambda>c. if c = CHR ''~'' then CHR 0x5C else c) s"

definition SQLI_UNION_SELECT :: string where
  "SQLI_UNION_SELECT = raw ''(?i)~bunion~b[~s/*!]+(?:~ball~b[~s/*!]+)?~bselect~b''"

definition SQLI_UNION_COMMENT_SPLIT :: string where
  "SQLI_UNION_COMMENT_SPLIT = raw ''(?i)~bunion(?:#|--)[~s~S]{0,64}?~bselect(?:[^a-z]|$)''"

definition SQLI_STACKED :: string where
  "SQLI_STACKED = raw ''(?i);~s*(?:select|insert|update|delete|drop|alter|create|truncate|exec|execute|grant|revoke|declare|begin|shutdown)~b''"

definition SQLI_DANGEROUS_FN :: string where
  "SQLI_DANGEROUS_FN = raw ''(?i)~b(?:sleep|benchmark|pg_sleep|waitfor|load_file|extractvalue|updatexml|xp_cmdshell|sp_executesql)~s*~(''"

definition SQLI_WAITFOR :: string where
  "SQLI_WAITFOR = raw ''(?i)~bwaitfor~b''"

definition SQLI_TAUTOLOGY :: string where
  "SQLI_TAUTOLOGY = raw (''(?i)(?:~bor~b|~band~b|~|~||&&)~s*(?:['' @ [CHR 0x27, CHR 0x22, CHR 0x60] @ ''][~w.~- ]{0,32}['' @ [CHR 0x27, CHR 0x22, CHR 0x60] @ '']~s*=~s*['' @ [CHR 0x27, CHR 0x22, CHR 0x60] @ ''][~w.~- ]{0,32}['' @ [CHR 0x27, CHR 0x22, CHR 0x60] @ '']?|['' @ [CHR 0x27, CHR 0x22, CHR 0x60] @ '']?~d+['' @ [CHR 0x27, CHR 0x22, CHR 0x60] @ '']?~s*=~s*['' @ [CHR 0x27, CHR 0x22, CHR 0x60] @ '']?~d+['' @ [CHR 0x27, CHR 0x22, CHR 0x60] @ '']?|~b1~s*<>~s*0~b|~b1~s*>~s*0~b)'')"

definition SQLI_COMMENT_TERM :: string where
  "SQLI_COMMENT_TERM = raw ''(?:--~s|--$|#~s|#$|/~*[~s~S]*?~*/)''"

definition SQLI_QUOTE_KEYWORD :: string where
  "SQLI_QUOTE_KEYWORD = raw (''(?i)['' @ [CHR 0x27, CHR 0x22] @ ''][~s);]{0,4}~b(?:union|select|insert|update|delete|drop|alter|create|truncate|exec|execute)~b'')"

definition SQLI_INFO_SCHEMA :: string where
  "SQLI_INFO_SCHEMA = raw ''(?i)information_schema|~bsqlite_master~b|~bpg_catalog~b|~bsysobjects~b|~bsyscolumns~b''"

definition SQLI_INTO_FILE :: string where
  "SQLI_INTO_FILE = raw ''(?i)~binto~s+(?:out|dump)file~b''"

definition SQLI_BARE_SELECT :: string where
  "SQLI_BARE_SELECT = raw (''(?i)~bselect~s+(?:~*|~w+~s*,~s*[~w.~'' @ [CHR 0x27, CHR 0x22] @ ''()]+~s*(?:,~s*[~w.~'' @ [CHR 0x27, CHR 0x22] @ ''()]+)*)~s+from~s+[~w.'' @ [CHR 0x22, CHR 0x27] @ '']'')"

definition SQLI_FULL_QUERY_CLAUSE :: string where
  "SQLI_FULL_QUERY_CLAUSE = raw ''(?i)~b(?:where|group~s+by|order~s+by|having|limit|offset|join)~b''"

definition SQLI_BLIND_PROBE :: string where
  "SQLI_BLIND_PROBE = raw (''(?i)~bselect~s+case~s+when~b|(?:~bselect~b|~b(?:and|or)~b|~|~||;|['' @ [CHR 0x27, CHR 0x22, CHR 0x60] @ ''(])~s*case~s+when~b[~s~S]{0,80}~bthen~b|~bto_char~s*~(~s*[~w'' @ [CHR 0x27, CHR 0x22] @ '']+~s*/~s*[~w'' @ [CHR 0x27, CHR 0x22] @ '']+~s*~)'')"

definition SQLI_TRUNCATED_TAUTOLOGY :: string where
  "SQLI_TRUNCATED_TAUTOLOGY = raw (''(?i)(?:~bor~b|~band~b|~|~|)~s*['' @ [CHR 0x27, CHR 0x22, CHR 0x60] @ '']{1,2}~s*=~s*['' @ [CHR 0x27, CHR 0x22, CHR 0x60] @ '']{0,2}~s*(?:--|#)?~s*$'')"

definition SQLI_INLINE_COMMENT :: string where
  "SQLI_INLINE_COMMENT = raw ''/~*[~s~S]*?~*/''"

definition SQLI_BOOL_SUBQUERY :: string where
  "SQLI_BOOL_SUBQUERY = raw ''(?i)~b(?:and|or)~b~s*(?:~(~s*select~b|~d+~s*=~s*(?:~(~s*)?(?:cast~s*~(~s*~(?~s*)?select~b)|~b~d+~s*=~s*~(~s*select~b''"

definition XSS_SCRIPT_TAG :: string where
  "XSS_SCRIPT_TAG = raw ''(?i)<~s*/?~s*script~b''"

definition XSS_EVENT_HANDLER :: string where
  "XSS_EVENT_HANDLER = raw ''(?i)(?:~s|~+)on[a-z]+~s*=''"

definition XSS_JS_URI :: string where
  "XSS_JS_URI = raw ''(?i)~b(?:javascript|vbscript|livescript|mocha)~s*:''"

definition XSS_DANGEROUS_TAG :: string where
  "XSS_DANGEROUS_TAG = raw ''(?i)<~s*(?:iframe|object|embed|svg|math|form|input|body|frame|frameset|applet|meta|link|base|style|marquee|details|audio|video|template|portal)~b''"

definition XSS_DATA_URI :: string where
  "XSS_DATA_URI = raw ''(?i)data~s*:~s*(?:text/html|application/xhtml|text/javascript|application/javascript)''"

definition XSS_STYLE_EXPR :: string where
  "XSS_STYLE_EXPR = raw (''(?i)expression~s*~(|url~s*~(~s*['' @ [CHR 0x27] @ ''~'' @ [CHR 0x22] @ '']?~s*javascript'')"

definition XSS_HTML_COMMENT_BREAK :: string where
  "XSS_HTML_COMMENT_BREAK = raw ''(?i)<~s*/~s*(?:style|title|textarea|noscript|comment)~b''"

definition XSS_DOM_CHAIN :: string where
  "XSS_DOM_CHAIN = raw (''(?i)constructor~s*(?:~.~s*prototype|~.~s*constructor|~[~s*['' @ [CHR 0x27, CHR 0x22] @ '']constructor|~[~s*['' @ [CHR 0x27, CHR 0x22] @ '']prototype)'')"

definition HTML_TAG_STRUCTURE :: string where
  "HTML_TAG_STRUCTURE = raw ''(?i)<~s*~w{1,32}[^>]{0,200}>''"

definition DESER_PHP_OBJECT :: string where
  "DESER_PHP_OBJECT = raw (''~bO:~s*~d+~s*:~s*['' @ [CHR 0x22, CHR 0x27] @ '']'')"

definition DESER_PHP_PAIR :: string where
  "DESER_PHP_PAIR = raw (''~b[sia]~s*:~s*~d+~s*:~s*['' @ [CHR 0x22, CHR 0x27] @ ''][^'' @ [CHR 0x22, CHR 0x27] @ '']{0,256}['' @ [CHR 0x22, CHR 0x27] @ '']~s*;~s*[sia]~s*:~s*~d+~s*:~s*['' @ [CHR 0x22, CHR 0x27] @ '']'')"

definition DESER_OGNL_CALL :: string where
  "DESER_OGNL_CALL = raw ''@[A-Za-z][~w.]*@[A-Za-z_]~w*~s*~(''"

definition DESER_JAVA_MAGIC :: string where
  "DESER_JAVA_MAGIC = raw ''~x{AC}~x{ED}~x{00}~x{05}sr''"

definition JS_BRACKET_CALL :: string where
  "JS_BRACKET_CALL = raw (''~b~w+~'' @ [CHR ''[''] @ ''[^~]~r~n]{1,48}~]~s*(?:~(|~[~s*['' @ [CHR 0x27, CHR 0x22] @ ''][^'' @ [CHR 0x27, CHR 0x22] @ ''~]~r~n]{1,48}['' @ [CHR 0x27, CHR 0x22] @ '']~s*~])'')"

definition SQLI_UNION_BREAK :: string where
  "SQLI_UNION_BREAK = raw (''(?i)['' @ [CHR 0x27, CHR 0x22, CHR 0x60] @ '']~s*union~b'')"

definition SQLI_UNION_CONST :: string where
  "SQLI_UNION_CONST = raw (''(?i)union[~s/+]{1,8}select[~s/+]{0,4}(?:[~d('' @ [CHR 0x27, CHR 0x22] @ ''*]|null~b)'')"

definition SQLI_STMT_MARKER :: string where
  "SQLI_STMT_MARKER = raw ''(?i)(?:--|/~*|(?:^|~s)#)|~bfrom~b''"

definition SQLI_INTO_FILE_TARGET :: string where
  "SQLI_INTO_FILE_TARGET = raw (''(?i)into~s+(?:out|dump)file~s*['' @ [CHR 0x27] @ ''~'' @ [CHR 0x22, CHR 0x60] @ '']'')"

definition SQLI_TAUTOLOGY_QUOTE_BREAK :: string where
  "SQLI_TAUTOLOGY_QUOTE_BREAK = raw (''(?i)['' @ [CHR 0x27, CHR 0x22, CHR 0x60] @ ''][~s)]*(?:~|~||&&|~bor~b|~band~b)'')"

definition SQLI_TAUTOLOGY_STRUCTURE :: string where
  "SQLI_TAUTOLOGY_STRUCTURE = raw (''(?i)(?:~|~||&&)|(?:~bor~b|~band~b)~s*[('' @ [CHR 0x27, CHR 0x22, CHR 0x60] @ '']|;'')"

definition SCRIPT_TAG_ATTR :: string where
  "SCRIPT_TAG_ATTR = raw ''(?i)<script[~s+][^>]*>''"

definition SCRIPT_TAG_COMPACT :: string where
  "SCRIPT_TAG_COMPACT = raw ''(?i)<script>''"

definition CI_BACKTICK_INTERLEAVED :: string where
  "CI_BACKTICK_INTERLEAVED = raw (''(?i)(?:;|~||&&|&)~s*[a-z_]{1,12}'' @ [CHR 0x60] @ ''{2}[a-z_]'')"

definition PT_REMOTE_BACKSLASH :: string where
  "PT_REMOTE_BACKSLASH = raw ''(?i)(?:https?|ftp)~~+~.~.~~''"

definition CI_CHR_CHAIN :: string where
  "CI_CHR_CHAIN = raw ''(?i)chr~(~d{1,3}~)~s*[+%&|^.]~s*chr~(~d{1,3}~)''"

definition PT_DOUBLE_EXEC_EXT :: string where
  "PT_DOUBLE_EXEC_EXT = raw ''(?i)~.(?:php~d?|phtml|asp|aspx|jsp|jspx|cgi|pl|ashx)~.[a-z0-9]{1,5}$''"

definition CRLF_HEADER_SHAPE :: string where
  "CRLF_HEADER_SHAPE = raw ''(?i)[~r~n]{2,}~s*[~w-]{1,32}~s*:''"

definition SQL_KEYWORDS :: "string list" where
  "SQL_KEYWORDS =
     [''select'', ''union'', ''all'', ''distinct'', ''from'', ''where'', ''and'', ''or'',
      ''not'', ''in'', ''like'', ''between'', ''is'', ''null'', ''having'', ''group'', ''order'',
      ''by'', ''limit'', ''offset'', ''asc'', ''desc'', ''insert'', ''into'', ''values'',
      ''update'', ''set'', ''delete'', ''drop'', ''alter'', ''create'', ''truncate'', ''table'',
      ''database'', ''schema'', ''user'', ''version'', ''current_user'', ''session_user'',
      ''join'', ''inner'', ''left'', ''right'', ''outer'', ''on'', ''as'', ''case'', ''when'',
      ''then'', ''else'', ''end'', ''exists'', ''any'', ''some'', ''with'', ''recursive'',
      ''cast'', ''convert'', ''exec'', ''execute'', ''begin'', ''commit'', ''rollback'',
      ''savepoint'', ''grant'', ''revoke'', ''show'', ''describe'', ''true'', ''false'']"

definition SQL_FUNCTIONS :: "string list" where
  "SQL_FUNCTIONS =
     [''sleep'', ''benchmark'', ''waitfor'', ''delay'', ''pg_sleep'', ''load_file'', ''outfile'',
      ''dumpfile'', ''extractvalue'', ''updatexml'', ''concat'', ''concat_ws'', ''group_concat'',
      ''char'', ''ascii'', ''ord'', ''hex'', ''unhex'', ''substring'', ''substr'', ''mid'',
      ''left'', ''right'', ''length'', ''count'', ''sum'', ''avg'', ''min'', ''max'', ''rand'',
      ''floor'', ''ceil'', ''round'', ''if'', ''ifnull'', ''nullif'', ''coalesce'', ''version'',
      ''user'', ''database'', ''schema'', ''current_user'', ''session_user'', ''system_user'',
      ''row_number'', ''rank'', ''dense_rank'', ''xp_cmdshell'', ''sp_executesql'', ''make_set'',
      ''elt'', ''find_in_set'', ''regexp'', ''rlike'']"

definition SQLI_PREFILTER_NEEDLES :: "string list" where
  "SQLI_PREFILTER_NEEDLES =
     [''or'', ''and'', ''||'', ''&&'', ''union'', ''select'', ''insert'', ''update'', ''delete'',
      ''drop'', ''alter'', ''create'', ''truncate'', ''exec'', ''grant'', ''revoke'',
      ''declare'', ''begin'', ''shutdown'', ''sleep'', ''benchmark'', ''waitfor'', ''load_file'',
      ''extractvalue'', ''updatexml'', ''xp_cmdshell'', ''sp_executesql'',
      ''information_schema'', ''sqlite_master'', ''pg_catalog'', ''sysobjects'', ''syscolumns'',
      ''into'', ''case'', ''to_char'']"

definition XSS_PREFILTER_NEEDLES :: "string list" where
  "XSS_PREFILTER_NEEDLES =
     [''<'', ''on'', ''javascript'', ''vbscript'', ''livescript'', ''mocha'', ''data'',
      ''expression'', ''url'', ''constructor'']"

section \<open>SQL injection\<close>

definition is_ascii_alphabetic :: "char \<Rightarrow> bool" where [waf_ascii]:
  "is_ascii_alphabetic c \<longleftrightarrow> is_ascii_lowercase c \<or> is_ascii_uppercase c"

datatype SqlTok = Keyword | Function | LogicOp | Ident

fun fp_char :: "SqlTok \<Rightarrow> char" where
  "fp_char Keyword = CHR ''k''"
| "fp_char Function = CHR ''f''"
| "fp_char LogicOp = CHR ''t''"
| "fp_char Ident = CHR ''n''"

definition word_tok :: "string \<Rightarrow> SqlTok" where
  "word_tok w =
     (if w \<in> set SQL_FUNCTIONS then Function
      else if w = ''and'' \<or> w = ''or'' \<or> w = ''xor'' then LogicOp
      else if w \<in> set SQL_KEYWORDS then Keyword
      else Ident)"

text \<open>What follows a string literal whose opening quote has been read: a backslash skips the next
  byte, a doubled quote continues the literal.\<close>

fun literal_rest :: "char \<Rightarrow> string \<Rightarrow> string" where
  "literal_rest q (c # d # s) =
     (if c = CHR 0x5C then literal_rest q s
      else if c = q then (if d = q then literal_rest q s else d # s)
      else literal_rest q (d # s))"
| "literal_rest q s = []"

fun comment_rest :: "string \<Rightarrow> string" where
  "comment_rest (c # d # s) =
     (if c = CHR ''*'' \<and> d = CHR ''/'' then s else comment_rest (d # s))"
| "comment_rest s = []"

definition next_is :: "char \<Rightarrow> string \<Rightarrow> bool" where
  "next_is c s = (case s of [] \<Rightarrow> False | d # _ \<Rightarrow> d = c)"

definition number_char :: "char \<Rightarrow> bool" where
  "number_char c \<longleftrightarrow> is_ascii_digit c \<or> c \<in> {CHR ''.'', CHR ''e'', CHR ''E'', CHR ''x'', CHR ''X''}"

definition ident_char :: "char \<Rightarrow> bool" where
  "ident_char c \<longleftrightarrow> is_ascii_alphanumeric c \<or> c = CHR ''_''"

lemma literal_rest_length [waf_len]: "length (literal_rest q s) \<le> length s"
  by (induction q s rule: literal_rest.induct) auto

lemma comment_rest_length [waf_len]: "length (comment_rest s) \<le> length s"
  by (induction s rule: comment_rest.induct) auto

text \<open>One step of the tokenizer on a byte and what follows: the fingerprint characters it pushes
  and the rest of the input.\<close>

definition fp_step :: "char \<Rightarrow> string \<Rightarrow> string \<times> string" where
  "fp_step b s =
     (if b \<in> {CHR '' '', CHR 0x09, CHR 0x0A, CHR 0x0D} then ([], s)
      else if b \<in> {CHR 0x27, CHR 0x22, CHR 0x60} then
        ([if b = CHR 0x60 then CHR ''n'' else CHR ''s''], literal_rest b s)
      else if b = CHR ''-'' \<and> next_is CHR ''-'' s then (''-'', [])
      else if b = CHR ''#'' then (''-'', [])
      else if b = CHR ''/'' \<and> next_is CHR ''*'' s then (''-'', comment_rest (tl s))
      else if b \<in> {CHR ''('', CHR '')'', CHR '','', CHR '';''} then ([b], s)
      else if b \<in> {CHR ''='', CHR ''<'', CHR ''>'', CHR ''!''} then
        (''o'', dropWhile (\<lambda>c. c \<in> {CHR ''='', CHR ''<'', CHR ''>'', CHR ''!''}) s)
      else if b \<in> {CHR ''+'', CHR ''-'', CHR ''*'', CHR ''/'', CHR ''%''} then (''o'', s)
      else if b = CHR ''|'' \<and> next_is CHR ''|'' s then (''t'', tl s)
      else if b = CHR ''&'' \<and> next_is CHR ''&'' s then (''t'', tl s)
      else if b \<in> {CHR ''|'', CHR ''&'', CHR ''^'', CHR ''~''} then (''o'', s)
      else if b = CHR ''@'' then (''v'', dropWhile (\<lambda>c. ident_char c \<or> c = CHR ''@'') s)
      else if b = CHR '':'' \<and> (case s of [] \<Rightarrow> False | d # _ \<Rightarrow> is_ascii_alphabetic d) then
        (''v'', dropWhile ident_char s)
      else if is_ascii_digit b then (''1'', dropWhile number_char s)
      else if is_ascii_alphabetic b \<or> b = CHR ''_'' then
        ([fp_char (word_tok (b # takeWhile ident_char s))], dropWhile ident_char s)
      else ([], s))"

lemma if_le: "a \<le> n \<Longrightarrow> b \<le> n \<Longrightarrow> (if P then a else b) \<le> n" for a b n :: nat
  by simp

lemma fp_step_rest [waf_len]: "length (snd (fp_step b s)) \<le> length s"
  unfolding fp_step_def if_distrib [of snd] if_distrib [of length] snd_conv
  by (intro if_le)
     (simp_all add: length_dropWhile_le literal_rest_length le_trans [OF comment_rest_length])

function fingerprint_sql :: "string \<Rightarrow> string" where
  "fingerprint_sql [] = []"
| "fingerprint_sql (b # s) = fst (fp_step b s) @ fingerprint_sql (snd (fp_step b s))"
  by pat_completeness auto
termination
  by (relation "measure length") (auto simp: le_imp_less_Suc fp_step_rest)

definition sqli_strong_checks :: "matchers \<Rightarrow> string \<Rightarrow> string list" where
  "sqli_strong_checks X lower =
     (if is_match X SQLI_UNION_SELECT lower then [''union-select''] else [])
     @ (if is_match X SQLI_UNION_COMMENT_SPLIT lower then [''union-comment-split''] else [])
     @ (if is_match X SQLI_STACKED lower then [''stacked-query''] else [])
     @ (if is_match X SQLI_DANGEROUS_FN lower then [''dangerous-function''] else [])
     @ (if is_match X SQLI_WAITFOR lower then [''waitfor-statement''] else [])
     @ (if is_match X SQLI_TAUTOLOGY lower then [''tautology''] else [])
     @ (if is_match X SQLI_TRUNCATED_TAUTOLOGY lower then [''truncated-tautology''] else [])
     @ (if is_match X SQLI_QUOTE_KEYWORD lower then [''quote-keyword''] else [])
     @ (if is_match X SQLI_BARE_SELECT lower \<and> \<not> is_match X SQLI_FULL_QUERY_CLAUSE lower
        then [''bare-select''] else [])
     @ (if is_match X SQLI_BLIND_PROBE lower then [''blind-probe''] else [])
     @ (if is_match X SQLI_BOOL_SUBQUERY lower then [''bool-subquery''] else [])
     @ (if is_match X SQLI_INFO_SCHEMA lower then [''info-schema''] else [])
     @ (if is_match X SQLI_INTO_FILE lower then [''into-file''] else [])"

definition detect_sqli :: "matchers \<Rightarrow> string \<Rightarrow> bool \<times> string" where
  "detect_sqli X input =
     (if length input < 3 then (False, [])
      else if list_all is_ascii input \<and> \<not> ac_is_match X SQLI_PREFILTER_NEEDLES input then (False, [])
      else
        let lower = to_ascii_lowercase input;
            fp = fingerprint_sql lower;
            strong1 = sqli_strong_checks X lower;
            strong =
              (if strong1 = [] \<and> contains_str lower ''/*'' \<and> contains_str lower ''*/'' then
                 let again = sqli_strong_checks X (replace_all X SQLI_INLINE_COMMENT lower '' '')
                 in if again \<noteq> [] then again @ [''comment-stripped''] else again
               else strong1);
            weak =
              (if is_match X SQLI_COMMENT_TERM lower then [''comment-terminator''] else [])
              @ (if prefix ''s'' fp \<and> contains_str fp ''to'' then [''string-tautology''] else [])
              @ (if contains_str fp '';k'' then [''stacked-shape''] else [])
              @ (if contains_str fp ''kf'' \<and> contains_char fp CHR ''(''
                    \<and> list_ex (contains_str lower) SQL_FUNCTIONS then [''fn-call-shape''] else [])
        in (strong \<noteq> [],
            if strong = [] \<and> weak = [] then fp else fp @ ''|'' @ join_with '','' (strong @ weak)))"

section \<open>Cross-site scripting, serialized objects\<close>

definition xss_script_uri_html_shaped :: "matchers \<Rightarrow> string \<Rightarrow> bool" where
  "xss_script_uri_html_shaped X input = is_match X HTML_TAG_STRUCTURE input"

definition detect_xss :: "matchers \<Rightarrow> string \<Rightarrow> bool \<times> string" where
  "detect_xss X input =
     (if length input < 3 then (False, [])
      else if list_all is_ascii input \<and> \<not> ac_is_match X XSS_PREFILTER_NEEDLES input then (False, [])
      else
        let lower = to_ascii_lowercase input;
            hits =
              (if is_match X XSS_SCRIPT_TAG lower then [''script-tag''] else [])
              @ (if is_match X XSS_EVENT_HANDLER lower then [''event-handler''] else [])
              @ (if is_match X XSS_JS_URI lower then [''js-uri''] else [])
              @ (if is_match X XSS_DANGEROUS_TAG lower then [''dangerous-tag''] else [])
              @ (if is_match X XSS_DATA_URI lower then [''data-uri''] else [])
              @ (if is_match X XSS_STYLE_EXPR lower then [''style-expr''] else [])
              @ (if is_match X XSS_HTML_COMMENT_BREAK lower then [''html-context-break''] else [])
              @ (if is_match X XSS_DOM_CHAIN lower then [''dom-chain''] else [])
        in (hits \<noteq> [], if hits = [] then [] else ''xss|'' @ join_with '','' hits))"

definition detect_deser_shape :: "matchers \<Rightarrow> string \<Rightarrow> string option" where
  "detect_deser_shape X input =
     (if length input < 8 then None
      else if contains_str input (encode_utf8 172) \<and> is_match X DESER_JAVA_MAGIC input
        then Some ''java-serialized-magic''
      else if is_match X DESER_OGNL_CALL input then Some ''ognl-static-call''
      else if is_match X DESER_PHP_OBJECT input then Some ''php-serialized-object''
      else if is_match X DESER_PHP_PAIR input then Some ''php-serialized-record''
      else None)"

section \<open>Template expressions\<close>

text \<open>The content is printable ASCII once the first test has passed, so the blank is the only
  white space that \<^verbatim>\<open>split_whitespace\<close> can meet.\<close>

definition is_structural_expr :: "string \<Rightarrow> bool" where
  "is_structural_expr inner =
     (if \<not> list_all (\<lambda>c. 33 \<le> byte c \<and> byte c \<le> 126 \<or> c = CHR '' '') inner then False
      else contains_str inner ''${'' \<or> contains_str inner ''{{'' \<or> contains_str inner ''{%''
        \<or> list_ex (\<lambda>(a, b). b = CHR ''('' \<and> ident_char a) (zip inner (tl inner))
        \<or> list_ex (\<lambda>c. c \<in> {CHR ''+'', CHR ''*'', CHR ''%'', CHR ''|'', CHR ''^'', CHR ''<'', CHR ''>'',
                          CHR ''='', CHR ''!''}) inner
        \<or> 3 \<le> length (filter (\<lambda>w. w \<noteq> []) (split_on CHR ''.'' inner))
        \<or> list_ex (\<lambda>w. w = ''new'') (split_on CHR '' '' inner))"

definition CONTAINERS :: "(string \<times> string \<times> string) list" where
  "CONTAINERS =
     [(''${'', ''}'', ''el''), (''{{'', ''}}'', ''template''), (''{%'', ''%}'', ''template-stmt''),
      (''<%='', ''%>'', ''jsp'')]"

text \<open>The loop over the occurrences of one opener, on what is left of the input.\<close>

function container_loop :: "string \<Rightarrow> string \<Rightarrow> string \<Rightarrow> bool" where
  "container_loop opener closer s =
     (if opener = [] then False
      else case split_once_str opener s of
        None \<Rightarrow> False
      | Some (_, after) \<Rightarrow>
          (case find_str closer after of
             None \<Rightarrow> False
           | Some e \<Rightarrow>
               if take e after \<noteq> [] \<and> length (take e after) \<le> 256 \<and> is_structural_expr (take e after)
               then True else container_loop opener closer (drop e after)))"
  by pat_completeness auto
termination
  by (relation "measure (\<lambda>(opener, closer, s). length s)")
     (auto dest!: split_once_str_length intro: le_less_trans)

declare container_loop.simps [simp del]

definition detect_expr_injection :: "string \<Rightarrow> string option" where
  "detect_expr_injection input =
     (if \<not> (contains_str input ''${'' \<or> contains_str input ''{{'' \<or> contains_str input ''{%''
             \<or> contains_str input ''<%='') then None
      else map_option (\<lambda>(opener, closer, kind). kind)
             (find (\<lambda>(opener, closer, kind). container_loop opener closer input) CONTAINERS))"

section \<open>Statements and search phrases\<close>

definition sqli_union_statement_shaped :: "matchers \<Rightarrow> string \<Rightarrow> bool" where
  "sqli_union_statement_shaped X input \<longleftrightarrow>
     is_match X SQLI_UNION_BREAK input \<or> is_match X SQLI_UNION_CONST input
     \<or> is_match X SQLI_STMT_MARKER input"

definition sqli_into_file_statement_shaped :: "matchers \<Rightarrow> string \<Rightarrow> bool" where
  "sqli_into_file_statement_shaped X input = is_match X SQLI_INTO_FILE_TARGET input"

definition sqli_tautology_statement_shaped :: "matchers \<Rightarrow> string \<Rightarrow> bool" where
  "sqli_tautology_statement_shaped X input \<longleftrightarrow>
     is_match X SQLI_TAUTOLOGY_QUOTE_BREAK input \<or> is_match X SQLI_TAUTOLOGY_STRUCTURE input"

definition TAUTOLOGY_PROSE_WORDS :: nat where "TAUTOLOGY_PROSE_WORDS = 3"

definition glued_to_identifier :: "char option \<Rightarrow> bool" where
  "glued_to_identifier b = (case b of None \<Rightarrow> False | Some c \<Rightarrow> is_ascii_digit c \<or> c = CHR ''_'')"

definition hd_option :: "string \<Rightarrow> char option" where
  "hd_option s = (case s of [] \<Rightarrow> None | c # _ \<Rightarrow> Some c)"

text \<open>The scan for letter runs: \<open>prev\<close> is the byte before the rest.\<close>

function long_words :: "char option \<Rightarrow> string \<Rightarrow> string list \<Rightarrow> string list" where
  "long_words prev [] words = words"
| "long_words prev (c # s) words =
     (if \<not> is_ascii_alphabetic c then long_words (Some c) s words
      else
        let word = c # takeWhile is_ascii_alphabetic s;
            rest = dropWhile is_ascii_alphabetic s
        in long_words (Some (last word)) rest
             (if \<not> glued_to_identifier prev \<and> \<not> glued_to_identifier (hd_option rest)
                 \<and> 4 \<le> length word \<and> word \<notin> set words
              then words @ [word] else words))"
  by pat_completeness auto
termination
  by (relation "measure (\<lambda>(prev, s, words). length s)") (auto simp: le_imp_less_Suc length_dropWhile_le)

definition distinct_long_words :: "string \<Rightarrow> nat" where
  "distinct_long_words input = length (long_words None input [])"

text \<open>\<^verbatim>\<open>str::chars\<close>: the scalar values of well-formed text.\<close>

definition scalar_at :: "string \<Rightarrow> nat \<Rightarrow> nat" where
  "scalar_at s n =
     (if n = 1 then byte (s ! 0)
      else if n = 2 then (byte (s ! 0) - 192) * 64 + (byte (s ! 1) - 128)
      else if n = 3 then (byte (s ! 0) - 224) * 4096 + (byte (s ! 1) - 128) * 64 + (byte (s ! 2) - 128)
      else (byte (s ! 0) - 240) * 262144 + (byte (s ! 1) - 128) * 4096 + (byte (s ! 2) - 128) * 64
           + (byte (s ! 3) - 128))"

function str_chars :: "string \<Rightarrow> nat list" where
  "str_chars s =
     (case scalar_len s of None \<Rightarrow> [] | Some n \<Rightarrow> scalar_at s n # str_chars (drop n s))"
  by pat_completeness auto
termination
  by (relation "measure length") (auto dest: scalar_len_bounds)

declare str_chars.simps [simp del]

definition is_cjk :: "nat \<Rightarrow> bool" where
  "is_cjk ch \<longleftrightarrow>
     (0x1100 \<le> ch \<and> ch \<le> 0x11FF) \<or> (0x2E80 \<le> ch \<and> ch \<le> 0x9FFF) \<or> (0xAC00 \<le> ch \<and> ch \<le> 0xD7AF)
     \<or> (0xF900 \<le> ch \<and> ch \<le> 0xFAFF) \<or> (0xFE30 \<le> ch \<and> ch \<le> 0xFE4F) \<or> (0xFF00 \<le> ch \<and> ch \<le> 0xFFEF)"

definition tautology_sits_in_prose :: "string \<Rightarrow> bool" where
  "tautology_sits_in_prose input =
     (if TAUTOLOGY_PROSE_WORDS \<le> distinct_long_words input then True
      else
        let chars = str_chars input;
            total = length chars;
            non_ascii = length (filter (\<lambda>ch. 128 \<le> ch) chars);
            has_cjk = list_ex is_cjk chars
        in has_cjk \<and> total * 2 < non_ascii * 5)"

section \<open>Further shapes\<close>

definition xss_script_tag_shaped :: "matchers \<Rightarrow> string \<Rightarrow> bool \<Rightarrow> bool" where
  "xss_script_tag_shaped X input compact_allowed \<longleftrightarrow>
     is_match X SCRIPT_TAG_ATTR input \<or> (compact_allowed \<and> is_match X SCRIPT_TAG_COMPACT input)"

definition xss_markup_shaped :: "matchers \<Rightarrow> string \<Rightarrow> bool" where
  "xss_markup_shaped X input \<longleftrightarrow>
     is_match X SCRIPT_TAG_ATTR input \<or> is_match X SCRIPT_TAG_COMPACT input
     \<or> is_match X XSS_EVENT_HANDLER input \<or> is_match X XSS_JS_URI input"

definition path_tautology_segment :: "matchers \<Rightarrow> string \<Rightarrow> bool" where
  "path_tautology_segment X path =
     list_ex (\<lambda>seg. 5 \<le> length seg \<and> length seg \<le> 32
                \<and> (case detect_sqli X seg of (is_sqli, fp) \<Rightarrow> is_sqli \<and> contains_str fp ''tautology''))
       (split_on CHR ''/'' path)"

definition ci_backtick_interleaved :: "matchers \<Rightarrow> string \<Rightarrow> bool" where
  "ci_backtick_interleaved X input = is_match X CI_BACKTICK_INTERLEAVED input"

definition ssrf_protocol_smuggling :: "string \<Rightarrow> bool" where
  "ssrf_protocol_smuggling input \<longleftrightarrow>
     (contains_str input ''ldap://'' \<or> contains_str input ''gopher://'' \<or> contains_str input ''dict://'')
     \<and> (contains_char input CHR 0x0A \<or> contains_char input CHR 0x0D)"

definition pt_remote_backslash_include :: "matchers \<Rightarrow> string \<Rightarrow> bool" where
  "pt_remote_backslash_include X input = is_match X PT_REMOTE_BACKSLASH input"

definition ci_chr_chain :: "matchers \<Rightarrow> string \<Rightarrow> bool" where
  "ci_chr_chain X input = is_match X CI_CHR_CHAIN input"

definition pt_double_exec_extension :: "matchers \<Rightarrow> string \<Rightarrow> bool" where
  "pt_double_exec_extension X path = is_match X PT_DOUBLE_EXEC_EXT path"

definition crlf_header_injection_shaped :: "matchers \<Rightarrow> string \<Rightarrow> bool" where
  "crlf_header_injection_shaped X input = is_match X CRLF_HEADER_SHAPE input"

definition detect_js_call :: "matchers \<Rightarrow> string \<Rightarrow> bool" where
  "detect_js_call X input = is_match X JS_BRACKET_CALL input"

section \<open>The fingerprint\<close>

lemma if_subset: "(P \<Longrightarrow> A \<subseteq> C) \<Longrightarrow> B \<subseteq> C \<Longrightarrow> (if P then A else B) \<subseteq> C"
  by simp

definition fp_alphabet :: string where "fp_alphabet = ''sn-(),;otv1kf''"

lemma fp_char_alphabet: "fp_char t \<in> set fp_alphabet"
  by (cases t) (simp_all add: fp_alphabet_def)

lemma fp_step_push: "length (fst (fp_step b s)) \<le> 1"
  unfolding fp_step_def if_distrib [of fst] if_distrib [of length] fst_conv
  by (intro if_le) simp_all

lemma fp_alphabet_chars [simp]:
  "CHR ''s'' \<in> set fp_alphabet" "CHR ''n'' \<in> set fp_alphabet" "CHR ''-'' \<in> set fp_alphabet"
  "CHR ''('' \<in> set fp_alphabet" "CHR '')'' \<in> set fp_alphabet" "CHR '','' \<in> set fp_alphabet"
  "CHR '';'' \<in> set fp_alphabet" "CHR ''o'' \<in> set fp_alphabet" "CHR ''t'' \<in> set fp_alphabet"
  "CHR ''v'' \<in> set fp_alphabet" "CHR ''1'' \<in> set fp_alphabet"
  by (simp_all add: fp_alphabet_def)

lemma fp_step_alphabet: "set (fst (fp_step b s)) \<subseteq> set fp_alphabet"
  unfolding fp_step_def if_distrib [of fst] if_distrib [of set] fst_conv
  by (intro if_subset) (auto simp: fp_char_alphabet)

lemma fingerprint_length: "length (fingerprint_sql s) \<le> length s"
proof (induction s rule: fingerprint_sql.induct)
  case (2 b s)
  with fp_step_push [of b s] fp_step_rest [of b s] show ?case by simp
qed simp

lemma fingerprint_alphabet: "set (fingerprint_sql s) \<subseteq> set fp_alphabet"
  by (induction s rule: fingerprint_sql.induct) (simp_all add: fp_step_alphabet)

section \<open>Containers\<close>

text \<open>\<open>d\<close> occurs in \<open>s\<close> right behind \<open>a\<close>, and nowhere earlier.\<close>

definition first_occurrence :: "string \<Rightarrow> string \<Rightarrow> string \<Rightarrow> bool" where
  "first_occurrence d a s \<longleftrightarrow> prefix (a @ d) s \<and> (\<forall>i < length a. \<not> prefix d (drop i s))"

lemma find_str_first: "find_str d s = Some (length a) \<and> prefix a s \<longleftrightarrow> first_occurrence d a s"
proof (induction s arbitrary: a)
  case Nil
  show ?case by (auto simp: first_occurrence_def)
next
  case (Cons c s)
  show ?case
  proof (cases a)
    case Nil
    then show ?thesis by (simp add: first_occurrence_def)
  next
    case a: (Cons x b)
    have "(\<forall>i < Suc n. \<not> prefix d (drop i (c # s))) \<longleftrightarrow> \<not> prefix d (c # s) \<and> (\<forall>i < n. \<not> prefix d (drop i s))" for n
      by (simp only: All_less_Suc2 drop0 drop_Suc_Cons)
    then show ?thesis using Cons [of b] by (auto simp: a first_occurrence_def)
  qed
qed

text \<open>The containers that a scan from the left meets: from the first opener to the first closer
  behind it, and then on from that closer.  An opener inside a container starts none.\<close>

inductive scanned_container :: "string \<Rightarrow> string \<Rightarrow> string \<Rightarrow> string \<Rightarrow> bool" for opener closer where
  here: "first_occurrence opener a (a @ opener @ t) \<Longrightarrow> first_occurrence closer inner t \<Longrightarrow>
    scanned_container opener closer (a @ opener @ t) inner"
| later: "first_occurrence opener a (a @ opener @ t) \<Longrightarrow> first_occurrence closer b t \<Longrightarrow>
    scanned_container opener closer (drop (length b) t) inner \<Longrightarrow>
    scanned_container opener closer (a @ opener @ t) inner"

definition suspicious_content :: "string \<Rightarrow> bool" where
  "suspicious_content inner \<longleftrightarrow> inner \<noteq> [] \<and> length inner \<le> 256 \<and> is_structural_expr inner"

lemma first_occurrence_split:
  "split_once_str d s = Some (a, t) \<longleftrightarrow> s = a @ d @ t \<and> first_occurrence d a s"
proof
  assume l: "split_once_str d s = Some (a, t)"
  then obtain i where i: "find_str d s = Some i" and ab: "a = take i s" "t = drop (i + length d) s"
    by (auto simp: split_once_str_def split: option.splits)
  have "s = a @ d @ t" "length a = i" using find_str_Some [OF i] by (simp_all add: ab)
  with i find_str_first [of d s a] show "s = a @ d @ t \<and> first_occurrence d a s" by auto
next
  assume r: "s = a @ d @ t \<and> first_occurrence d a s"
  then show "split_once_str d s = Some (a, t)"
    using find_str_first [of d s a] by (auto simp: split_once_str_def)
qed

lemma find_str_take:
  "find_str d s = Some e \<longleftrightarrow> e \<le> length s \<and> first_occurrence d (take e s) s"
  using find_str_first [of d s "take e s"] find_str_Some [of d s e] by (auto simp: take_is_prefix)

lemma container_loop_complete:
  "scanned_container opener closer s inner \<Longrightarrow> opener \<noteq> [] \<Longrightarrow> suspicious_content inner \<Longrightarrow> container_loop opener closer s"
proof (induction rule: scanned_container.induct)
  case (here a t inner)
  with first_occurrence_split [of opener "a @ opener @ t" a t] find_str_first [of closer t inner]
  show ?case by (subst container_loop.simps) (auto simp: suspicious_content_def first_occurrence_def prefix_def)
next
  case (later a t b inner)
  with first_occurrence_split [of opener "a @ opener @ t" a t] find_str_first [of closer t b]
  show ?case by (subst container_loop.simps) auto
qed

lemma container_loop_sound:
  "container_loop opener closer s \<Longrightarrow> \<exists>inner. scanned_container opener closer s inner \<and> suspicious_content inner"
proof (induction opener closer s rule: container_loop.induct)
  case (1 opener closer s)
  from 1(2) obtain a t e where o: "opener \<noteq> []" and sp: "split_once_str opener s = Some (a, t)"
    and e: "find_str closer t = Some e"
    by (subst (asm) container_loop.simps) (auto split: if_splits option.splits)
  from sp have s: "s = a @ opener @ t" and f: "first_occurrence opener a (a @ opener @ t)"
    by (auto simp: first_occurrence_split)
  from e have c: "first_occurrence closer (take e t) t" and le: "e \<le> length t"
    by (auto simp: find_str_take)
  show ?case
  proof (cases "suspicious_content (take e t)")
    case True
    with scanned_container.here [OF f c] show ?thesis unfolding s by blast
  next
    case False
    then have "container_loop opener closer (drop e t)"
      using 1(2) o sp e by (subst (asm) container_loop.simps) (simp add: suspicious_content_def split: if_splits)
    with 1(1) [OF o sp _ e] False obtain inner
      where "scanned_container opener closer (drop e t) inner" "suspicious_content inner"
      by (auto simp: suspicious_content_def)
    then show ?thesis using scanned_container.later [OF f c] le unfolding s by (auto simp: min_absorb2)
  qed
qed

lemma container_loop_iff:
  "opener \<noteq> [] \<Longrightarrow>
   container_loop opener closer s \<longleftrightarrow> (\<exists>inner. scanned_container opener closer s inner \<and> suspicious_content inner)"
  using container_loop_complete container_loop_sound by blast

lemma container_loop_contains: "container_loop opener closer s \<Longrightarrow> contains_str s opener"
  by (subst (asm) container_loop.simps)
     (auto simp: contains_str_def split_once_str_def split: if_splits option.splits)

section \<open>Properties\<close>

text \<open>
  The SQL tokenizer always ends and its fingerprint is no longer than the input and uses only
  the thirteen token characters: whatever bytes are sent, the fingerprint written to the
  event log carries no request content.
\<close>

theorem fingerprint_no_content:
  "length (fingerprint_sql s) \<le> length s \<and> set (fingerprint_sql s) \<subseteq> set ''sn-(),;otv1kf''"
  using fingerprint_length [of s] fingerprint_alphabet [of s] by (simp add: fp_alphabet_def)

text \<open>
  C35: Exactly what the detector for template expressions reports.  A scan from the left pairs
  each opener with the first closer behind it and goes on from that closer; for the four kinds
  \<^verbatim>\<open>${...}\<close>, \<^verbatim>\<open>{{...}}\<close>, \<^verbatim>\<open>{%...%}\<close> and \<^verbatim>\<open><%=...%>\<close>, in this order, the report is the first kind
  one of whose containers has a content of 1 to 256 bytes that is a structural expression, and
  there is no report when no kind has one.  The test for the four openers at the start changes
  nothing.
\<close>

theorem expr_injection_detected:
  "detect_expr_injection s =
     map_option (\<lambda>(opener, closer, kind). kind)
       (find (\<lambda>(opener, closer, kind). \<exists>inner. scanned_container opener closer s inner
                \<and> inner \<noteq> [] \<and> length inner \<le> 256 \<and> is_structural_expr inner)
          [(''${'', ''}'', ''el''), (''{{'', ''}}'', ''template''), (''{%'', ''%}'', ''template-stmt''),
           (''<%='', ''%>'', ''jsp'')])"
proof -
  note loop = container_loop_iff [unfolded suspicious_content_def, symmetric]
  show ?thesis
  proof (cases "contains_str s ''${'' \<or> contains_str s ''{{'' \<or> contains_str s ''{%'' \<or> contains_str s ''<%=''")
    case True
    then show ?thesis by (simp add: detect_expr_injection_def CONTAINERS_def loop)
  next
    case False
    then show ?thesis using container_loop_contains
      by (auto simp: detect_expr_injection_def loop)
  qed
qed

text \<open>
  An opener that is not closed hides the expression after it: the content up to the next closer
  is taken as one container, and when a control byte or its length makes that one
  unsuspicious, the search goes on behind the closer, past the expression inside.
\<close>

theorem expr_container_hidden:
  "detect_expr_injection ''${7*7}'' = Some ''el''
   \<and> detect_expr_injection (''${'' @ [CHR 0x0A] @ ''${7*7}'') = None
   \<and> detect_expr_injection (''{{'' @ [CHR 0x09] @ ''{{7*7}}'') = None"
  by code_simp

end
