(* ===== verification/Expr_Lexer.thy ===== *)
theory Expr_Lexer
  imports Ip_Addr
begin

text \<open>
  \<^verbatim>\<open>src/pingwaf-waf/src/rules/expression.rs\<close>, first half: the expression AST, the field
  table and the tokenizer.  The tokenizer's cursor \<open>i\<close> is the suffix of the input still to be
  read; a \<^verbatim>\<open>&input[a..b]\<close> slice is \<^const>\<open>str_prefix\<close> on that suffix, and the panic of a slice
  that cuts a character is the error value \<open>Panic\<close>.  The lemmas show that it is never
  returned for UTF-8 text.
\<close>

section \<open>AST\<close>

datatype FieldKind =
    RequestPath | RequestUriFull | RequestQuery | RequestMethod | RequestHeader
  | RequestCookie | RequestBody | Host | IpSrc | IpSrcCountry | WafScore | WafScoreSqli
  | WafScoreXss | WafScoreRce | Ssl | UserAgent | UnknownField string

definition from_path :: "string \<Rightarrow> FieldKind" where
  "from_path path =
     (let lower = to_ascii_lowercase path in
      if lower \<in> {''http.request.uri.path'', ''request.path'', ''uri.path''} then RequestPath
      else if lower \<in> {''http.request.uri.full'', ''http.request.uri'', ''request.uri''}
        then RequestUriFull
      else if lower \<in> {''http.request.uri.query'', ''request.query'', ''http.request.uri.args''}
        then RequestQuery
      else if lower \<in> {''http.request.method'', ''request.method''} then RequestMethod
      else if lower \<in> {''http.request.headers'', ''http.request.header''} then RequestHeader
      else if lower \<in> {''http.request.cookies'', ''http.request.cookie''} then RequestCookie
      else if lower \<in> {''http.request.body'', ''request.body''} then RequestBody
      else if lower \<in> {''http.host'', ''host''} then Host
      else if lower \<in> {''ip.src'', ''client.ip''} then IpSrc
      else if lower \<in> {''ip.src.country'', ''geo.country''} then IpSrcCountry
      else if lower \<in> {''cf.waf.score'', ''waf.score''} then WafScore
      else if lower \<in> {''cf.waf.score.sqli'', ''waf.score.sqli''} then WafScoreSqli
      else if lower \<in> {''cf.waf.score.xss'', ''waf.score.xss''} then WafScoreXss
      else if lower \<in> {''cf.waf.score.rce'', ''waf.score.rce''} then WafScoreRce
      else if lower \<in> {''ssl'', ''https''} then Ssl
      else if lower \<in> {''user_agent'', ''http.user_agent'', ''http.useragent''} then UserAgent
      else UnknownField lower)"

record Field =
  kind :: FieldKind
  index :: "string option"

datatype Operator =
    Eq | Ne | Contains | NotContains | Matches | NotMatches | In | NotIn
  | StartsWith | EndsWith | Lt | Gt | Le | Ge

definition is_negated :: "Operator \<Rightarrow> bool" where
  "is_negated op \<longleftrightarrow> op \<in> {Ne, NotContains, NotMatches, NotIn}"

text \<open>The type variables are the foreign types \<^verbatim>\<open>ipnet::IpNet\<close> and \<^verbatim>\<open>regex::Regex\<close>.\<close>

datatype ('net, 're) Value =
    VStr string | VNum int | VBool bool | VSet "string list"
  | VCidrSet "'net list" | VRegex 're string

datatype ('net, 're) Expression =
    FieldE Field Operator "('net, 're) Value"
  | AndE "('net, 're) Expression" "('net, 're) Expression"
  | OrE "('net, 're) Expression" "('net, 're) Expression"
  | NotE "('net, 're) Expression"

section \<open>Tokenizer\<close>

datatype Token =
    TIdent string | TStr string | TNum int | LParen | RParen | LBracket | RBracket
  | LBrace | RBrace | Eof

datatype ParseError =
    Panic | OutOfFuel
  | UnterminatedString | InvalidNumber string | UnexpectedChar char
  | TooLong nat | TooManyTokens nat | NestingTooDeep
  | ExpectedIdent Token | ExpectedRParen | UnexpectedToken Token
  | ExpectedIndexString Token | ExpectedRBracket
  | ExpectedOperator Token | ExpectedOperatorAfterNot Token
  | UnsupportedNegated string | UnknownOperator string
  | UnterminatedSet | UnexpectedInSet Token | ExpectedValue Token
  | MatchesNeedsString | BadRegex string | InvalidCidr string | TrailingTokens nat

definition utf8_width :: "char \<Rightarrow> nat" where
  "utf8_width b =
     (if byte b \<le> 127 then 1
      else if 192 \<le> byte b \<and> byte b \<le> 223 then 2
      else if 224 \<le> byte b \<and> byte b \<le> 239 then 3
      else 4)"

lemma utf8_width_code [code]:
  "utf8_width b =
     (let i = of_char b :: int in
      if i \<le> 127 then 1 else if 192 \<le> i \<and> i \<le> 223 then 2 else if 224 \<le> i \<and> i \<le> 239 then 3 else 4)"
  by (simp add: utf8_width_def byte_le_int Let_def)

definition simple_escape :: "char \<Rightarrow> char option" where
  "simple_escape e =
     (if e = CHR ''n'' then Some (CHR 0x0A)
      else if e = CHR ''t'' then Some (CHR 0x09)
      else if e = CHR ''r'' then Some (CHR 0x0D)
      else if e = CHR 0x5C then Some (CHR 0x5C)
      else if e = CHR 0x22 then Some (CHR 0x22)
      else if e = CHR 0x27 then Some (CHR 0x27)
      else None)"

text \<open>The loop over a quoted literal: \<open>s\<close> is \<^verbatim>\<open>input[j..]\<close>, \<open>buf\<close> the decoded text so far.\<close>

function scan_string :: "char \<Rightarrow> string \<Rightarrow> string \<Rightarrow> ParseError + string \<times> string" where
  "scan_string quote [] buf = Inl UnterminatedString"
| "scan_string quote (b # s) buf =
     (if b = CHR 0x5C \<and> s \<noteq> [] then
        (case simple_escape (hd s) of
           Some c \<Rightarrow> scan_string quote (tl s) (buf @ [c])
         | None \<Rightarrow>
             (let w = utf8_width (hd s) in
              case str_prefix w s of
                None \<Rightarrow> Inl Panic
              | Some piece \<Rightarrow> scan_string quote (drop w s) (buf @ [CHR 0x5C] @ piece)))
      else if b = quote then Inr (buf, s)
      else
        (let w = utf8_width b in
         case str_prefix w (b # s) of
           None \<Rightarrow> Inl Panic
         | Some piece \<Rightarrow> scan_string quote (drop w (b # s)) (buf @ piece)))"
  by pat_completeness auto
termination
  by (relation "measure (\<lambda>(_, s, _). length s)") (auto simp: utf8_width_def)

lemma scan_string_length [waf_len]:
  "scan_string q s buf = Inr (b, r) \<Longrightarrow> length r < length s"
proof (induction q s buf rule: scan_string.induct)
  case (2 quote b s buf)
  then show ?case
    by (fastforce simp: Let_def utf8_width_def split: if_splits option.splits)
qed simp

definition word_char :: "char \<Rightarrow> bool" where
  "word_char c \<longleftrightarrow> is_ascii_alphanumeric c \<or> c = CHR ''_'' \<or> c = CHR ''.'' \<or> c = CHR ''/''
     \<or> c = CHR '':''"

definition push :: "Token \<Rightarrow> ParseError + Token list \<Rightarrow> ParseError + Token list" where
  "push t r = (case r of Inl e \<Rightarrow> Inl e | Inr ts \<Rightarrow> Inr (t # ts))"

lemma push_Inr: "push t r = Inr ts \<longleftrightarrow> (\<exists>us. r = Inr us \<and> ts = t # us)"
  by (auto simp: push_def split: sum.splits)

lemma push_Inl: "push t r = Inl e \<longleftrightarrow> r = Inl e"
  by (auto simp: push_def split: sum.splits)

function tokenize :: "string \<Rightarrow> ParseError + Token list" where
  "tokenize [] = Inr [Eof]"
| "tokenize (c # s) =
     (if c = CHR '' '' \<or> c = CHR 0x09 \<or> c = CHR 0x0A \<or> c = CHR 0x0D then tokenize s
      else if c = CHR ''('' then push LParen (tokenize s)
      else if c = CHR '')'' then push RParen (tokenize s)
      else if c = CHR ''['' then push LBracket (tokenize s)
      else if c = CHR '']'' then push RBracket (tokenize s)
      else if c = CHR ''{'' then push LBrace (tokenize s)
      else if c = CHR ''}'' then push RBrace (tokenize s)
      else if c = CHR 0x22 \<or> c = CHR 0x27 then
        (case scan_string c s [] of
           Inl e \<Rightarrow> Inl e
         | Inr (buf, r) \<Rightarrow> push (TStr buf) (tokenize r))
      else if c = CHR ''-'' \<and> s \<noteq> [] \<and> is_ascii_digit (hd s) then
        (let n = Suc (length (takeWhile is_ascii_digit s)) in
         case str_prefix n (c # s) of
           None \<Rightarrow> Inl Panic
         | Some txt \<Rightarrow>
             (case i64_from_str txt of
                None \<Rightarrow> Inl (InvalidNumber txt)
              | Some i \<Rightarrow> push (TNum i) (tokenize (dropWhile is_ascii_digit s))))
      else if is_ascii_alphanumeric c \<or> c = CHR ''_'' then
        (let n = Suc (length (takeWhile word_char s)) in
         case str_prefix n (c # s) of
           None \<Rightarrow> Inl Panic
         | Some word \<Rightarrow>
             push (case i64_from_str word of Some i \<Rightarrow> TNum i | None \<Rightarrow> TIdent word)
               (tokenize (dropWhile word_char s)))
      else Inl (UnexpectedChar c))"
  by pat_completeness auto
termination
proof (relation "measure length", goal_cases)
  case (9 c s p b r)
  then show ?case using scan_string_length [of c s "[]" b r] by (simp only: in_measure list.size) simp
qed (simp_all only: wf_measure in_measure list.size less_Suc_eq_le length_dropWhile_le add_0_right add_Suc_right le_refl)

declare scan_string.simps [simp del] tokenize.simps [simp del]

section \<open>The tokenizer never panics on text\<close>

lemma utf8_width_scalar: "scalar_len (a # s) = Some n \<Longrightarrow> utf8_width a = n"
  by (auto simp: utf8_width_def split: if_splits list.splits)

lemma scan_step:
  assumes "valid_utf8 (b # s)"
  shows "str_prefix (utf8_width b) (b # s) = Some (take (utf8_width b) (b # s))"
    and "valid_utf8 (take (utf8_width b) (b # s))"
    and "valid_utf8 (drop (utf8_width b) (b # s))"
proof -
  obtain n where n: "scalar_len (b # s) = Some n" and v: "valid_utf8 (drop n (b # s))"
    using assms by (auto elim: valid_utf8_scalar)
  note w = utf8_width_scalar [OF n]
  show "str_prefix (utf8_width b) (b # s) = Some (take (utf8_width b) (b # s))"
    using str_prefix_scalar [OF assms n] w by simp
  show "valid_utf8 (take (utf8_width b) (b # s))" using valid_utf8_take_scalar [OF n] w by simp
  show "valid_utf8 (drop (utf8_width b) (b # s))" using v w by simp
qed

lemma valid_utf8_single [simp]: "is_ascii c \<Longrightarrow> valid_utf8 [c]"
  by simp

lemma simple_escape_ascii: "simple_escape e = Some c \<Longrightarrow> is_ascii e \<and> is_ascii c"
  by (auto simp: simple_escape_def is_ascii_def split: if_splits)

definition scan_ok :: "string \<Rightarrow> ParseError + string \<times> string \<Rightarrow> bool" where
  "scan_ok buf r = (case r of Inl e \<Rightarrow> e = UnterminatedString
                            | Inr (b, rest) \<Rightarrow> valid_utf8 rest \<and> (valid_utf8 buf \<longrightarrow> valid_utf8 b))"

lemma scan_ok_weaken: "scan_ok (buf @ x) r \<Longrightarrow> valid_utf8 x \<Longrightarrow> scan_ok buf r"
  by (auto simp: scan_ok_def valid_utf8_append split: sum.splits)

lemma scan_string_escape:
  "simple_escape e = Some c \<Longrightarrow>
   scan_string q (CHR 0x5C # e # s) buf = scan_string q s (buf @ [c])"
  by (subst scan_string.simps) simp

lemma scan_string_unknown_escape:
  "simple_escape e = None \<Longrightarrow> valid_utf8 (e # s) \<Longrightarrow>
   scan_string q (CHR 0x5C # e # s) buf =
     scan_string q (drop (utf8_width e) (e # s))
       (buf @ [CHR 0x5C] @ take (utf8_width e) (e # s))"
  by (subst scan_string.simps) (simp add: Let_def scan_step(1))

lemma scan_string_close:
  "\<not> (q = CHR 0x5C \<and> s \<noteq> []) \<Longrightarrow> scan_string q (q # s) buf = Inr (buf, s)"
  by (subst scan_string.simps) (simp only: if_False if_True simp_thms)

lemma scan_string_copy:
  "\<not> (b = CHR 0x5C \<and> s \<noteq> []) \<Longrightarrow> b \<noteq> q \<Longrightarrow> valid_utf8 (b # s) \<Longrightarrow>
   scan_string q (b # s) buf =
     scan_string q (drop (utf8_width b) (b # s)) (buf @ take (utf8_width b) (b # s))"
  by (subst scan_string.simps) (simp only: Let_def scan_step(1) option.case if_False)

lemma scan_string_ok:
  "valid_utf8 s \<Longrightarrow> is_ascii quote \<Longrightarrow> scan_ok buf (scan_string quote s buf)"
proof (induction quote s buf rule: scan_string.induct)
  case (1 quote buf)
  then show ?case by (simp add: scan_string.simps scan_ok_def)
next
  case (2 quote b s buf)
  note q = 2(5)
  consider (esc) e r where "b = CHR 0x5C" "s = e # r"
    | (close) "\<not> (b = CHR 0x5C \<and> s \<noteq> [])" "b = quote"
    | (copy) "\<not> (b = CHR 0x5C \<and> s \<noteq> [])" "b \<noteq> quote" by (cases s) auto
  then show ?case
  proof cases
    case esc
    then have vs: "valid_utf8 (e # r)" using 2(4) by (simp add: is_ascii_def)
    from esc have c: "b = CHR 0x5C \<and> s \<noteq> []" by simp
    show ?thesis
    proof (cases "simple_escape e")
      case (Some x)
      have v: "valid_utf8 (tl s)" using simple_escape_ascii [OF Some] vs esc by simp
      have x: "valid_utf8 [x]" using simple_escape_ascii [OF Some] by simp
      from 2(2) [OF c _ v q, of x] Some esc have "scan_ok (buf @ [x]) (scan_string quote r (buf @ [x]))"
        by simp
      from scan_ok_weaken [OF this x] show ?thesis by (simp only: esc scan_string_escape [OF Some])
    next
      case None
      note step = scan_step [OF vs]
      from 2(1) [OF c, of "utf8_width e" "take (utf8_width e) (e # r)"] None step q esc
      have ok: "scan_ok (buf @ [CHR 0x5C] @ take (utf8_width e) (e # r))
        (scan_string quote (drop (utf8_width e) (e # r))
          (buf @ [CHR 0x5C] @ take (utf8_width e) (e # r)))" by (simp only: list.sel)
      have "valid_utf8 ([CHR 0x5C] @ take (utf8_width e) (e # r))"
        using step(2) by (simp add: is_ascii_def)
      from scan_ok_weaken [OF ok this] show ?thesis
        by (simp only: esc scan_string_unknown_escape [OF None vs])
    qed
  next
    case close
    then have "scan_string quote (b # s) buf = Inr (buf, s)"
      using scan_string_close [of quote s buf] by blast
    moreover have "valid_utf8 s" using 2(4) close q by simp
    ultimately show ?thesis by (simp add: scan_ok_def)
  next
    case copy
    note step = scan_step [OF 2(4)]
    from scan_ok_weaken [OF 2(3) [OF copy refl step(1) step(3) q] step(2)] show ?thesis
      by (simp only: scan_string_copy [OF copy 2(4)])
  qed
qed

lemma str_prefix_ascii:
  assumes "\<forall>x \<in> set p. is_ascii x" and "valid_utf8 (p @ t)"
  shows "str_prefix (length p) (p @ t) = Some p"
  using assms valid_utf8_boundary valid_utf8_ascii_prefix by (simp add: str_prefix_def)

lemma str_prefix_takeWhile:
  assumes "valid_utf8 (c # s)" and "is_ascii c" and "\<And>x. P x \<Longrightarrow> is_ascii x"
  shows "str_prefix (Suc (length (takeWhile P s))) (c # s) = Some (c # takeWhile P s)"
    and "valid_utf8 (dropWhile P s)"
proof -
  have a: "\<forall>x \<in> set (c # takeWhile P s). is_ascii x"
    using assms(2,3) set_takeWhileD by fastforce
  show "str_prefix (Suc (length (takeWhile P s))) (c # s) = Some (c # takeWhile P s)"
    using str_prefix_ascii [OF a, of "dropWhile P s"] assms(1) by simp
  show "valid_utf8 (dropWhile P s)"
    using valid_utf8_ascii_prefix [OF a, of "dropWhile P s"] assms(1) by simp
qed

lemma word_char_ascii: "word_char c \<Longrightarrow> is_ascii c"
  unfolding word_char_def using alphanumeric_is_ascii by (elim disjE) (simp_all add: is_ascii_def)

lemma digit_ascii: "is_ascii_digit c \<Longrightarrow> is_ascii c"
  by (simp add: is_ascii_digit_def is_ascii_def)

text \<open>What the tokenizer guarantees of its output: one \<open>Eof\<close>, at the end; integers in the
  range of \<^verbatim>\<open>i64\<close>; identifiers non-empty words; literals UTF-8 text.\<close>

fun token_ok :: "Token \<Rightarrow> bool" where
  "token_ok (TIdent w) \<longleftrightarrow> w \<noteq> [] \<and> list_all word_char w \<and> i64_from_str w = None"
| "token_ok (TStr s) \<longleftrightarrow> valid_utf8 s"
| "token_ok (TNum i) \<longleftrightarrow> i64_range i"
| "token_ok Eof \<longleftrightarrow> False"
| "token_ok _ \<longleftrightarrow> True"

definition tokens_ok :: "Token list \<Rightarrow> bool" where
  "tokens_ok ts \<longleftrightarrow> ts \<noteq> [] \<and> last ts = Eof \<and> list_all token_ok (butlast ts)"

definition tokenize_ok :: "nat \<Rightarrow> ParseError + Token list \<Rightarrow> bool" where
  "tokenize_ok n r =
     (case r of Inl e \<Rightarrow> e \<noteq> Panic \<and> e \<noteq> OutOfFuel | Inr ts \<Rightarrow> tokens_ok ts \<and> length ts \<le> Suc n)"

lemma tokenize_ok_push:
  "tokenize_ok m r \<Longrightarrow> token_ok t \<Longrightarrow> m < n \<Longrightarrow> tokenize_ok n (push t r)"
  by (auto simp: tokenize_ok_def push_def tokens_ok_def split: sum.splits)

lemma tokenize_ok_mono: "tokenize_ok m r \<Longrightarrow> m \<le> n \<Longrightarrow> tokenize_ok n r"
  by (auto simp: tokenize_ok_def split: sum.splits)

lemma tokenize_quote_ok:
  assumes "valid_utf8 s" and "is_ascii c"
    and rec: "\<And>buf r. scan_string c s [] = Inr (buf, r) \<Longrightarrow> valid_utf8 r \<Longrightarrow>
                tokenize_ok (length r) (tokenize r)"
  shows "tokenize_ok (Suc (length s))
    (case scan_string c s [] of Inl e \<Rightarrow> Inl e | Inr (buf, r) \<Rightarrow> push (TStr buf) (tokenize r))"
proof (cases "scan_string c s []")
  case (Inl e)
  with scan_string_ok [OF assms(1,2), of "[]"] show ?thesis
    by (simp add: scan_ok_def tokenize_ok_def)
next
  case (Inr p)
  then obtain buf r where p: "scan_string c s [] = Inr (buf, r)" by (cases p) simp
  with scan_string_ok [OF assms(1,2), of "[]"] have v: "valid_utf8 r" "token_ok (TStr buf)"
    by (simp_all add: scan_ok_def)
  from tokenize_ok_push [OF rec [OF p v(1)] v(2)] scan_string_length [OF p] p show ?thesis by simp
qed

lemma tokenize_number_ok:
  assumes "valid_utf8 (c # s)" and "c = CHR ''-''"
    and rec: "valid_utf8 (dropWhile is_ascii_digit s) \<Longrightarrow>
      tokenize_ok (length (dropWhile is_ascii_digit s)) (tokenize (dropWhile is_ascii_digit s))"
  shows "tokenize_ok (Suc (length s))
    (case str_prefix (Suc (length (takeWhile is_ascii_digit s))) (c # s) of
       None \<Rightarrow> Inl Panic
     | Some txt \<Rightarrow> (case i64_from_str txt of None \<Rightarrow> Inl (InvalidNumber txt)
         | Some i \<Rightarrow> push (TNum i) (tokenize (dropWhile is_ascii_digit s))))"
proof -
  have c: "is_ascii c" using assms(2) by (simp add: is_ascii_def)
  note t = str_prefix_takeWhile [OF assms(1) c digit_ascii, of is_ascii_digit]
  show ?thesis
    using tokenize_ok_push [OF rec [OF t(2)]] length_dropWhile_le [of is_ascii_digit s]
    by (auto simp: t(1) tokenize_ok_def [of _ "Inl _"] i64_from_str_range le_imp_less_Suc
        split: option.split)
qed

lemma tokenize_word_ok:
  assumes "valid_utf8 (c # s)" and c: "is_ascii_alphanumeric c \<or> c = CHR ''_''"
    and rec: "valid_utf8 (dropWhile word_char s) \<Longrightarrow>
      tokenize_ok (length (dropWhile word_char s)) (tokenize (dropWhile word_char s))"
  shows "tokenize_ok (Suc (length s))
    (case str_prefix (Suc (length (takeWhile word_char s))) (c # s) of
       None \<Rightarrow> Inl Panic
     | Some word \<Rightarrow> push (case i64_from_str word of Some i \<Rightarrow> TNum i | None \<Rightarrow> TIdent word)
               (tokenize (dropWhile word_char s)))"
proof -
  have w: "word_char c" using c by (auto simp: word_char_def)
  note t = str_prefix_takeWhile [OF assms(1) word_char_ascii [OF w] word_char_ascii, of word_char]
  have "list_all word_char (c # takeWhile word_char s)"
    using w by (simp add: list_all_iff) (metis set_takeWhileD)
  then have "token_ok (case i64_from_str (c # takeWhile word_char s) of
      Some i \<Rightarrow> TNum i | None \<Rightarrow> TIdent (c # takeWhile word_char s))"
    by (simp add: i64_from_str_range split: option.split)
  from tokenize_ok_push [OF rec [OF t(2)] this] length_dropWhile_le [of word_char s] show ?thesis
    by (simp add: t(1))
qed

lemma tokenize_ok_if:
  "(b \<Longrightarrow> tokenize_ok n x) \<Longrightarrow> (\<not> b \<Longrightarrow> tokenize_ok n y) \<Longrightarrow> tokenize_ok n (if b then x else y)"
  by simp

lemma tokenize_result_ok: "valid_utf8 s \<Longrightarrow> tokenize_ok (length s) (tokenize s)"
proof (induction "length s" arbitrary: s rule: less_induct)
  case less
  show ?case
  proof (cases s)
    case Nil
    then show ?thesis by (simp add: tokenize.simps tokenize_ok_def tokens_ok_def)
  next
    case (Cons c t)
    have rec: "tokenize_ok (length r) (tokenize r)" if "length r \<le> length t" "valid_utf8 r" for r
      using less.hyps that Cons by simp
    have tail: "tokenize_ok (length t) (tokenize t)" if "is_ascii c"
      using rec [of t] less.prems Cons that by simp
    note push = tokenize_ok_push [OF tail _ lessI]
    show ?thesis
      unfolding Cons tokenize.simps(2) Let_def list.size(4) add_0_right add_Suc_right
    proof (intro tokenize_ok_if, goal_cases)
      case 1
      then have "is_ascii c" by (elim disjE) (simp_all add: is_ascii_def)
      from tokenize_ok_mono [OF tail [OF this]] show ?case by simp
    next
      case 8
      show ?case
      proof (rule tokenize_quote_ok)
        show "is_ascii c" using 8(8) by (elim disjE) (simp_all add: is_ascii_def)
        then show "valid_utf8 t" using less.prems Cons by simp
        show "tokenize_ok (length r) (tokenize r)"
          if "scan_string c t [] = Inr (buf, r)" "valid_utf8 r" for buf r
          using rec [OF _ that(2)] scan_string_length [OF that(1)] by simp
      qed
    next
      case 9
      show ?case
        by (rule tokenize_number_ok [OF _ conjunct1 [OF 9(9)] rec [OF length_dropWhile_le]])
          (use less.prems Cons in simp)
    next
      case 10
      show ?case
        by (rule tokenize_word_ok [OF _ 10(10) rec [OF length_dropWhile_le]])
          (use less.prems Cons in simp)
    next
      case 11
      then show ?case by (simp add: tokenize_ok_def)
    qed (simp_all add: push is_ascii_def)
  qed
qed

section \<open>Every text has a literal\<close>

text \<open>The quoted form of a text: quotes and backslashes behind a backslash.\<close>

definition escape_char :: "char \<Rightarrow> string" where
  "escape_char c = (if c = CHR 0x22 \<or> c = CHR 0x5C then [CHR 0x5C, c] else [c])"

definition quote_literal :: "string \<Rightarrow> string" where
  "quote_literal s = [CHR 0x22] @ concat (map escape_char s) @ [CHR 0x22]"

lemma escape_not_ascii: "\<forall>c \<in> set s. \<not> is_ascii c \<Longrightarrow> concat (map escape_char s) = s"
  by (induction s) (auto simp: escape_char_def is_ascii_def)

lemma valid_utf8_escape: "valid_utf8 s \<Longrightarrow> valid_utf8 (concat (map escape_char s))"
  by (rule valid_utf8_concat_map) (auto simp: escape_char_def is_ascii_def)

lemma scan_string_quoted:
  assumes "valid_utf8 s" and r: "valid_utf8 r"
  shows "scan_string (CHR 0x22) (concat (map escape_char s) @ CHR 0x22 # r) buf = Inr (buf @ s, r)"
  using assms(1)
proof (induction "length s" arbitrary: s buf rule: less_induct)
  case less
  show ?case
  proof (cases s)
    case Nil
    then show ?thesis by (simp add: scan_string_close)
  next
    case (Cons c t)
    with less.prems obtain n where n: "scalar_len s = Some n" and v: "valid_utf8 (drop n s)"
      by (blast elim: valid_utf8_scalar)
    have b: "1 \<le> n" "n \<le> length s" using scalar_len_bounds [OF n] by auto
    let ?rest = "concat (map escape_char (drop n s)) @ CHR 0x22 # r"
    have IH: "scan_string (CHR 0x22) ?rest buf' = Inr (buf' @ drop n s, r)" for buf'
      using less.hyps [of "drop n s" buf'] v b Cons by simp
    have vr: "valid_utf8 ?rest"
      using valid_utf8_escape [OF v] r by (simp add: valid_utf8_append is_ascii_def)
    have split: "concat (map escape_char s) @ CHR 0x22 # r = concat (map escape_char (take n s)) @ ?rest"
      by (metis append.assoc append_take_drop_id concat_append map_append)
    show ?thesis
    proof (cases "n = 1 \<and> (c = CHR 0x22 \<or> c = CHR 0x5C)")
      case True
      then have "simple_escape c = Some c" by (auto simp: simple_escape_def)
      note esc = scan_string_escape [OF this, of "CHR 0x22" ?rest buf]
      from True Cons have "concat (map escape_char (take n s)) = [CHR 0x5C, c]"
        by (auto simp: escape_char_def)
      then show ?thesis using IH [of "buf @ [c]"] True Cons esc by (simp only: split) simp
    next
      case False
      have c: "c \<noteq> CHR 0x22" "c \<noteq> CHR 0x5C"
        using False n Cons by (auto split: if_splits)
      have e: "concat (map escape_char (take n s)) = take n s"
      proof (cases "2 \<le> n")
        case True
        then show ?thesis by (rule escape_not_ascii [OF scalar_bytes_not_ascii [OF n]])
      next
        case False
        with b have "take n s = [c]" using Cons by (cases n) auto
        with c show ?thesis by (simp add: escape_char_def)
      qed
      have w: "utf8_width c = n" using utf8_width_scalar n Cons by blast
      obtain u where u: "take n s @ ?rest = c # u" using b Cons by (cases n) auto
      have "valid_utf8 (c # u)"
        using valid_utf8_take_scalar [OF n] vr by (simp add: u [symmetric] valid_utf8_append)
      moreover have "take n (c # u) = take n s" "drop n (c # u) = ?rest"
        using b by (simp_all add: u [symmetric])
      ultimately show ?thesis
        using scan_string_copy [of c u "CHR 0x22" buf] c w IH [of "buf @ take n s"]
        by (simp only: split e u) simp
    qed
  qed
qed

text \<open>Writing a text as a literal and tokenizing it gives it back.\<close>

lemma tokenize_quote_literal:
  assumes "valid_utf8 s"
  shows "tokenize (quote_literal s) = Inr [TStr s, Eof]"
proof -
  have "tokenize (CHR 0x22 # t) = (case scan_string (CHR 0x22) t [] of
      Inl e \<Rightarrow> Inl e | Inr (buf, r) \<Rightarrow> push (TStr buf) (tokenize r))" for t
    by (subst tokenize.simps) simp
  then show ?thesis
    using scan_string_quoted [OF assms, of "[]" "[]"]
    by (simp add: quote_literal_def push_def tokenize.simps(1))
qed

section \<open>Properties\<close>

text \<open>
  C20: On every UTF-8 text the tokenizer returns an error or a token list, never the panic of a
  string slice that cuts a character; a token list ends with its only \<open>Eof\<close>, holds integers
  of \<^verbatim>\<open>i64\<close> range, non-empty words and UTF-8 literals, and has at most one token per input byte
  and the \<open>Eof\<close>.
\<close>

theorem tokenizer_safe: "valid_utf8 s \<Longrightarrow> tokenize_ok (length s) (tokenize s)"
  by (rule tokenize_result_ok)

theorem tokenizer_safe_witness:
  "valid_utf8 ''ssl eq true'' \<and> tokenize_ok (length ''ssl eq true'') (tokenize ''ssl eq true'')"
proof -
  have "valid_utf8 ''ssl eq true''" by (simp add: is_ascii_def)
  with tokenizer_safe [of "''ssl eq true''"] show ?thesis by blast
qed

text \<open>
  Every UTF-8 text has a literal: its quoted form, with quotes and backslashes escaped,
  tokenizes to exactly that text.
\<close>

theorem literal_roundtrip: "valid_utf8 s \<Longrightarrow> tokenize (quote_literal s) = Inr [TStr s, Eof]"
  by (rule tokenize_quote_literal)

theorem literal_roundtrip_witness:
  "valid_utf8 [CHR 0x22, CHR 0x5C] \<and>
   tokenize (quote_literal [CHR 0x22, CHR 0x5C]) = Inr [TStr [CHR 0x22, CHR 0x5C], Eof]"
proof -
  have "valid_utf8 [CHR 0x22, CHR 0x5C]" by (simp add: is_ascii_def)
  with literal_roundtrip [of "[CHR 0x22, CHR 0x5C]"] show ?thesis by blast
qed

end
