(* ===== verification/Expr_Parser.thy ===== *)
theory Expr_Parser
  imports Expr_Lexer
begin

text \<open>
  \<^verbatim>\<open>src/pingwaf-waf/src/rules/expression.rs\<close>, the recursive-descent parser.  Its state keeps
  the tokens not yet consumed (\<^verbatim>\<open>toks[pos..]\<close>) and the nesting depth; the mutually recursive
  methods take fuel, and the lemmas show that four units per token and four more are always
  enough.  The foreign crates are a record of functions: parsing and matching of
  \<^verbatim>\<open>ipnet::IpNet\<close> and \<^verbatim>\<open>regex::Regex\<close>, the latter built with the size limit or without it.
\<close>

record ('net, 're) externals =
  net_from_str :: "string \<Rightarrow> 'net option"
  net_from_addr :: "IpAddr \<Rightarrow> 'net"
  net_contains :: "'net \<Rightarrow> IpAddr \<Rightarrow> bool"
  regex_limited :: "string \<Rightarrow> 're option"
  regex_new :: "string \<Rightarrow> 're option"
  regex_is_match :: "'re \<Rightarrow> string \<Rightarrow> bool"

definition MAX_EXPRESSION_LEN :: nat where "MAX_EXPRESSION_LEN = 16 * 1024"

definition MAX_EXPRESSION_TOKENS :: nat where "MAX_EXPRESSION_TOKENS = 512"

definition MAX_EXPRESSION_DEPTH :: nat where "MAX_EXPRESSION_DEPTH = 64"

record Parser =
  toks :: "Token list"
  depth :: nat

type_synonym 'a presult = "ParseError + 'a \<times> Parser"

definition pbind :: "'a presult \<Rightarrow> ('a \<Rightarrow> Parser \<Rightarrow> 'b presult) \<Rightarrow> 'b presult" where
  "pbind m f = (case m of Inl e \<Rightarrow> Inl e | Inr (x, p) \<Rightarrow> f x p)"

lemma pbind_simps [simp]: "pbind (Inl e) f = Inl e" "pbind (Inr (x, p)) f = f x p"
  by (simp_all add: pbind_def)

lemma pbind_Inr: "pbind m f = Inr r \<longleftrightarrow> (\<exists>x p. m = Inr (x, p) \<and> f x p = Inr r)"
  by (auto simp: pbind_def split: sum.splits prod.splits)

lemma pbind_Inl: "pbind m f = Inl e \<longleftrightarrow> m = Inl e \<or> (\<exists>x p. m = Inr (x, p) \<and> f x p = Inl e)"
  by (auto simp: pbind_def split: sum.splits prod.splits)

definition enter :: "Parser \<Rightarrow> unit presult" where
  "enter p = (if MAX_EXPRESSION_DEPTH < Suc (depth p) then Inl NestingTooDeep
              else Inr ((), p\<lparr>depth := Suc (depth p)\<rparr>))"

definition leave :: "Parser \<Rightarrow> Parser" where
  "leave p = p\<lparr>depth := depth p - 1\<rparr>"

definition peek :: "Parser \<Rightarrow> Token" where
  "peek p = (case toks p of [] \<Rightarrow> Eof | t # _ \<Rightarrow> t)"

definition next_token :: "Parser \<Rightarrow> Token \<times> Parser" where
  "next_token p = (case toks p of [] \<Rightarrow> (Eof, p) | t # ts \<Rightarrow> (t, p\<lparr>toks := ts\<rparr>))"

abbreviation advance :: "Parser \<Rightarrow> Parser" where
  "advance p \<equiv> snd (next_token p)"

definition expect_ident :: "Parser \<Rightarrow> string presult" where
  "expect_ident p =
     (case next_token p of (TIdent s, p') \<Rightarrow> Inr (s, p') | (other, _) \<Rightarrow> Inl (ExpectedIdent other))"

definition parse_operator :: "Parser \<Rightarrow> Operator presult" where
  "parse_operator p =
     (case next_token p of
        (TIdent word, p1) \<Rightarrow>
          (let lower = to_ascii_lowercase word in
           if lower \<in> {''eq'', ''='', ''==''} then Inr (Eq, p1)
           else if lower \<in> {''ne'', ''neq'', ''!=''} then Inr (Ne, p1)
           else if lower = ''contains'' then Inr (Contains, p1)
           else if lower = ''not_contains'' then Inr (NotContains, p1)
           else if lower = ''matches'' then Inr (Matches, p1)
           else if lower = ''in'' then Inr (In, p1)
           else if lower \<in> {''starts_with'', ''startswith''} then Inr (StartsWith, p1)
           else if lower \<in> {''ends_with'', ''endswith''} then Inr (EndsWith, p1)
           else if lower \<in> {''lt'', ''<''} then Inr (Lt, p1)
           else if lower \<in> {''gt'', ''>''} then Inr (Gt, p1)
           else if lower \<in> {''le'', ''<=''} then Inr (Le, p1)
           else if lower \<in> {''ge'', ''>=''} then Inr (Ge, p1)
           else if lower = ''not'' then
             (case next_token p1 of
                (TIdent s, p2) \<Rightarrow>
                  (let nxt = to_ascii_lowercase s in
                   if nxt = ''contains'' then Inr (NotContains, p2)
                   else if nxt = ''in'' then Inr (NotIn, p2)
                   else if nxt = ''matches'' then Inr (NotMatches, p2)
                   else Inl (UnsupportedNegated nxt))
              | (other, _) \<Rightarrow> Inl (ExpectedOperatorAfterNot other))
           else Inl (UnknownOperator lower))
      | (other, _) \<Rightarrow> Inl (ExpectedOperator other))"

definition parse_cidr :: "('net, 're) externals \<Rightarrow> string \<Rightarrow> ParseError + 'net" where
  "parse_cidr X s =
     (case net_from_str X s of
        Some net \<Rightarrow> Inr net
      | None \<Rightarrow>
          (case ip_from_str s of
             Some addr \<Rightarrow> Inr (net_from_addr X addr)
           | None \<Rightarrow> Inl (InvalidCidr s)))"

definition cidr_bound :: "FieldKind \<Rightarrow> Operator \<Rightarrow> bool" where
  "cidr_bound k op \<longleftrightarrow> k = IpSrc \<and> op \<in> {Eq, Ne, In, NotIn}"

definition finish_scalar ::
  "('net, 're) externals \<Rightarrow> FieldKind \<Rightarrow> Operator \<Rightarrow> ('net, 're) Value
     \<Rightarrow> ParseError + ('net, 're) Value" where
  "finish_scalar X k op v =
     (if op = Matches \<or> op = NotMatches then
        (case v of
           VStr pattern \<Rightarrow>
             (case regex_limited X pattern of
                Some re \<Rightarrow> Inr (VRegex re pattern)
              | None \<Rightarrow>
                  (case regex_new X pattern of
                     Some re \<Rightarrow> Inr (VRegex re pattern)
                   | None \<Rightarrow> Inl (BadRegex pattern)))
         | _ \<Rightarrow> Inl MatchesNeedsString)
      else if cidr_bound k op then
        (case v of
           VStr s \<Rightarrow> (case parse_cidr X s of Inl e \<Rightarrow> Inl e | Inr n \<Rightarrow> Inr (VCidrSet [n]))
         | _ \<Rightarrow> Inr v)
      else Inr v)"

datatype SetItem = ItemStr string | ItemNum int

fun set_items :: "Token list \<Rightarrow> ParseError + SetItem list \<times> Token list" where
  "set_items [] = Inl UnterminatedSet"
| "set_items (RBrace # ts) = Inr ([], ts)"
| "set_items (Eof # ts) = Inl UnterminatedSet"
| "set_items (t # ts) =
     (case (case t of TStr s \<Rightarrow> Some (ItemStr s) | TNum n \<Rightarrow> Some (ItemNum n)
                    | TIdent s \<Rightarrow> Some (ItemStr s) | _ \<Rightarrow> None) of
        None \<Rightarrow> Inl (UnexpectedInSet t)
      | Some it \<Rightarrow>
          (case set_items ts of Inl e \<Rightarrow> Inl e | Inr (its, r) \<Rightarrow> Inr (it # its, r)))"

fun cidr_items :: "('net, 're) externals \<Rightarrow> SetItem list \<Rightarrow> ParseError + 'net list" where
  "cidr_items X [] = Inr []"
| "cidr_items X (ItemStr s # its) =
     (case parse_cidr X s of
        Inl e \<Rightarrow> Inl e
      | Inr n \<Rightarrow> (case cidr_items X its of Inl e \<Rightarrow> Inl e | Inr ns \<Rightarrow> Inr (n # ns)))"
| "cidr_items X (ItemNum _ # its) = cidr_items X its"

definition item_text :: "SetItem \<Rightarrow> string" where
  "item_text it = (case it of ItemStr s \<Rightarrow> s | ItemNum n \<Rightarrow> show_int n)"

definition with_parser :: "Parser \<Rightarrow> ParseError + 'a \<Rightarrow> 'a presult" where
  "with_parser p r = (case r of Inl e \<Rightarrow> Inl e | Inr x \<Rightarrow> Inr (x, p))"

definition parse_value ::
  "('net, 're) externals \<Rightarrow> FieldKind \<Rightarrow> Operator \<Rightarrow> Parser \<Rightarrow> ('net, 're) Value presult" where
  "parse_value X k op p =
     (case next_token p of
        (TStr s, p1) \<Rightarrow> with_parser p1 (finish_scalar X k op (VStr s))
      | (TNum n, p1) \<Rightarrow> with_parser p1 (finish_scalar X k op (VNum n))
      | (TIdent s, p1) \<Rightarrow>
          (let lower = to_ascii_lowercase s;
               v = (if lower = ''true'' then VBool True
                    else if lower = ''false'' then VBool False else VStr s)
           in with_parser p1 (finish_scalar X k op v))
      | (LBrace, p1) \<Rightarrow>
          (case set_items (toks p1) of
             Inl e \<Rightarrow> Inl e
           | Inr (items, r) \<Rightarrow>
               with_parser (p1\<lparr>toks := r\<rparr>)
                 (if cidr_bound k op then
                    (case cidr_items X items of Inl e \<Rightarrow> Inl e | Inr ns \<Rightarrow> Inr (VCidrSet ns))
                  else Inr (VSet (map item_text items))))
      | (other, _) \<Rightarrow> Inl (ExpectedValue other))"

text \<open>The header aliases, then the optional \<^verbatim>\<open>["name"]\<close> index.\<close>

definition field_alias :: "string \<Rightarrow> Field" where
  "field_alias path =
     (case from_path path of
        UnknownField name \<Rightarrow>
          if name = ''http.referer'' then \<lparr>kind = RequestHeader, index = Some ''referer''\<rparr>
          else if name = ''http.cookie'' then \<lparr>kind = RequestHeader, index = Some ''cookie''\<rparr>
          else \<lparr>kind = UnknownField name, index = None\<rparr>
      | k \<Rightarrow> \<lparr>kind = k, index = None\<rparr>)"

definition parse_index :: "Field \<Rightarrow> Parser \<Rightarrow> Field presult" where
  "parse_index fld p =
     (if peek p = LBracket then
        (case next_token (advance p) of
           (TStr s, p2) \<Rightarrow>
             (if fst (next_token p2) = RBracket then Inr (fld\<lparr>index := Some s\<rparr>, advance p2)
              else Inl ExpectedRBracket)
         | (other, _) \<Rightarrow> Inl (ExpectedIndexString other))
      else Inr (fld, p))"

definition parse_comparison ::
  "('net, 're) externals \<Rightarrow> Parser \<Rightarrow> ('net, 're) Expression presult" where
  "parse_comparison X p =
     pbind (expect_ident p) (\<lambda>path p1.
     pbind (parse_index (field_alias path) p1) (\<lambda>fld p2.
     pbind (parse_operator p2) (\<lambda>op p3.
     pbind (parse_value X (kind fld) op p3) (\<lambda>v p4. Inr (FieldE fld op v, p4)))))"

definition keyword :: "string \<Rightarrow> Parser \<Rightarrow> bool" where
  "keyword w p = (case peek p of TIdent s \<Rightarrow> eq_ignore_ascii_case s w | _ \<Rightarrow> False)"

fun parse_or :: "('net, 're) externals \<Rightarrow> nat \<Rightarrow> Parser \<Rightarrow> ('net, 're) Expression presult"
and parse_or_loop ::
  "('net, 're) externals \<Rightarrow> nat \<Rightarrow> ('net, 're) Expression \<Rightarrow> Parser \<Rightarrow> ('net, 're) Expression presult"
and parse_and :: "('net, 're) externals \<Rightarrow> nat \<Rightarrow> Parser \<Rightarrow> ('net, 're) Expression presult"
and parse_and_loop ::
  "('net, 're) externals \<Rightarrow> nat \<Rightarrow> ('net, 're) Expression \<Rightarrow> Parser \<Rightarrow> ('net, 're) Expression presult"
and parse_unary :: "('net, 're) externals \<Rightarrow> nat \<Rightarrow> Parser \<Rightarrow> ('net, 're) Expression presult"
and parse_primary :: "('net, 're) externals \<Rightarrow> nat \<Rightarrow> Parser \<Rightarrow> ('net, 're) Expression presult"
where
  "parse_or X 0 p = Inl OutOfFuel"
| "parse_or X (Suc f) p = pbind (parse_and X f p) (parse_or_loop X f)"
| "parse_or_loop X 0 lhs p = Inl OutOfFuel"
| "parse_or_loop X (Suc f) lhs p =
     (if keyword ''or'' p then
        pbind (parse_and X f (advance p)) (\<lambda>rhs. parse_or_loop X f (OrE lhs rhs))
      else Inr (lhs, p))"
| "parse_and X 0 p = Inl OutOfFuel"
| "parse_and X (Suc f) p = pbind (parse_unary X f p) (parse_and_loop X f)"
| "parse_and_loop X 0 lhs p = Inl OutOfFuel"
| "parse_and_loop X (Suc f) lhs p =
     (if keyword ''and'' p then
        pbind (parse_unary X f (advance p)) (\<lambda>rhs. parse_and_loop X f (AndE lhs rhs))
      else Inr (lhs, p))"
| "parse_unary X 0 p = Inl OutOfFuel"
| "parse_unary X (Suc f) p =
     (if keyword ''not'' p then
        pbind (enter (advance p)) (\<lambda>_ p1.
        pbind (parse_unary X f p1) (\<lambda>inner p2. Inr (NotE inner, leave p2)))
      else parse_primary X f p)"
| "parse_primary X 0 p = Inl OutOfFuel"
| "parse_primary X (Suc f) p =
     (case peek p of
        LParen \<Rightarrow>
          pbind (enter (advance p)) (\<lambda>_ p1.
          pbind (parse_or X f p1) (\<lambda>e p2.
            let p3 = leave p2 in
            if fst (next_token p3) = RParen then Inr (e, advance p3) else Inl ExpectedRParen))
      | TIdent _ \<Rightarrow> parse_comparison X p
      | other \<Rightarrow> Inl (UnexpectedToken other))"

definition parse_fuel :: "Token list \<Rightarrow> nat" where
  "parse_fuel ts = 4 * length ts + 4"

text \<open>\<^verbatim>\<open>parse_expression\<close> past the cache lookup.\<close>

definition parse_tokens ::
  "('net, 're) externals \<Rightarrow> Token list \<Rightarrow> ParseError + ('net, 're) Expression" where
  "parse_tokens X ts =
     (if MAX_EXPRESSION_TOKENS < length ts then Inl (TooManyTokens (length ts))
      else case parse_or X (parse_fuel ts) \<lparr>toks = ts, depth = 0\<rparr> of
             Inl e \<Rightarrow> Inl e
           | Inr (e, p) \<Rightarrow>
               if peek p \<noteq> Eof then Inl (TrailingTokens (length ts - length (toks p))) else Inr e)"

definition parse_uncached ::
  "('net, 're) externals \<Rightarrow> string \<Rightarrow> ParseError + ('net, 're) Expression" where
  "parse_uncached X input =
     (case tokenize input of Inl e \<Rightarrow> Inl e | Inr ts \<Rightarrow> parse_tokens X ts)"

end
