(* ===== verification/Expr_Grammar.thy ===== *)
theory Expr_Grammar
  imports Expr_Parser
begin

text \<open>
  The grammar of rule expressions as inductive relations over token lists, and the proof that
  the recursive-descent parser of \<^verbatim>\<open>expression.rs\<close> decides it: what it accepts is derivable,
  what is derivable within the limits it accepts with that very tree, its fuel is always
  enough, and the grammar is unambiguous.
\<close>

section \<open>Consumption and fuel\<close>

text \<open>A successful parse consumes a non-empty prefix of the tokens, none of them \<open>Eof\<close>, and
  leaves the depth as it found it.\<close>

definition consumes :: "Token list \<Rightarrow> Parser \<Rightarrow> Parser \<Rightarrow> bool" where
  "consumes u p q \<longleftrightarrow> toks p = u @ toks q \<and> depth q = depth p"

lemma consumes_refl [simp, intro]: "consumes [] p p"
  by (simp add: consumes_def)

lemma consumes_trans: "consumes u p q \<Longrightarrow> consumes v q r \<Longrightarrow> consumes (u @ v) p r"
  by (simp add: consumes_def)

lemma next_token_cases:
  "next_token p = (t, q) \<Longrightarrow> (consumes [t] p q) \<or> (t = Eof \<and> q = p \<and> toks p = [])"
  by (auto simp: next_token_def consumes_def split: list.splits)

lemma next_token_consumes: "next_token p = (t, q) \<Longrightarrow> t \<noteq> Eof \<Longrightarrow> consumes [t] p q"
  using next_token_cases by blast

lemma peek_next: "peek p = fst (next_token p)"
  by (simp add: peek_def next_token_def split: list.splits)

lemma peek_advance: "peek p = t \<Longrightarrow> t \<noteq> Eof \<Longrightarrow> consumes [t] p (advance p)"
  by (metis next_token_consumes peek_next surjective_pairing)

lemma consumes_Cons: "consumes [t] p q \<Longrightarrow> consumes u q r \<Longrightarrow> consumes (t # u) p r"
  by (simp add: consumes_def)

lemma consumes_next:
  assumes "consumes (t # u) p q"
  obtains p' where "next_token p = (t, p')" and "peek p = t" and "consumes u p' q"
proof (rule that [of "p\<lparr>toks := u @ toks q\<rparr>"])
qed (use assms in \<open>simp_all add: consumes_def next_token_def peek_def\<close>)

lemma consumes_Nil_iff [simp]: "consumes [] p q \<longleftrightarrow> p = q"
  by (cases p; cases q) (auto simp: consumes_def)

lemma consumes_single: "consumes [t] p q \<longleftrightarrow> next_token p = (t, q) \<and> toks p \<noteq> []"
  by (cases p; cases q) (auto simp: consumes_def next_token_def split: list.splits)

lemma consumes_appendE:
  assumes "consumes (u @ v) p r"
  obtains q where "consumes u p q" and "consumes v q r"
  using assms that [of "p\<lparr>toks := v @ toks r\<rparr>"] by (simp add: consumes_def)

section \<open>The grammar\<close>

inductive field_toks :: "Token list \<Rightarrow> Field \<Rightarrow> bool" where
  plain: "field_toks [TIdent path] (field_alias path)"
| indexed: "field_toks [TIdent path, LBracket, TStr s, RBracket] ((field_alias path)\<lparr>index := Some s\<rparr>)"

definition operator_words :: "(string \<times> Operator) list" where
  "operator_words =
     [(''eq'', Eq), (''='', Eq), (''=='', Eq), (''ne'', Ne), (''neq'', Ne), (''!='', Ne),
      (''contains'', Contains), (''not_contains'', NotContains), (''matches'', Matches),
      (''in'', In), (''starts_with'', StartsWith), (''startswith'', StartsWith),
      (''ends_with'', EndsWith), (''endswith'', EndsWith), (''lt'', Lt), (''<'', Lt),
      (''gt'', Gt), (''>'', Gt), (''le'', Le), (''<='', Le), (''ge'', Ge), (''>='', Ge)]"

definition negated_words :: "(string \<times> Operator) list" where
  "negated_words = [(''contains'', NotContains), (''in'', NotIn), (''matches'', NotMatches)]"

inductive operator_toks :: "Token list \<Rightarrow> Operator \<Rightarrow> bool" where
  word: "map_of operator_words (to_ascii_lowercase w) = Some op \<Longrightarrow> operator_toks [TIdent w] op"
| negated: "to_ascii_lowercase n = ''not'' \<Longrightarrow>
    map_of negated_words (to_ascii_lowercase w) = Some op \<Longrightarrow> operator_toks [TIdent n, TIdent w] op"

fun scalar_value_of :: "Token \<Rightarrow> ('net, 're) Value option" where
  "scalar_value_of (TStr s) = Some (VStr s)"
| "scalar_value_of (TNum n) = Some (VNum n)"
| "scalar_value_of (TIdent s) =
     (if to_ascii_lowercase s = ''true'' then Some (VBool True)
      else if to_ascii_lowercase s = ''false'' then Some (VBool False) else Some (VStr s))"
| "scalar_value_of _ = None"

fun item_of :: "Token \<Rightarrow> SetItem option" where
  "item_of (TStr s) = Some (ItemStr s)"
| "item_of (TNum n) = Some (ItemNum n)"
| "item_of (TIdent s) = Some (ItemStr s)"
| "item_of _ = None"

inductive value_toks ::
  "('net, 're) externals \<Rightarrow> FieldKind \<Rightarrow> Operator \<Rightarrow> Token list \<Rightarrow> ('net, 're) Value \<Rightarrow> bool"
  for X k op where
  scalar: "scalar_value_of t = Some v \<Longrightarrow> finish_scalar X k op v = Inr v' \<Longrightarrow>
    value_toks X k op [t] v'"
| cidrs: "map item_of ts = map Some items \<Longrightarrow> cidr_bound k op \<Longrightarrow> cidr_items X items = Inr ns \<Longrightarrow>
    value_toks X k op (LBrace # ts @ [RBrace]) (VCidrSet ns)"
| strings: "map item_of ts = map Some items \<Longrightarrow> \<not> cidr_bound k op \<Longrightarrow>
    value_toks X k op (LBrace # ts @ [RBrace]) (VSet (map item_text items))"

inductive comparison_toks ::
  "('net, 're) externals \<Rightarrow> Token list \<Rightarrow> ('net, 're) Expression \<Rightarrow> bool" for X where
  "field_toks fs fld \<Longrightarrow> operator_toks os op \<Longrightarrow> value_toks X (kind fld) op vs v \<Longrightarrow>
   comparison_toks X (fs @ os @ vs) (FieldE fld op v)"

definition keyword_token :: "string \<Rightarrow> Token \<Rightarrow> bool" where
  "keyword_token w t = (case t of TIdent s \<Rightarrow> eq_ignore_ascii_case s w | _ \<Rightarrow> False)"

text \<open>The number is how many more levels of parentheses and \<open>not\<close> are allowed.\<close>

inductive or_toks :: "('net, 're) externals \<Rightarrow> nat \<Rightarrow> Token list \<Rightarrow> ('net, 're) Expression \<Rightarrow> bool"
  and and_toks :: "('net, 're) externals \<Rightarrow> nat \<Rightarrow> Token list \<Rightarrow> ('net, 're) Expression \<Rightarrow> bool"
  and unary_toks :: "('net, 're) externals \<Rightarrow> nat \<Rightarrow> Token list \<Rightarrow> ('net, 're) Expression \<Rightarrow> bool"
  and primary_toks :: "('net, 're) externals \<Rightarrow> nat \<Rightarrow> Token list \<Rightarrow> ('net, 're) Expression \<Rightarrow> bool"
  for X where
  or_one: "and_toks X n u a \<Longrightarrow> or_toks X n u a"
| or_more: "or_toks X n u a \<Longrightarrow> keyword_token ''or'' t \<Longrightarrow> and_toks X n v b \<Longrightarrow>
    or_toks X n (u @ t # v) (OrE a b)"
| and_one: "unary_toks X n u a \<Longrightarrow> and_toks X n u a"
| and_more: "and_toks X n u a \<Longrightarrow> keyword_token ''and'' t \<Longrightarrow> unary_toks X n v b \<Longrightarrow>
    and_toks X n (u @ t # v) (AndE a b)"
| unary_not: "keyword_token ''not'' t \<Longrightarrow> unary_toks X n u a \<Longrightarrow>
    unary_toks X (Suc n) (t # u) (NotE a)"
| unary_primary: "primary_toks X n u a \<Longrightarrow> \<not> keyword_token ''not'' (hd u) \<Longrightarrow> unary_toks X n u a"
| primary_paren: "or_toks X n u a \<Longrightarrow> primary_toks X (Suc n) (LParen # u @ [RParen]) a"
| primary_comparison: "comparison_toks X u a \<Longrightarrow> primary_toks X n u a"

section \<open>The leaf parsers\<close>

lemma parse_operator_table:
  "parse_operator p =
     (case next_token p of
        (TIdent w, p1) \<Rightarrow>
          (case map_of operator_words (to_ascii_lowercase w) of
             Some op \<Rightarrow> Inr (op, p1)
           | None \<Rightarrow>
               if to_ascii_lowercase w = ''not'' then
                 (case next_token p1 of
                    (TIdent s, p2) \<Rightarrow>
                      (case map_of negated_words (to_ascii_lowercase s) of
                         Some op \<Rightarrow> Inr (op, p2)
                       | None \<Rightarrow> Inl (UnsupportedNegated (to_ascii_lowercase s)))
                  | (other, _) \<Rightarrow> Inl (ExpectedOperatorAfterNot other))
               else Inl (UnknownOperator (to_ascii_lowercase w)))
      | (other, _) \<Rightarrow> Inl (ExpectedOperator other))"
  unfolding parse_operator_def operator_words_def negated_words_def Let_def
  by (intro prod.case_cong Token.case_cong refl) (auto split: Token.split prod.split)

lemma parse_operator_sound:
  "parse_operator p = Inr (op, q) \<Longrightarrow> \<exists>u. operator_toks u op \<and> consumes u p q"
  by (auto simp: parse_operator_table intro: operator_toks.intros consumes_Cons
      split: prod.splits Token.splits option.splits if_splits dest!: next_token_cases)

lemma operator_words_not: "map_of operator_words ''not'' = None"
  by (simp add: operator_words_def)

lemma parse_operator_complete:
  "operator_toks u op \<Longrightarrow> consumes u p q \<Longrightarrow> parse_operator p = Inr (op, q)"
  by (induction rule: operator_toks.induct)
     (auto simp: parse_operator_table operator_words_not elim!: consumes_next)

lemma set_items_sound:
  "set_items ts = Inr (items, r) \<Longrightarrow> \<exists>u. ts = u @ RBrace # r \<and> map item_of u = map Some items"
proof (induction ts arbitrary: items)
  case (Cons t ts)
  then show ?case
    by (cases t) (auto 0 3 split: sum.splits intro: exI [of _ "_ # _"])
qed simp

lemma item_of_set_items:
  "item_of t = Some it \<Longrightarrow> set_items (t # ts) =
     (case set_items ts of Inl e \<Rightarrow> Inl e | Inr (its, r) \<Rightarrow> Inr (it # its, r))"
  by (cases t) auto

lemma set_items_complete:
  "map item_of u = map Some items \<Longrightarrow> set_items (u @ RBrace # r) = Inr (items, r)"
proof (induction u arbitrary: items)
  case (Cons t u)
  then obtain it its where "items = it # its" by (cases items) auto
  with Cons show ?case by (simp add: item_of_set_items)
qed simp

lemma parse_value_scalar:
  "scalar_value_of t = Some v \<Longrightarrow> next_token p = (t, q) \<Longrightarrow>
   parse_value X k op p = with_parser q (finish_scalar X k op v)"
  by (cases t) (auto simp: parse_value_def Let_def split: if_splits)

lemma parse_value_set:
  "next_token p = (LBrace, q) \<Longrightarrow> set_items (toks q) = Inr (items, r) \<Longrightarrow>
   parse_value X k op p = with_parser (q\<lparr>toks := r\<rparr>)
     (if cidr_bound k op then
        (case cidr_items X items of Inl e \<Rightarrow> Inl e | Inr ns \<Rightarrow> Inr (VCidrSet ns))
      else Inr (VSet (map item_text items)))"
  by (simp add: parse_value_def)

lemma parse_value_complete:
  "value_toks X k op u v \<Longrightarrow> consumes u p q \<Longrightarrow> parse_value X k op p = Inr (v, q)"
proof (induction rule: value_toks.induct)
  case (scalar t v v')
  then show ?case by (auto simp: consumes_single parse_value_scalar with_parser_def)
next
  case (cidrs ts items ns)
  from cidrs.prems obtain p' where p': "next_token p = (LBrace, p')" "consumes (ts @ [RBrace]) p' q"
    by (auto elim: consumes_next)
  then have "toks p' = ts @ RBrace # toks q" "q = p'\<lparr>toks := toks q\<rparr>"
    by (auto simp: consumes_def)
  with cidrs set_items_complete [of ts items "toks q"] p'(1) show ?case
    by (simp add: parse_value_set with_parser_def)
next
  case (strings ts items)
  from strings.prems obtain p' where p': "next_token p = (LBrace, p')" "consumes (ts @ [RBrace]) p' q"
    by (auto elim: consumes_next)
  then have "toks p' = ts @ RBrace # toks q" "q = p'\<lparr>toks := toks q\<rparr>"
    by (auto simp: consumes_def)
  with strings set_items_complete [of ts items "toks q"] p'(1) show ?case
    by (simp add: parse_value_set with_parser_def)
qed

lemma parse_value_sound:
  assumes "parse_value X k op p = Inr (v, q)"
  shows "\<exists>u. value_toks X k op u v \<and> consumes u p q"
proof -
  obtain t p1 where n: "next_token p = (t, p1)" by fastforce
  show ?thesis
  proof (cases "scalar_value_of t :: ('a, 'b) Value option")
    case (Some w)
    then have "t \<noteq> Eof" by auto
    with n have "consumes [t] p p1" by (simp add: next_token_consumes)
    with assms Some n show ?thesis
      by (auto simp: parse_value_scalar with_parser_def split: sum.splits intro: value_toks.scalar)
  next
    case None
    with assms n have t: "t = LBrace"
      by (cases t) (auto simp: parse_value_def split: if_splits)
    with assms n obtain items r where i: "set_items (toks p1) = Inr (items, r)"
      by (auto simp: parse_value_def split: sum.splits)
    then obtain u where u: "toks p1 = u @ RBrace # r" "map item_of u = map Some items"
      using set_items_sound by blast
    have q: "q = p1\<lparr>toks := r\<rparr>"
      using assms n t i by (auto simp: parse_value_set with_parser_def split: sum.splits)
    have c: "consumes (LBrace # u @ [RBrace]) p q"
      using next_token_consumes [OF n] t u(1) q by (simp add: consumes_def)
    have "value_toks X k op (LBrace # u @ [RBrace]) v"
      using assms n t i u(2)
      by (auto simp: parse_value_set with_parser_def intro: value_toks.intros
          split: sum.splits if_splits)
    with c show ?thesis by blast
  qed
qed

lemma parse_index_sound:
  "parse_index fld p = Inr (fld', q) \<Longrightarrow> (fld' = fld \<and> q = p) \<or>
    (\<exists>s. fld' = fld\<lparr>index := Some s\<rparr> \<and> consumes [LBracket, TStr s, RBracket] p q)"
  by (auto simp: parse_index_def peek_next consumes_def next_token_def
      split: if_splits prod.splits Token.splits list.splits)

lemma parse_index_complete:
  assumes "consumes [LBracket, TStr s, RBracket] p q"
  shows "parse_index fld p = Inr (fld\<lparr>index := Some s\<rparr>, q)"
  using assms by (auto simp: parse_index_def elim!: consumes_next)

lemma parse_comparison_sound:
  assumes "parse_comparison X p = Inr (e, q)"
  shows "\<exists>u. comparison_toks X u e \<and> consumes u p q"
proof -
  from assms obtain path p1 fld p2 op p3 v where
    1: "expect_ident p = Inr (path, p1)" and 2: "parse_index (field_alias path) p1 = Inr (fld, p2)"
    and 3: "parse_operator p2 = Inr (op, p3)" and 4: "parse_value X (kind fld) op p3 = Inr (v, q)"
    and e: "e = FieldE fld op v"
    by (auto simp: parse_comparison_def pbind_Inr)
  from 1 have "consumes [TIdent path] p p1"
    by (auto simp: expect_ident_def split: prod.splits Token.splits dest!: next_token_cases)
  with parse_index_sound [OF 2] obtain fs where "field_toks fs fld" "consumes fs p p2"
    by (auto intro: field_toks.intros consumes_Cons)
  moreover obtain os where "operator_toks os op" "consumes os p2 p3"
    using parse_operator_sound [OF 3] by blast
  moreover obtain vs where "value_toks X (kind fld) op vs v" "consumes vs p3 q"
    using parse_value_sound [OF 4] by blast
  ultimately show ?thesis unfolding e by (blast intro: comparison_toks.intros consumes_trans)
qed

lemma operator_toks_head: "operator_toks u op \<Longrightarrow> \<exists>w v. u = TIdent w # v"
  by (auto elim: operator_toks.cases)

lemma parse_comparison_complete:
  assumes "comparison_toks X u e" and "consumes u p q"
  shows "parse_comparison X p = Inr (e, q)"
  using assms
proof (induction rule: comparison_toks.induct)
  case (1 fs fld os op vs v)
  then obtain p2 p3 where c: "consumes fs p p2" "consumes os p2 p3" "consumes vs p3 q"
    by (auto elim!: consumes_appendE)
  have nb: "peek p2 \<noteq> LBracket" using operator_toks_head [OF 1(2)] c(2) by (auto elim: consumes_next)
  have "\<exists>path p1. expect_ident p = Inr (path, p1)
      \<and> parse_index (field_alias path) p1 = Inr (fld, p2)"
    using 1(1) c(1) nb
  proof (induction rule: field_toks.induct)
    case (plain path)
    then show ?case
      by (intro exI [of _ path] exI [of _ p2])
         (auto simp: expect_ident_def parse_index_def elim!: consumes_next)
  next
    case (indexed path s)
    then obtain p1 where "next_token p = (TIdent path, p1)"
      "consumes [LBracket, TStr s, RBracket] p1 p2" by (auto elim: consumes_next)
    then show ?case
      by (intro exI [of _ path] exI [of _ p1])
         (simp add: expect_ident_def parse_index_complete)
  qed
  with c parse_operator_complete [OF 1(2)] parse_value_complete [OF 1(3)] show ?case
    by (auto simp: parse_comparison_def)
qed

section \<open>Recursive descent\<close>

lemma keyword_token: "keyword w p \<longleftrightarrow> keyword_token w (peek p)"
  by (simp add: keyword_def keyword_token_def)

lemma keyword_token_not_Eof: "keyword_token w t \<Longrightarrow> t \<noteq> Eof"
  by (auto simp: keyword_token_def)

lemma keyword_consumes: "keyword w p \<Longrightarrow> consumes [peek p] p (advance p)"
  by (simp add: keyword_token keyword_token_not_Eof peek_advance)

text \<open>Nesting still allowed at a state.\<close>

definition room :: "Parser \<Rightarrow> nat" where
  "room p = MAX_EXPRESSION_DEPTH - depth p"

lemma room_consumes: "consumes u p q \<Longrightarrow> room q = room p"
  by (simp add: consumes_def room_def)

lemma enter_Inr:
  "enter p = Inr (x, q) \<longleftrightarrow>
     depth p < MAX_EXPRESSION_DEPTH \<and> q = p\<lparr>depth := Suc (depth p)\<rparr>"
  by (auto simp: enter_def)

lemma enter_room: "enter p = Inr (x, q) \<Longrightarrow> room p = Suc (room q)"
  by (auto simp: enter_Inr room_def)

lemma nested_consumes:
  "enter p = Inr (x, p1) \<Longrightarrow> consumes u p1 p2 \<Longrightarrow> consumes u p (leave p2)"
  by (auto simp: enter_Inr consumes_def leave_def)

lemma comparison_toks_hd: "comparison_toks X u e \<Longrightarrow> u \<noteq> []"
  by (auto elim: comparison_toks.cases field_toks.cases)

lemma grammar_not_Nil:
  "or_toks X n u e \<Longrightarrow> u \<noteq> []"
  "and_toks X n u e \<Longrightarrow> u \<noteq> []"
  "unary_toks X n u e \<Longrightarrow> u \<noteq> []"
  "primary_toks X n u e \<Longrightarrow> u \<noteq> []"
  by (induction rule: or_toks_and_toks_unary_toks_primary_toks.inducts)
     (auto simp: comparison_toks_hd)

lemma hd_consumes: "consumes u p q \<Longrightarrow> u \<noteq> [] \<Longrightarrow> peek p = hd u"
  by (cases u) (auto simp: consumes_def peek_def)

text \<open>One turn of a loop, for the relation \<open>G\<close> of its level.\<close>

lemma loop_step_sound:
  assumes "keyword w p" and "consumes u (advance p) p1" and "consumes v p1 q"
    and "\<And>u0. G u0 lhs \<Longrightarrow> G (u0 @ peek p # u) m" and "\<forall>u0. G u0 m \<longrightarrow> G (u0 @ v) e"
  shows "\<exists>u. consumes u p q \<and> (\<forall>u0. G u0 lhs \<longrightarrow> G (u0 @ u) e)"
proof (intro exI conjI allI impI)
  show "consumes (peek p # u @ v) p q"
    using keyword_consumes [OF assms(1)] assms(2,3) by (blast intro: consumes_Cons consumes_trans)
  show "G (u0 @ peek p # u @ v) e" if "G u0 lhs" for u0
    using assms(4) [OF that] assms(5) by force
qed

lemma descent_sound:
  "parse_or X f p = Inr (e, q) \<Longrightarrow> \<exists>u. consumes u p q \<and> or_toks X (room p) u e"
  "parse_or_loop X f lhs p = Inr (e, q) \<Longrightarrow>
     \<exists>u. consumes u p q \<and> (\<forall>u0. or_toks X (room p) u0 lhs \<longrightarrow> or_toks X (room p) (u0 @ u) e)"
  "parse_and X f p = Inr (e, q) \<Longrightarrow> \<exists>u. consumes u p q \<and> and_toks X (room p) u e"
  "parse_and_loop X f lhs p = Inr (e, q) \<Longrightarrow>
     \<exists>u. consumes u p q \<and> (\<forall>u0. and_toks X (room p) u0 lhs \<longrightarrow> and_toks X (room p) (u0 @ u) e)"
  "parse_unary X f p = Inr (e, q) \<Longrightarrow> \<exists>u. consumes u p q \<and> unary_toks X (room p) u e"
  "parse_primary X f p = Inr (e, q) \<Longrightarrow> \<exists>u. consumes u p q \<and> primary_toks X (room p) u e"
proof (induction X f p and X f lhs p and X f p and X f lhs p and X f p and X f p
    arbitrary: e q and e q and e q and e q and e q and e q
    rule: parse_or_parse_or_loop_parse_and_parse_and_loop_parse_unary_parse_primary.induct)
  case (2 X f p)
  then obtain a p1 where 1: "parse_and X f p = Inr (a, p1)" and 3: "parse_or_loop X f a p1 = Inr (e, q)"
    by (auto simp: pbind_Inr)
  from 2(1) [OF 1] obtain u where u: "consumes u p p1" "and_toks X (room p) u a" by blast
  from 2(2) [OF 3] obtain v where v: "consumes v p1 q" "or_toks X (room p) (u @ v) e"
    using room_consumes [OF u(1)] or_one [OF u(2)] by auto
  with u consumes_trans show ?case by blast
next
  case (4 X f lhs p)
  show ?case
  proof (cases "keyword ''or'' p")
    case True
    with 4 obtain b p1 where 1: "parse_and X f (advance p) = Inr (b, p1)"
      and 3: "parse_or_loop X f (OrE lhs b) p1 = Inr (e, q)" by (auto simp: pbind_Inr)
    note k = keyword_consumes [OF True]
    from 4(1) [OF True 1] obtain u where u: "consumes u (advance p) p1"
      "and_toks X (room p) u b" using room_consumes [OF k] by auto
    from 4(2) [OF True 3] obtain v where v: "consumes v p1 q"
      "\<forall>u0. or_toks X (room p) u0 (OrE lhs b) \<longrightarrow> or_toks X (room p) (u0 @ v) e"
      using room_consumes [OF k] room_consumes [OF u(1)] by auto
    show ?thesis
      by (rule loop_step_sound [OF True u(1) v(1) _ v(2)])
         (use u(2) True or_more in \<open>auto simp: keyword_token\<close>)
  next
    case False
    with 4(3) show ?thesis by (auto intro: exI [of _ "[]"])
  qed
next
  case (6 X f p)
  then obtain a p1 where 1: "parse_unary X f p = Inr (a, p1)" and 3: "parse_and_loop X f a p1 = Inr (e, q)"
    by (auto simp: pbind_Inr)
  from 6(1) [OF 1] obtain u where u: "consumes u p p1" "unary_toks X (room p) u a" by blast
  from 6(2) [OF 3] obtain v where v: "consumes v p1 q" "and_toks X (room p) (u @ v) e"
    using room_consumes [OF u(1)] and_one [OF u(2)] by auto
  with u consumes_trans show ?case by blast
next
  case (8 X f lhs p)
  show ?case
  proof (cases "keyword ''and'' p")
    case True
    with 8 obtain b p1 where 1: "parse_unary X f (advance p) = Inr (b, p1)"
      and 3: "parse_and_loop X f (AndE lhs b) p1 = Inr (e, q)" by (auto simp: pbind_Inr)
    note k = keyword_consumes [OF True]
    from 8(1) [OF True 1] obtain u where u: "consumes u (advance p) p1"
      "unary_toks X (room p) u b" using room_consumes [OF k] by auto
    from 8(2) [OF True 3] obtain v where v: "consumes v p1 q"
      "\<forall>u0. and_toks X (room p) u0 (AndE lhs b) \<longrightarrow> and_toks X (room p) (u0 @ v) e"
      using room_consumes [OF k] room_consumes [OF u(1)] by auto
    show ?thesis
      by (rule loop_step_sound [OF True u(1) v(1) _ v(2)])
         (use u(2) True and_more in \<open>auto simp: keyword_token\<close>)
  next
    case False
    with 8(3) show ?thesis by (auto intro: exI [of _ "[]"])
  qed
next
  case (10 X f p)
  show ?case
  proof (cases "keyword ''not'' p")
    case True
    with 10 obtain p1 a p2 where 1: "enter (advance p) = Inr ((), p1)"
      and 2: "parse_unary X f p1 = Inr (a, p2)" and e: "e = NotE a" "q = leave p2"
      by (auto simp: pbind_Inr)
    note k = keyword_consumes [OF True]
    from 10(1) [OF True 2] obtain u where u: "consumes u p1 p2" "unary_toks X (room p1) u a" by blast
    have "consumes (peek p # u) p q" using k nested_consumes [OF 1 u(1)] e by (blast intro: consumes_Cons)
    moreover have "unary_toks X (room p) (peek p # u) e"
      using True u(2) enter_room [OF 1] room_consumes [OF k] e by (simp add: keyword_token unary_not)
    ultimately show ?thesis by blast
  next
    case False
    with 10 obtain u where u: "consumes u p q" "primary_toks X (room p) u e" by auto
    with False hd_consumes [OF u(1)] grammar_not_Nil(4) [OF u(2)]
    have "unary_toks X (room p) u e" by (simp add: keyword_token unary_primary)
    with u show ?thesis by blast
  qed
next
  case (12 X f p)
  show ?case
  proof (cases "peek p = LParen")
    case True
    with 12(2) obtain p1 p2 where 1: "enter (advance p) = Inr ((), p1)"
      and 2: "parse_or X f p1 = Inr (e, p2)" and 3: "fst (next_token (leave p2)) = RParen"
      and q: "q = advance (leave p2)"
      by (auto simp: pbind_Inr Let_def split: if_splits)
    have k: "consumes [LParen] p (advance p)" using peek_advance [OF True] by simp
    from 12(1) [OF True 2] obtain u where u: "consumes u p1 p2" "or_toks X (room p1) u e" by blast
    have "consumes [RParen] (leave p2) q" 
      using 3 q peek_advance [of "leave p2" RParen] by (simp add: peek_next)
    with k nested_consumes [OF 1 u(1)] have "consumes (LParen # u @ [RParen]) p q"
      by (blast intro: consumes_Cons consumes_trans)
    moreover have "primary_toks X (room p) (LParen # u @ [RParen]) e"
      using u(2) enter_room [OF 1] room_consumes [OF k] by (simp add: primary_paren)
    ultimately show ?thesis by blast
  next
    case False
    with 12(2) have "parse_comparison X p = Inr (e, q)" by (auto split: Token.splits)
    with parse_comparison_sound show ?thesis by (blast intro: primary_comparison)
  qed
qed simp_all

text \<open>The fuel is enough: no method runs dry when it has four units per remaining token and
  a few more for its level.\<close>

abbreviation internal :: "ParseError \<Rightarrow> bool" where
  "internal err \<equiv> err = Panic \<or> err = OutOfFuel"

lemma set_items_internal: "internal err \<Longrightarrow> set_items ts \<noteq> Inl err"
  by (induction ts rule: set_items.induct) (auto split: sum.splits option.splits)

lemma cidr_items_internal: "internal err \<Longrightarrow> cidr_items X its \<noteq> Inl err"
  by (induction X its rule: cidr_items.induct)
     (auto simp: parse_cidr_def split: sum.splits option.splits)

lemma finish_scalar_internal: "internal err \<Longrightarrow> finish_scalar X k op v \<noteq> Inl err"
  by (auto simp: finish_scalar_def parse_cidr_def split: Value.splits option.splits sum.splits)

lemma parse_value_internal: "internal err \<Longrightarrow> parse_value X k op p \<noteq> Inl err"
proof -
  assume i: "internal err"
  obtain t q where n: "next_token p = (t, q)" by fastforce
  have "with_parser q r \<noteq> Inl err" if "r \<noteq> Inl err" for q and r :: "ParseError + ('a, 'b) Value"
    using that by (auto simp: with_parser_def split: sum.splits)
  note parts = this [OF finish_scalar_internal [OF i]] this [of "if b then r else Inr x" for b r x]
  show ?thesis
  proof (cases t)
    case LBrace
    then show ?thesis
      using n set_items_internal [OF i, of "toks q"] cidr_items_internal [OF i, of X]
      by (auto simp: parse_value_def with_parser_def split: sum.splits if_splits)
  qed (use n i parts in \<open>auto simp: parse_value_def Let_def\<close>)
qed

lemma parse_comparison_internal: "internal err \<Longrightarrow> parse_comparison X p \<noteq> Inl err"
proof -
  assume i: "internal err"
  have "expect_ident p' \<noteq> Inl err" for p'
    using i by (auto simp: expect_ident_def split: prod.splits Token.splits)
  moreover have "parse_index fld p' \<noteq> Inl err" for fld p'
    using i by (auto simp: parse_index_def split: prod.splits Token.splits)
  moreover have "parse_operator p' \<noteq> Inl err" for p'
    using i by (auto simp: parse_operator_table split: prod.splits Token.splits option.splits)
  ultimately show ?thesis
    using parse_value_internal [OF i, of X] by (auto simp: parse_comparison_def pbind_Inl)
qed

lemma consumes_length: "consumes u p q \<Longrightarrow> length (toks p) = length u + length (toks q)"
  by (simp add: consumes_def)

lemma keyword_advance_length: "keyword w p \<Longrightarrow> length (toks p) = Suc (length (toks (advance p)))"
  using consumes_length [OF keyword_consumes] by fastforce

lemma enter_toks: "enter p = Inr (x, q) \<Longrightarrow> toks q = toks p"
  by (auto simp: enter_Inr)

lemma enter_fuel: "enter p \<noteq> Inl OutOfFuel"
  by (simp add: enter_def)

lemma parse_consumes_some:
  assumes "parse_and X f p = Inr (e, q) \<or> parse_unary X f p = Inr (e, q)"
  shows "length (toks q) < length (toks p)"
proof -
  obtain u where u: "consumes u p q" "u \<noteq> []"
    using assms descent_sound(3,5) grammar_not_Nil(2,3) by metis
  with consumes_length [OF u(1)] show ?thesis by (cases u) auto
qed

lemma descent_fuel:
  "4 * length (toks p) + 4 \<le> f \<Longrightarrow> parse_or X f p \<noteq> Inl OutOfFuel"
  "4 * length (toks p) + 1 \<le> f \<Longrightarrow> parse_or_loop X f lhs p \<noteq> Inl OutOfFuel"
  "4 * length (toks p) + 3 \<le> f \<Longrightarrow> parse_and X f p \<noteq> Inl OutOfFuel"
  "4 * length (toks p) + 1 \<le> f \<Longrightarrow> parse_and_loop X f lhs p \<noteq> Inl OutOfFuel"
  "4 * length (toks p) + 2 \<le> f \<Longrightarrow> parse_unary X f p \<noteq> Inl OutOfFuel"
  "4 * length (toks p) + 1 \<le> f \<Longrightarrow> parse_primary X f p \<noteq> Inl OutOfFuel"
proof (induction X f p and X f lhs p and X f p and X f lhs p and X f p and X f p
    rule: parse_or_parse_or_loop_parse_and_parse_and_loop_parse_unary_parse_primary.induct)
  case (2 X f p)
  have "parse_or_loop X f a q \<noteq> Inl OutOfFuel" if "parse_and X f p = Inr (a, q)" for a q
    using 2(2) [of q a] 2(3) parse_consumes_some [OF disjI1 [OF that]] by simp
  with 2(1,3) show ?case by (auto simp: pbind_Inl)
next
  case (4 X f lhs p)
  have "parse_or_loop X f (OrE lhs a) q \<noteq> Inl OutOfFuel"
    if "keyword ''or'' p" "parse_and X f (advance p) = Inr (a, q)" for a q
    using 4(2) [OF that(1)] 4(3) parse_consumes_some [OF disjI1 [OF that(2)]]
      keyword_advance_length [OF that(1)] by simp
  with 4(1,3) keyword_advance_length show ?case by (auto simp: pbind_Inl)
next
  case (6 X f p)
  have "parse_and_loop X f a q \<noteq> Inl OutOfFuel" if "parse_unary X f p = Inr (a, q)" for a q
    using 6(2) [of q a] 6(3) parse_consumes_some [OF disjI2 [OF that]] by simp
  with 6(1,3) show ?case by (auto simp: pbind_Inl)
next
  case (8 X f lhs p)
  have "parse_and_loop X f (AndE lhs a) q \<noteq> Inl OutOfFuel"
    if "keyword ''and'' p" "parse_unary X f (advance p) = Inr (a, q)" for a q
    using 8(2) [OF that(1)] 8(3) parse_consumes_some [OF disjI2 [OF that(2)]]
      keyword_advance_length [OF that(1)] by simp
  with 8(1,3) keyword_advance_length show ?case by (auto simp: pbind_Inl)
next
  case (10 X f p)
  have "parse_unary X f q \<noteq> Inl OutOfFuel"
    if "keyword ''not'' p" "enter (advance p) = Inr (x, q)" for x q
    using 10(1) [OF that(1), of q] 10(3) keyword_advance_length [OF that(1)] enter_toks [OF that(2)]
    by simp
  with 10(2,3) show ?case by (auto simp: pbind_Inl enter_fuel)
next
  case (12 X f p)
  have "parse_or X f q \<noteq> Inl OutOfFuel"
    if "peek p = LParen" "enter (advance p) = Inr (x, q)" for x q
    using 12(1) [OF that(1), of q] 12(2) consumes_length [OF peek_advance [OF that(1)]]
      enter_toks [OF that(2)] by simp
  then show ?case
    by (auto simp: pbind_Inl enter_fuel parse_comparison_internal Let_def split: Token.split if_splits)
qed simp_all

text \<open>Every derivation of the grammar is found, whatever follows it.\<close>

lemma loop_exit:
  "1 \<le> f \<Longrightarrow> \<not> keyword ''or'' q \<Longrightarrow> parse_or_loop X f e q = Inr (e, q)"
  "1 \<le> f \<Longrightarrow> \<not> keyword ''and'' q \<Longrightarrow> parse_and_loop X f e q = Inr (e, q)"
  by (cases f; simp)+

lemma loop_result:
  "\<exists>f'\<ge>k + 1. r = parse_or_loop X f' e q \<Longrightarrow> \<not> keyword ''or'' q \<Longrightarrow> r = Inr (e, q)"
  "\<exists>f'\<ge>k + 1. r = parse_and_loop X f' e q \<Longrightarrow> \<not> keyword ''and'' q \<Longrightarrow> r = Inr (e, q)"
  by (elim exE conjE, simp add: loop_exit)+

lemma or_not_and: "keyword_token ''or'' t \<Longrightarrow> \<not> keyword_token ''and'' t"
proof (cases t)
  case (TIdent s)
  have "length (to_ascii_lowercase ''or'') \<noteq> length (to_ascii_lowercase ''and'')" by simp
  then have "to_ascii_lowercase ''or'' \<noteq> to_ascii_lowercase ''and''" by metis
  then show "keyword_token ''or'' t \<Longrightarrow> \<not> keyword_token ''and'' t"
    using TIdent by (simp add: keyword_token_def eq_ignore_ascii_case_def)
qed (simp_all add: keyword_token_def)

lemma consumes_keyword:
  assumes "consumes (u @ t # v) p q"
  obtains p1 p2 where "consumes u p p1" and "peek p1 = t" and "advance p1 = p2"
    and "consumes v p2 q" and "length (toks p1) = Suc (length (toks p2))"
proof -
  from assms obtain p1 where p1: "consumes u p p1" "consumes (t # v) p1 q"
    by (rule consumes_appendE)
  from p1(2) obtain p2 where p2: "next_token p1 = (t, p2)" "peek p1 = t" "consumes v p2 q"
    by (rule consumes_next)
  with consumes_length [OF p1(2)] consumes_length [OF p2(3)] show ?thesis
    by (intro that [OF p1(1)]) auto
qed

lemma enter_advance:
  assumes "Suc n + depth p \<le> MAX_EXPRESSION_DEPTH" and "depth p1 = depth p"
  obtains p2 where "enter p1 = Inr ((), p2)" and "toks p2 = toks p1" and "depth p2 = Suc (depth p)"
    and "\<forall>u q. consumes u p1 q \<longrightarrow> (\<exists>q'. consumes u p2 q' \<and> leave q' = q)"
proof (rule that [of "p1\<lparr>depth := Suc (depth p)\<rparr>"], goal_cases)
  case 4
  have "\<exists>q'. consumes u (p1\<lparr>depth := Suc (depth p)\<rparr>) q' \<and> leave q' = q"
    if "consumes u p1 q" for u q
    using assms(2) that
    by (intro exI [of _ "q\<lparr>depth := Suc (depth q)\<rparr>"]) (simp add: consumes_def leave_def)
  then show ?case by blast
qed (use assms in \<open>simp_all add: enter_def\<close>)

lemma descent_complete:
  "or_toks X n u e \<Longrightarrow> consumes u p q \<Longrightarrow> n + depth p \<le> MAX_EXPRESSION_DEPTH \<Longrightarrow>
     \<not> keyword ''and'' q \<Longrightarrow> 4 * length (toks p) + 4 \<le> f \<Longrightarrow>
     \<exists>f'. 4 * length (toks q) + 1 \<le> f' \<and> parse_or X f p = parse_or_loop X f' e q"
  "and_toks X n u e \<Longrightarrow> consumes u p q \<Longrightarrow> n + depth p \<le> MAX_EXPRESSION_DEPTH \<Longrightarrow>
     4 * length (toks p) + 3 \<le> f \<Longrightarrow>
     \<exists>f'. 4 * length (toks q) + 1 \<le> f' \<and> parse_and X f p = parse_and_loop X f' e q"
  "unary_toks X n u e \<Longrightarrow> consumes u p q \<Longrightarrow> n + depth p \<le> MAX_EXPRESSION_DEPTH \<Longrightarrow>
     4 * length (toks p) + 2 \<le> f \<Longrightarrow> parse_unary X f p = Inr (e, q)"
  "primary_toks X n u e \<Longrightarrow> consumes u p q \<Longrightarrow> n + depth p \<le> MAX_EXPRESSION_DEPTH \<Longrightarrow>
     4 * length (toks p) + 1 \<le> f \<Longrightarrow> parse_primary X f p = Inr (e, q)"
proof (induction arbitrary: p q f and p q f and p q f and p q f
    rule: or_toks_and_toks_unary_toks_primary_toks.inducts)
  case (or_one n u a)
  then obtain f0 where f: "f = Suc f0" "4 * length (toks p) + 3 \<le> f0" by (cases f) auto
  have "parse_and X f0 p = Inr (a, q)"
    by (rule loop_result(2) [OF or_one(2) [OF or_one.prems(1,2) f(2)] or_one.prems(3)])
  with f consumes_length [OF or_one.prems(1)] show ?case by (auto intro!: exI [of _ f0])
next
  case (or_more n u a t v b)
  from or_more.prems(1) obtain p1 p2 where c: "consumes u p p1" "peek p1 = t" "advance p1 = p2"
    "consumes v p2 q" "length (toks p1) = Suc (length (toks p2))" by (rule consumes_keyword)
  have d: "depth p1 = depth p" "depth p2 = depth p" using c(1,4) or_more.prems(1) by (auto simp: consumes_def)
  have "\<not> keyword ''and'' p1" using or_not_and [OF or_more(5)] c(2) by (simp add: keyword_token)
  from or_more(2) [OF c(1) or_more.prems(2) this or_more.prems(4)]
  obtain f1 where f1: "4 * length (toks p1) + 1 \<le> Suc f1" "parse_or X f p = parse_or_loop X (Suc f1) a p1"
    by (metis Suc_le_D add.commute plus_1_eq_Suc)
  then have "parse_and X f1 p2 = Inr (b, q)"
    by (intro loop_result(2) [OF or_more(4) [OF c(4)] or_more.prems(3)])
       (use or_more.prems(2) c(5) d in simp_all)
  then have "parse_or X f p = parse_or_loop X f1 (OrE a b) q"
    using f1(2) or_more(5) c(2,3) by (simp add: keyword_token)
  then show ?case using f1(1) c(5) consumes_length [OF c(4)] by (intro exI [of _ f1]) simp
next
  case (and_one n u a)
  then obtain f0 where f: "f = Suc f0" "4 * length (toks p) + 2 \<le> f0" by (cases f) auto
  with and_one(2) [OF and_one.prems(1,2) f(2)] consumes_length [OF and_one.prems(1)] show ?case
    by (auto intro!: exI [of _ f0])
next
  case (and_more n u a t v b)
  from and_more.prems(1) obtain p1 p2 where c: "consumes u p p1" "peek p1 = t" "advance p1 = p2"
    "consumes v p2 q" "length (toks p1) = Suc (length (toks p2))" by (rule consumes_keyword)
  have d: "depth p1 = depth p" "depth p2 = depth p" using c(1,4) and_more.prems(1) by (auto simp: consumes_def)
  from and_more(2) [OF c(1) and_more.prems(2,3)]
  obtain f1 where f1: "4 * length (toks p1) + 1 \<le> Suc f1" "parse_and X f p = parse_and_loop X (Suc f1) a p1"
    by (metis Suc_le_D add.commute plus_1_eq_Suc)
  then have "parse_unary X f1 p2 = Inr (b, q)"
    using and_more(4) [OF c(4), of f1] and_more.prems(2) c(5) d by simp
  then have "parse_and X f p = parse_and_loop X f1 (AndE a b) q"
    using f1(2) and_more(5) c(2,3) by (simp add: keyword_token)
  then show ?case using f1(1) c(5) consumes_length [OF c(4)] by (intro exI [of _ f1]) simp
next
  case (unary_not t n u a)
  from unary_not.prems(1) obtain p1 where c: "peek p = t" "advance p = p1" "consumes u p1 q"
    "length (toks p) = Suc (length (toks p1))"
    using consumes_keyword [of "[]" t u p q] by (metis append_Nil consumes_Nil_iff)
  have "depth p1 = depth p" using c(3) unary_not.prems(1) by (simp add: consumes_def)
  with unary_not.prems(2) obtain p2 where e: "enter p1 = Inr ((), p2)" "toks p2 = toks p1"
    "depth p2 = Suc (depth p)" "\<forall>u q. consumes u p1 q \<longrightarrow> (\<exists>q'. consumes u p2 q' \<and> leave q' = q)"
    by (rule enter_advance)
  from e(4) c(3) obtain q' where q': "consumes u p2 q'" "leave q' = q" by blast
  obtain f0 where f: "f = Suc f0" using unary_not.prems(3) by (cases f) auto
  have "parse_unary X f0 p2 = Inr (a, q')"
    using unary_not(3) [OF q'(1)] unary_not.prems(2,3) f e(2,3) c(4) by simp
  with f e(1) c q'(2) unary_not(1) show ?case by (simp add: keyword_token)
next
  case (unary_primary n u a)
  then obtain f0 where f: "f = Suc f0" "4 * length (toks p) + 1 \<le> f0" by (cases f) auto
  with unary_primary hd_consumes [OF unary_primary.prems(1)] grammar_not_Nil(4) [OF unary_primary(1)] show ?case
    by (simp add: keyword_token)
next
  case (primary_paren n u a)
  from primary_paren.prems(1) have "consumes ([] @ LParen # (u @ [RParen])) p q" by simp
  then obtain p1 where c: "peek p = LParen" "advance p = p1" "consumes (u @ [RParen]) p1 q"
    "length (toks p) = Suc (length (toks p1))"
    by (metis append_Nil consumes_Nil_iff consumes_keyword)
  have "depth p1 = depth p" using c(3) primary_paren.prems(1) by (simp add: consumes_def)
  with primary_paren.prems(2) obtain p2 where e: "enter p1 = Inr ((), p2)" "toks p2 = toks p1"
    "depth p2 = Suc (depth p)" "\<forall>u q. consumes u p1 q \<longrightarrow> (\<exists>q'. consumes u p2 q' \<and> leave q' = q)"
    by (rule enter_advance)
  from c(3) obtain p3 where p3: "consumes u p1 p3" "consumes [RParen] p3 q" by (rule consumes_appendE)
  from e(4) p3(1) obtain q' where q': "consumes u p2 q'" "leave q' = p3" by blast
  have close: "next_token p3 = (RParen, q)" using p3(2) by (simp add: consumes_single)
  have k: "\<not> keyword w q'" for w
    using close q'(2) by (auto simp: keyword_def peek_def next_token_def leave_def split: list.splits)
  obtain f0 where f: "f = Suc f0" using primary_paren.prems(3) by (cases f) auto
  have "parse_or X f0 p2 = Inr (a, q')"
    by (rule loop_result(1) [OF primary_paren(2) [OF q'(1) _ k] k])
       (use primary_paren.prems(2,3) f e(2,3) c(4) in simp_all)
  with f e(1) c q'(2) close show ?case by (simp add: Let_def)
next
  case (primary_comparison u a n)
  then obtain f0 where f: "f = Suc f0" by (cases f) auto
  from primary_comparison(1) obtain w v where "u = TIdent w # v"
    by (auto elim!: comparison_toks.cases field_toks.cases)
  with hd_consumes [OF primary_comparison.prems(1)] have "peek p = TIdent w" by simp
  with f parse_comparison_complete [OF primary_comparison(1) primary_comparison.prems(1)] show ?case by simp
qed

section \<open>The parser decides the grammar\<close>

lemma item_tokens_no_Eof: "map item_of ts = map Some items \<Longrightarrow> Eof \<notin> set ts"
proof
  assume "map item_of ts = map Some items" and "Eof \<in> set ts"
  then have "item_of Eof \<in> set (map Some items)" by (metis image_eqI set_map)
  then show False by auto
qed

lemma value_toks_no_Eof: "value_toks X k op u v \<Longrightarrow> Eof \<notin> set u"
  by (induction rule: value_toks.induct) (auto dest: item_tokens_no_Eof)

lemma comparison_toks_no_Eof: "comparison_toks X u e \<Longrightarrow> Eof \<notin> set u"
  by (auto elim!: comparison_toks.cases field_toks.cases operator_toks.cases dest: value_toks_no_Eof)

lemma grammar_no_Eof:
  "or_toks X n u e \<Longrightarrow> Eof \<notin> set u"
  "and_toks X n u e \<Longrightarrow> Eof \<notin> set u"
  "unary_toks X n u e \<Longrightarrow> Eof \<notin> set u"
  "primary_toks X n u e \<Longrightarrow> Eof \<notin> set u"
  by (induction rule: or_toks_and_toks_unary_toks_primary_toks.inducts)
     (auto dest: comparison_toks_no_Eof keyword_token_not_Eof)

text \<open>Nodes of an expression; each takes at least one token.\<close>

fun expr_nodes :: "('net, 're) Expression \<Rightarrow> nat" where
  "expr_nodes (FieldE fld op v) = 1"
| "expr_nodes (AndE a b) = Suc (expr_nodes a + expr_nodes b)"
| "expr_nodes (OrE a b) = Suc (expr_nodes a + expr_nodes b)"
| "expr_nodes (NotE a) = Suc (expr_nodes a)"

lemma comparison_nodes: "comparison_toks X u e \<Longrightarrow> expr_nodes e \<le> length u"
  by (auto elim!: comparison_toks.cases field_toks.cases)

lemma grammar_nodes:
  "or_toks X n u e \<Longrightarrow> expr_nodes e \<le> length u"
  "and_toks X n u e \<Longrightarrow> expr_nodes e \<le> length u"
  "unary_toks X n u e \<Longrightarrow> expr_nodes e \<le> length u"
  "primary_toks X n u e \<Longrightarrow> expr_nodes e \<le> length u"
  by (induction rule: or_toks_and_toks_unary_toks_primary_toks.inducts) (auto dest: comparison_nodes)

lemma Eof_prefix: "u @ [Eof] = v @ r \<Longrightarrow> Eof \<notin> set u \<Longrightarrow> Eof \<notin> set v \<Longrightarrow> r \<noteq> [] \<Longrightarrow> hd r = Eof \<Longrightarrow> v = u"
  by (auto simp: append_eq_append_conv2 append_eq_Cons_conv Cons_eq_append_conv)
     (metis hd_in_set)+

lemma parse_tokens_sound:
  assumes "parse_tokens X (u @ [Eof]) = Inr e" and "Eof \<notin> set u"
  shows "length u < MAX_EXPRESSION_TOKENS \<and> or_toks X MAX_EXPRESSION_DEPTH u e"
proof -
  let ?p = "\<lparr>toks = u @ [Eof], depth = 0\<rparr>"
  from assms(1) obtain q where q: "parse_or X (parse_fuel (u @ [Eof])) ?p = Inr (e, q)"
    "peek q = Eof" and len: "length u < MAX_EXPRESSION_TOKENS"
    by (auto simp: parse_tokens_def split: if_splits sum.splits prod.splits)
  from descent_sound(1) [OF q(1)] obtain v where v: "consumes v ?p q"
    "or_toks X MAX_EXPRESSION_DEPTH v e" by (auto simp: room_def)
  have "Eof \<notin> set v" by (rule grammar_no_Eof(1) [OF v(2)])
  moreover from this v(1) have "toks q \<noteq> []" by (auto simp: consumes_def)
  moreover from this q(2) have "hd (toks q) = Eof" by (auto simp: peek_def split: list.splits)
  ultimately have "v = u" using v(1) assms(2) by (auto simp: consumes_def intro: Eof_prefix)
  with v(2) len show ?thesis by simp
qed

lemma parse_or_complete:
  assumes "or_toks X n u e" and "consumes u p q" and "n + depth p \<le> MAX_EXPRESSION_DEPTH"
    and "peek q = Eof" and "4 * length (toks p) + 4 \<le> f"
  shows "parse_or X f p = Inr (e, q)"
proof (rule loop_result(1) [OF descent_complete(1) [OF assms(1-3)]])
qed (use assms(4,5) in \<open>simp_all add: keyword_def\<close>)

lemma parse_tokens_complete:
  assumes "or_toks X MAX_EXPRESSION_DEPTH u e" and "length u < MAX_EXPRESSION_TOKENS"
  shows "parse_tokens X (u @ [Eof]) = Inr e"
proof -
  have "parse_or X (parse_fuel (u @ [Eof])) \<lparr>toks = u @ [Eof], depth = 0\<rparr>
      = Inr (e, \<lparr>toks = [Eof], depth = 0\<rparr>)"
    by (rule parse_or_complete [OF assms(1)]) (simp_all add: consumes_def peek_def parse_fuel_def)
  with assms(2) show ?thesis by (simp add: parse_tokens_def peek_def)
qed

lemma parse_tokens_fuel: "parse_tokens X ts \<noteq> Inl OutOfFuel"
  using descent_fuel(1) [of "\<lparr>toks = ts, depth = 0\<rparr>" "parse_fuel ts" X]
  by (auto simp: parse_tokens_def parse_fuel_def split: sum.splits)

lemma enter_no_panic: "enter p \<noteq> Inl Panic"
  by (simp add: enter_def)

lemma descent_no_panic:
  "parse_or X f p \<noteq> Inl Panic"
  "parse_or_loop X f lhs p \<noteq> Inl Panic"
  "parse_and X f p \<noteq> Inl Panic"
  "parse_and_loop X f lhs p \<noteq> Inl Panic"
  "parse_unary X f p \<noteq> Inl Panic"
  "parse_primary X f p \<noteq> Inl Panic"
proof (induction X f p and X f lhs p and X f p and X f lhs p and X f p and X f p
    rule: parse_or_parse_or_loop_parse_and_parse_and_loop_parse_unary_parse_primary.induct)
  case (12 X f p)
  then show ?case
    by (auto simp: pbind_Inl enter_no_panic parse_comparison_internal Let_def split: Token.split if_splits)
qed (auto simp: pbind_Inl enter_no_panic)

lemma parse_tokens_no_panic: "parse_tokens X ts \<noteq> Inl Panic"
  using descent_no_panic(1) [of X "parse_fuel ts" "\<lparr>toks = ts, depth = 0\<rparr>"]
  by (auto simp: parse_tokens_def split: sum.splits)

lemma grammar_unambiguous:
  assumes "or_toks X n u a" and "or_toks X n u b" and "n \<le> MAX_EXPRESSION_DEPTH"
  shows "a = b"
proof -
  define p where "p = \<lparr>toks = u, depth = MAX_EXPRESSION_DEPTH - n\<rparr>"
  define q where "q = \<lparr>toks = [], depth = MAX_EXPRESSION_DEPTH - n\<rparr>"
  have c: "consumes u p q" and e: "peek q = Eof" and d: "n + depth p \<le> MAX_EXPRESSION_DEPTH"
    using assms(3) by (simp_all add: p_def q_def consumes_def peek_def)
  from parse_or_complete [OF assms(1) c d e order_refl] parse_or_complete [OF assms(2) c d e order_refl]
  show ?thesis by simp
qed

section \<open>Properties\<close>

text \<open>
  C16: The recursive-descent parser decides a grammar: on a token list as the tokenizer ends it, it
  returns an expression exactly when the tokens before the end are fewer than 512 and derive that
  expression with at most 64 levels of parentheses and \<^verbatim>\<open>not\<close>.  The grammar, \<open>or_toks\<close>, is that of
  the code, which is wider than the one in the comment at the head of the file: it has further
  spellings of the operators (\<^verbatim>\<open>==\<close>, \<^verbatim>\<open>!=\<close>, \<^verbatim>\<open><\<close>, \<^verbatim>\<open>neq\<close>, \<^verbatim>\<open>startswith\<close>, \<^verbatim>\<open>not_contains\<close> and so on), takes
  a bare word as a string, alone and in a set, and takes the empty set; the witness shows both
  of the latter.
\<close>

theorem parser_decides_grammar:
  "Eof \<notin> set u \<Longrightarrow>
   parse_tokens X (u @ [Eof]) = Inr e \<longleftrightarrow>
   length u < MAX_EXPRESSION_TOKENS \<and> or_toks X MAX_EXPRESSION_DEPTH u e"
  using parse_tokens_sound parse_tokens_complete by blast

text \<open>An instance of the foreign functions: every text is a network and a pattern of its own.\<close>

definition sample_externals :: "(string, string) externals" where
  "sample_externals =
     \<lparr>net_from_str = (\<lambda>s. if CHR ''/'' \<in> set s then Some s else None), net_from_addr = (\<lambda>_. ''addr''),
      net_contains = (\<lambda>n ip. n = ''0.0.0.0/0''), regex_limited = Some, regex_new = Some,
      regex_is_match = (\<lambda>re s. contains_str s re)\<rparr>"

lemma sample_parse:
  "parse_tokens sample_externals [TIdent ''ssl'', TIdent ''eq'', TIdent ''true'', Eof]
     = Inr (FieldE \<lparr>kind = Ssl, index = None\<rparr> Eq (VBool True))"
  "parse_tokens sample_externals [TIdent ''http.request.method'', TIdent ''in'', LBrace, RBrace, Eof]
     = Inr (FieldE \<lparr>kind = RequestMethod, index = None\<rparr> In (VSet []))"
  "parse_tokens sample_externals [TIdent ''http.request.method'', TIdent ''eq'', TIdent ''GET'', Eof]
     = Inr (FieldE \<lparr>kind = RequestMethod, index = None\<rparr> Eq (VStr ''GET''))"
  by code_simp+

theorem parser_decides_grammar_witness:
  "Eof \<notin> set [TIdent ''ssl'', TIdent ''eq'', TIdent ''true''] \<and>
   or_toks sample_externals MAX_EXPRESSION_DEPTH [TIdent ''ssl'', TIdent ''eq'', TIdent ''true'']
     (FieldE \<lparr>kind = Ssl, index = None\<rparr> Eq (VBool True)) \<and>
   or_toks sample_externals MAX_EXPRESSION_DEPTH [TIdent ''http.request.method'', TIdent ''in'', LBrace, RBrace]
     (FieldE \<lparr>kind = RequestMethod, index = None\<rparr> In (VSet [])) \<and>
   or_toks sample_externals MAX_EXPRESSION_DEPTH [TIdent ''http.request.method'', TIdent ''eq'', TIdent ''GET'']
     (FieldE \<lparr>kind = RequestMethod, index = None\<rparr> Eq (VStr ''GET''))"
  using sample_parse
    parser_decides_grammar [of "[TIdent ''ssl'', TIdent ''eq'', TIdent ''true'']" sample_externals
      "FieldE \<lparr>kind = Ssl, index = None\<rparr> Eq (VBool True)"]
    parser_decides_grammar [of "[TIdent ''http.request.method'', TIdent ''in'', LBrace, RBrace]" sample_externals
      "FieldE \<lparr>kind = RequestMethod, index = None\<rparr> In (VSet [])"]
    parser_decides_grammar [of "[TIdent ''http.request.method'', TIdent ''eq'', TIdent ''GET'']" sample_externals
      "FieldE \<lparr>kind = RequestMethod, index = None\<rparr> Eq (VStr ''GET'')"]
  by simp

text \<open>
  C17: The parser always ends within the fuel the model gives it, so its fuel stands for the
  unbounded recursion of the code: no input makes it run out, and no UTF-8 input makes the
  tokenizer or the parser panic.
\<close>

theorem parser_terminates:
  "valid_utf8 s \<Longrightarrow> parse_uncached X s \<noteq> Inl OutOfFuel \<and> parse_uncached X s \<noteq> Inl Panic"
  using tokenize_result_ok [of s] parse_tokens_fuel [of X] parse_tokens_no_panic [of X]
  by (auto simp: parse_uncached_def tokenize_ok_def split: sum.splits)

theorem parser_terminates_witness:
  "parse_uncached sample_externals ''ssl eq'' \<noteq> Inl OutOfFuel
   \<and> parse_uncached sample_externals ''ssl eq'' \<noteq> Inl Panic"
  by (rule parser_terminates) (simp add: is_ascii_def)

text \<open>
  The grammar is unambiguous: within the nesting limit a token list derives at most one
  expression.
\<close>

theorem grammar_deterministic:
  "or_toks X n u a \<Longrightarrow> or_toks X n u b \<Longrightarrow> n \<le> MAX_EXPRESSION_DEPTH \<Longrightarrow> a = b"
  by (rule grammar_unambiguous)

theorem grammar_deterministic_witness:
  "{e. or_toks sample_externals MAX_EXPRESSION_DEPTH [TIdent ''ssl'', TIdent ''eq'', TIdent ''true''] e}
   = {FieldE \<lparr>kind = Ssl, index = None\<rparr> Eq (VBool True)}"
proof -
  have "or_toks sample_externals MAX_EXPRESSION_DEPTH [TIdent ''ssl'', TIdent ''eq'', TIdent ''true'']
      (FieldE \<lparr>kind = Ssl, index = None\<rparr> Eq (VBool True))"
    using sample_parse parse_tokens_sound [of sample_externals "[TIdent ''ssl'', TIdent ''eq'', TIdent ''true'']"]
    by simp
  then show ?thesis using grammar_deterministic [OF _ _ order_refl] by blast
qed

text \<open>
  An accepted expression is small: it has fewer than 512 nodes, which bounds the recursion
  of its evaluation.
\<close>

theorem accepted_expression_bounded:
  "Eof \<notin> set u \<Longrightarrow> parse_tokens X (u @ [Eof]) = Inr e \<Longrightarrow> expr_nodes e < MAX_EXPRESSION_TOKENS"
  using parse_tokens_sound [of X u e] grammar_nodes(1) [of X MAX_EXPRESSION_DEPTH u e] by fastforce

theorem accepted_expression_bounded_witness:
  "expr_nodes (FieldE \<lparr>kind = Ssl, index = None\<rparr> Eq (VBool True) :: (string, string) Expression)
     < MAX_EXPRESSION_TOKENS"
  using sample_parse
    accepted_expression_bounded [of "[TIdent ''ssl'', TIdent ''eq'', TIdent ''true'']" sample_externals]
  by simp

end
