(* ===== verification/Expr_Eval.thy ===== *)
theory Expr_Eval
  imports Expr_Grammar
begin

text \<open>
  \<^verbatim>\<open>src/pingwaf-waf/src/rules/expression.rs\<close>, evaluation of a parsed expression against a
  request context.  The context's scores keep their widths; they are read as \<^verbatim>\<open>i64\<close>, as the
  code casts them.
\<close>

record EvalContext =
  ctx_method :: string
  ctx_path :: string
  ctx_full_uri :: string
  ctx_host :: string
  ctx_user_agent :: string
  ctx_body :: "string option"
  ctx_headers :: "(string \<times> string) list"
  ctx_cookies :: "(string \<times> string) list"
  ctx_client_ip :: string
  ctx_parsed_ip :: "IpAddr option"
  ctx_country_code :: "string option"
  ctx_ssl :: bool
  ctx_waf_score :: u32
  ctx_waf_score_sqli :: u8
  ctx_waf_score_xss :: u8
  ctx_waf_score_rce :: u8

definition ctx_header :: "EvalContext \<Rightarrow> string \<Rightarrow> string option" where
  "ctx_header ctx name =
     (let needle = to_ascii_lowercase name
      in map_option snd (find (\<lambda>(k, _). k = needle) (ctx_headers ctx)))"

definition ctx_cookie :: "EvalContext \<Rightarrow> string \<Rightarrow> string option" where
  "ctx_cookie ctx name =
     map_option snd (find (\<lambda>(k, _). eq_ignore_ascii_case k name) (ctx_cookies ctx))"

datatype FieldValue = FStr string | FNum int | FBool bool | FIp "IpAddr option" | Missing

definition str_or_missing :: "string option \<Rightarrow> FieldValue" where
  "str_or_missing o1 = (case o1 of Some s \<Rightarrow> FStr s | None \<Rightarrow> Missing)"

definition resolve_field :: "Field \<Rightarrow> EvalContext \<Rightarrow> FieldValue" where
  "resolve_field fld ctx =
     (case kind fld of
        RequestPath \<Rightarrow> FStr (ctx_path ctx)
      | RequestUriFull \<Rightarrow> FStr (ctx_full_uri ctx)
      | RequestQuery \<Rightarrow> str_or_missing (map_option snd (split_once_char CHR ''?'' (ctx_full_uri ctx)))
      | RequestMethod \<Rightarrow> FStr (ctx_method ctx)
      | RequestBody \<Rightarrow> str_or_missing (ctx_body ctx)
      | Host \<Rightarrow> FStr (ctx_host ctx)
      | UserAgent \<Rightarrow> FStr (ctx_user_agent ctx)
      | IpSrc \<Rightarrow> FIp (ctx_parsed_ip ctx)
      | IpSrcCountry \<Rightarrow> str_or_missing (ctx_country_code ctx)
      | Ssl \<Rightarrow> FBool (ctx_ssl ctx)
      | WafScore \<Rightarrow> FNum (uint (ctx_waf_score ctx))
      | WafScoreSqli \<Rightarrow> FNum (uint (ctx_waf_score_sqli ctx))
      | WafScoreXss \<Rightarrow> FNum (uint (ctx_waf_score_xss ctx))
      | WafScoreRce \<Rightarrow> FNum (uint (ctx_waf_score_rce ctx))
      | RequestHeader \<Rightarrow> str_or_missing (Option.bind (index fld) (ctx_header ctx))
      | RequestCookie \<Rightarrow> str_or_missing (Option.bind (index fld) (ctx_cookie ctx))
      | UnknownField _ \<Rightarrow> Missing)"

definition negate_if :: "Operator \<Rightarrow> bool \<Rightarrow> bool" where
  "negate_if op positive =
     (case op of
        Ne \<Rightarrow> \<not> positive | NotIn \<Rightarrow> \<not> positive | NotContains \<Rightarrow> \<not> positive
      | NotMatches \<Rightarrow> \<not> positive | _ \<Rightarrow> positive)"

text \<open>An IP literal of a rule: an address compared for equality, else a network.\<close>

definition ip_literal_matches :: "('net, 're) externals \<Rightarrow> IpAddr \<Rightarrow> string \<Rightarrow> bool" where
  "ip_literal_matches X ip s =
     (case ip_from_str s of
        Some a \<Rightarrow> a = ip
      | None \<Rightarrow> (case net_from_str X s of Some n \<Rightarrow> net_contains X n ip | None \<Rightarrow> False))"

definition apply_ip :: "('net, 're) externals \<Rightarrow> IpAddr \<Rightarrow> Operator \<Rightarrow> ('net, 're) Value \<Rightarrow> bool" where
  "apply_ip X ip op v =
     negate_if op
       (case v of
          VCidrSet nets \<Rightarrow> list_ex (\<lambda>n. net_contains X n ip) nets
        | VStr s \<Rightarrow> ip_literal_matches X ip s
        | VSet items \<Rightarrow> list_ex (ip_literal_matches X ip) items
        | _ \<Rightarrow> False)"

definition apply_bool :: "bool \<Rightarrow> Operator \<Rightarrow> ('net, 're) Value \<Rightarrow> bool" where
  "apply_bool b op v =
     (let expected = (case v of VBool e \<Rightarrow> e | VStr s \<Rightarrow> eq_ignore_ascii_case s ''true''
                              | VNum n \<Rightarrow> n \<noteq> 0 | _ \<Rightarrow> False)
      in negate_if op (b = expected))"

definition apply_num_num :: "int \<Rightarrow> Operator \<Rightarrow> int \<Rightarrow> bool" where
  "apply_num_num n op m =
     negate_if op
       (case op of
          Eq \<Rightarrow> n = m | Ne \<Rightarrow> n = m | Lt \<Rightarrow> n < m | Le \<Rightarrow> n \<le> m | Gt \<Rightarrow> n > m | Ge \<Rightarrow> n \<ge> m
        | In \<Rightarrow> n = m | NotIn \<Rightarrow> n = m | _ \<Rightarrow> False)"

definition apply_num :: "int \<Rightarrow> Operator \<Rightarrow> ('net, 're) Value \<Rightarrow> bool" where
  "apply_num n op v =
     (case v of
        VNum m \<Rightarrow> apply_num_num n op m
      | VStr s \<Rightarrow> (case i64_from_str s of Some m \<Rightarrow> apply_num_num n op m | None \<Rightarrow> is_negated op)
      | VSet items \<Rightarrow> negate_if op (show_int n \<in> set items)
      | _ \<Rightarrow> is_negated op)"

definition bool_from_str :: "string \<Rightarrow> bool option" where
  "bool_from_str s =
     (if s = ''true'' then Some True else if s = ''false'' then Some False else None)"

definition parsed_num :: "string \<Rightarrow> (int \<Rightarrow> bool) \<Rightarrow> bool \<Rightarrow> bool" where
  "parsed_num raw test fallback =
     (case i64_from_str raw of Some m \<Rightarrow> test m | None \<Rightarrow> fallback)"

definition apply_str :: "('net, 're) externals \<Rightarrow> string \<Rightarrow> Operator \<Rightarrow> ('net, 're) Value \<Rightarrow> bool" where
  "apply_str X raw op value =
     (case (op, value) of
        (Eq, VStr v) \<Rightarrow> raw = v
      | (Ne, VStr v) \<Rightarrow> raw \<noteq> v
      | (Contains, VStr v) \<Rightarrow> contains_str raw v
      | (NotContains, VStr v) \<Rightarrow> \<not> contains_str raw v
      | (StartsWith, VStr v) \<Rightarrow> prefix v raw
      | (EndsWith, VStr v) \<Rightarrow> suffix v raw
      | (Matches, VRegex re _) \<Rightarrow> regex_is_match X re raw
      | (NotMatches, VRegex re _) \<Rightarrow> \<not> regex_is_match X re raw
      | (In, VSet items) \<Rightarrow> list_ex (\<lambda>i. i = raw) items
      | (NotIn, VSet items) \<Rightarrow> \<not> list_ex (\<lambda>i. i = raw) items
      | (In, VStr v) \<Rightarrow> raw = v
      | (NotIn, VStr v) \<Rightarrow> raw \<noteq> v
      | (Lt, VStr v) \<Rightarrow> str_less raw v
      | (Le, VStr v) \<Rightarrow> \<not> str_less v raw
      | (Gt, VStr v) \<Rightarrow> str_less v raw
      | (Ge, VStr v) \<Rightarrow> \<not> str_less raw v
      | (Eq, VNum n) \<Rightarrow> parsed_num raw (\<lambda>m. m = n) False
      | (Ne, VNum n) \<Rightarrow> parsed_num raw (\<lambda>m. m \<noteq> n) True
      | (Lt, VNum n) \<Rightarrow> parsed_num raw (\<lambda>m. m < n) False
      | (Le, VNum n) \<Rightarrow> parsed_num raw (\<lambda>m. m \<le> n) False
      | (Gt, VNum n) \<Rightarrow> parsed_num raw (\<lambda>m. m > n) False
      | (Ge, VNum n) \<Rightarrow> parsed_num raw (\<lambda>m. m \<ge> n) False
      | (Eq, VBool b) \<Rightarrow> (case bool_from_str raw of Some x \<Rightarrow> x = b | None \<Rightarrow> False)
      | _ \<Rightarrow> False)"

definition apply_operator ::
  "('net, 're) externals \<Rightarrow> FieldValue \<Rightarrow> Operator \<Rightarrow> ('net, 're) Value \<Rightarrow> bool" where
  "apply_operator X fv op value =
     (case fv of
        Missing \<Rightarrow> is_negated op
      | FIp (Some ip) \<Rightarrow> apply_ip X ip op value
      | FIp None \<Rightarrow> is_negated op
      | FBool b \<Rightarrow> apply_bool b op value
      | FNum n \<Rightarrow> apply_num n op value
      | FStr raw \<Rightarrow> apply_str X raw op value)"

fun evaluate :: "('net, 're) externals \<Rightarrow> ('net, 're) Expression \<Rightarrow> EvalContext \<Rightarrow> bool" where
  "evaluate X (AndE a b) ctx \<longleftrightarrow> evaluate X a ctx \<and> evaluate X b ctx"
| "evaluate X (OrE a b) ctx \<longleftrightarrow> evaluate X a ctx \<or> evaluate X b ctx"
| "evaluate X (NotE inner) ctx \<longleftrightarrow> \<not> evaluate X inner ctx"
| "evaluate X (FieldE fld op v) ctx \<longleftrightarrow> apply_operator X (resolve_field fld ctx) op v"

section \<open>Negated operators\<close>

definition complement_op :: "Operator \<Rightarrow> Operator option" where
  "complement_op op =
     (case op of Eq \<Rightarrow> Some Ne | Contains \<Rightarrow> Some NotContains | Matches \<Rightarrow> Some NotMatches
               | In \<Rightarrow> Some NotIn | _ \<Rightarrow> None)"

text \<open>The value types a string field handles under a negatable operator.\<close>

definition str_typed :: "Operator \<Rightarrow> ('net, 're) Value \<Rightarrow> bool" where
  "str_typed op v =
     (case (op, v) of
        (Eq, VStr _) \<Rightarrow> True | (Eq, VNum _) \<Rightarrow> True | (Contains, VStr _) \<Rightarrow> True
      | (Matches, VRegex _ _) \<Rightarrow> True | (In, VSet _) \<Rightarrow> True | (In, VStr _) \<Rightarrow> True
      | _ \<Rightarrow> False)"

lemma negate_if_complement: "complement_op op = Some op' \<Longrightarrow> negate_if op' b = (\<not> negate_if op b)"
  by (cases op) (auto simp: complement_op_def negate_if_def)

lemma is_negated_complement: "complement_op op = Some op' \<Longrightarrow> is_negated op' \<and> \<not> is_negated op"
  by (cases op) (auto simp: complement_op_def is_negated_def)

lemma apply_num_num_complement:
  "complement_op op = Some op' \<Longrightarrow> apply_num_num n op' m = (\<not> apply_num_num n op m)"
  by (cases op) (auto simp: complement_op_def apply_num_num_def negate_if_def)

lemma apply_num_complement:
  "complement_op op = Some op' \<Longrightarrow> apply_num n op' v = (\<not> apply_num n op v)"
  by (auto simp: apply_num_def apply_num_num_complement is_negated_complement negate_if_complement
      split: Value.splits option.splits)

lemma apply_str_complement:
  "complement_op op = Some op' \<Longrightarrow> str_typed op v \<Longrightarrow>
   apply_str X raw op' v = (\<not> apply_str X raw op v)"
  by (cases op; cases v)
     (auto simp: complement_op_def str_typed_def apply_str_def parsed_num_def split: option.splits)

lemma apply_operator_complement:
  assumes c: "complement_op op = Some op'" and "\<And>raw. fv = FStr raw \<Longrightarrow> str_typed op v"
  shows "apply_operator X fv op' v = (\<not> apply_operator X fv op v)"
proof (cases fv)
  case (FStr raw)
  with assms show ?thesis by (simp add: apply_operator_def apply_str_complement)
next
  case (FIp ip)
  with c show ?thesis
    by (cases ip) (simp_all add: apply_operator_def is_negated_complement apply_ip_def negate_if_complement)
qed (use c in \<open>simp_all add: apply_operator_def is_negated_complement apply_num_complement
       apply_bool_def Let_def negate_if_complement\<close>)

text \<open>A string field against a value of another type satisfies neither operator.\<close>

lemma apply_str_mismatch:
  "complement_op op = Some op' \<Longrightarrow> \<not> str_typed op v \<Longrightarrow> (op, v) \<notin> {(Eq, VBool True), (Eq, VBool False)}
   \<Longrightarrow> \<not> apply_str X raw op v \<and> \<not> apply_str X raw op' v"
  by (cases op; cases v) (auto simp: complement_op_def str_typed_def apply_str_def)

section \<open>Properties\<close>

text \<open>
  A negated operator is the complement of its positive form, on every field: numbers,
  addresses, booleans and missing fields always, strings whenever the value has a type the
  operator compares with.
\<close>

theorem negated_operator_complements:
  "complement_op op = Some op' \<Longrightarrow> (\<And>raw. resolve_field fld ctx = FStr raw \<Longrightarrow> str_typed op v) \<Longrightarrow>
   evaluate X (FieldE fld op' v) ctx \<longleftrightarrow> \<not> evaluate X (FieldE fld op v) ctx"
  by (simp add: apply_operator_complement)

definition sample_ctx :: EvalContext where
  "sample_ctx =
     \<lparr>ctx_method = ''GET'', ctx_path = ''/admin'', ctx_full_uri = ''/admin'', ctx_host = ''h'',
      ctx_user_agent = [], ctx_body = None, ctx_headers = [], ctx_cookies = [],
      ctx_client_ip = ''192.0.2.1'', ctx_parsed_ip = None, ctx_country_code = None, ctx_ssl = True,
      ctx_waf_score = 0, ctx_waf_score_sqli = 0, ctx_waf_score_xss = 0, ctx_waf_score_rce = 0\<rparr>"

theorem negated_operator_complements_witness:
  "evaluate sample_externals (FieldE \<lparr>kind = Host, index = None\<rparr> Ne (VStr ''x'')) sample_ctx
   \<longleftrightarrow> \<not> evaluate sample_externals (FieldE \<lparr>kind = Host, index = None\<rparr> Eq (VStr ''x'')) sample_ctx"
  by (rule negated_operator_complements) (simp_all add: complement_op_def str_typed_def)

text \<open>
  A string field compared with a value of a type its operator does not handle satisfies
  neither the operator nor its negation: \<^verbatim>\<open>http.host ne true\<close> and \<^verbatim>\<open>http.host not contains 5\<close> are
  false for every request, like their positive forms.
\<close>

theorem mismatched_negation_never_matches:
  "\<not> evaluate X (FieldE \<lparr>kind = Host, index = None\<rparr> Ne (VBool b)) ctx
   \<and> \<not> evaluate X (FieldE \<lparr>kind = Host, index = None\<rparr> NotContains (VNum n)) ctx
   \<and> \<not> evaluate X (FieldE \<lparr>kind = Host, index = None\<rparr> Contains (VNum n)) ctx"
  by (simp add: apply_operator_def resolve_field_def apply_str_def)

end
