(* ===== verification/Expr_Cache.thy ===== *)
theory Expr_Cache
  imports Expr_Eval "HOL-Library.AList"
begin

text \<open>
  \<^verbatim>\<open>src/pingwaf-waf/src/rules/expression.rs\<close>, the public \<^verbatim>\<open>parse_expression\<close> with its
  process-wide cache.  The \<^verbatim>\<open>HashMap\<close> is an association list; the two critical sections of a
  call see two cache states, so that calls of other threads may fall between them.  First the
  end-to-end reading of a rule text.
\<close>

section \<open>A rule text and what it matches\<close>

definition word_text :: "string \<Rightarrow> bool" where
  "word_text w \<longleftrightarrow> w \<noteq> [] \<and> (is_ascii_alphanumeric (hd w) \<or> hd w = CHR ''_'')
     \<and> list_all word_char w \<and> i64_from_str w = None"

lemma word_start_token:
  assumes "is_ascii_alphanumeric c \<or> c = CHR ''_''"
  shows "tokenize (c # s) =
    (case str_prefix (Suc (length (takeWhile word_char s))) (c # s) of
       None \<Rightarrow> Inl Panic
     | Some word \<Rightarrow>
         push (case i64_from_str word of Some i \<Rightarrow> TNum i | None \<Rightarrow> TIdent word)
           (tokenize (dropWhile word_char s)))"
proof -
  from assms have b: "48 \<le> byte c" "byte c \<noteq> 91" "byte c \<noteq> 93" "byte c < 123"
    by (auto simp: waf_ascii)
  have "c \<noteq> d" if "byte d < 48 \<or> byte d = 91 \<or> byte d = 93 \<or> 123 \<le> byte d" for d
    using b that by auto
  then show ?thesis using assms by (subst tokenize.simps) (simp add: Let_def)
qed

lemma tokenize_space: "tokenize (CHR '' '' # s) = tokenize s"
  by (subst tokenize.simps) simp

lemma tokenize_word:
  assumes "word_text w"
  shows "tokenize (w @ CHR '' '' # s) = push (TIdent w) (tokenize s)"
proof -
  obtain c t where w: "w = c # t" using assms by (cases w) (auto simp: word_text_def)
  have c: "is_ascii_alphanumeric c \<or> c = CHR ''_''" and t: "list_all word_char t"
    and "word_char c" and i: "i64_from_str (c # t) = None"
    using assms w by (auto simp: word_text_def)
  have tw: "takeWhile word_char (t @ CHR '' '' # s) = t" "dropWhile word_char (t @ CHR '' '' # s) = CHR '' '' # s"
    using t by (simp_all add: takeWhile_append dropWhile_append list_all_iff word_char_def is_ascii_alphanumeric_def is_ascii_digit_def is_ascii_uppercase_def is_ascii_lowercase_def)
  have "str_prefix (Suc (length t)) (c # t @ CHR '' '' # s) = Some (c # t)"
    using word_char_ascii [OF \<open>word_char c\<close>]
    by (simp add: str_prefix_def boundary_def is_cont_def is_ascii_def)
  with tw i word_start_token [OF c, of "t @ CHR '' '' # s"] show ?thesis
    by (simp add: w tokenize_space)
qed

lemma rule_text_tokens:
  assumes "word_text path" and "word_text opw" and "valid_utf8 s"
  shows "tokenize (path @ CHR '' '' # opw @ CHR '' '' # quote_literal s)
    = Inr [TIdent path, TIdent opw, TStr s, Eof]"
  by (simp add: tokenize_word assms tokenize_quote_literal push_def)

lemma rule_text_parses:
  assumes "word_text path" and "word_text opw" and "valid_utf8 s"
    and "\<not> eq_ignore_ascii_case path ''not''"
    and "map_of operator_words (to_ascii_lowercase opw) = Some op"
    and "finish_scalar X (kind (field_alias path)) op (VStr s) = Inr v"
  shows "parse_uncached X (path @ CHR '' '' # opw @ CHR '' '' # quote_literal s)
    = Inr (FieldE (field_alias path) op v)"
proof -
  have "comparison_toks X ([TIdent path] @ [TIdent opw] @ [TStr s]) (FieldE (field_alias path) op v)"
    by (intro comparison_toks.intros field_toks.plain operator_toks.word assms(5)
        value_toks.scalar [OF _ assms(6)]) simp
  then have "or_toks X MAX_EXPRESSION_DEPTH [TIdent path, TIdent opw, TStr s]
      (FieldE (field_alias path) op v)"
    using assms(4) by (intro or_one and_one unary_primary primary_comparison) (simp_all add: keyword_token_def)
  from parse_tokens_complete [OF this] show ?thesis
    by (simp add: parse_uncached_def rule_text_tokens assms MAX_EXPRESSION_TOKENS_def)
qed

lemma path_contains_parsed:
  assumes s: "valid_utf8 s"
  shows "\<exists>e. parse_uncached X (''http.request.uri.path contains '' @ quote_literal s) = Inr e
     \<and> (\<forall>ctx. evaluate X e ctx \<longleftrightarrow> contains_str (ctx_path ctx) s)"
proof -
  have w: "word_text ''http.request.uri.path''" "word_text ''contains''" by code_simp+
  have n: "\<not> eq_ignore_ascii_case ''http.request.uri.path'' ''not''" by code_simp
  have o: "map_of operator_words (to_ascii_lowercase ''contains'') = Some Contains" by code_simp
  have k: "field_alias ''http.request.uri.path'' = \<lparr>kind = RequestPath, index = None\<rparr>" by code_simp
  have f: "finish_scalar X (kind (field_alias ''http.request.uri.path'')) Contains (VStr s) = Inr (VStr s)"
    by (simp add: finish_scalar_def cidr_bound_def)
  from rule_text_parses [OF w s n o f] show ?thesis
    by (auto simp: k apply_operator_def resolve_field_def apply_str_def intro!: exI)
qed

section \<open>The expression cache\<close>

text \<open>A cache that may forget: after a \<open>put\<close> it holds the new entry and otherwise only entries
  it had before, and never more than \<open>limit\<close> of them.\<close>

locale forgetful_cache =
  fixes lookup :: "'c \<Rightarrow> 'k \<Rightarrow> 'v option" and put :: "'k \<Rightarrow> 'v \<Rightarrow> 'c \<Rightarrow> 'c"
    and entries :: "'c \<Rightarrow> nat" and limit :: nat
  assumes lookup_put: "lookup (put k v c) k = Some v"
    and lookup_put_other:
      "k' \<noteq> k \<Longrightarrow> lookup (put k v c) k' = Some w \<Longrightarrow> lookup c k' = Some w"
    and entries_put: "entries c \<le> limit \<Longrightarrow> entries (put k v c) \<le> limit"
begin

definition coherent :: "('k \<Rightarrow> 'e + 'v) \<Rightarrow> 'c \<Rightarrow> bool" where
  "coherent f c \<longleftrightarrow> entries c \<le> limit \<and> (\<forall>k v. lookup c k = Some v \<longrightarrow> f k = Inr v)"

lemma coherent_put: "coherent f c \<Longrightarrow> f k = Inr v \<Longrightarrow> coherent f (put k v c)"
  unfolding coherent_def by (metis entries_put lookup_put lookup_put_other option.inject)

lemma coherent_lookup: "coherent f c \<Longrightarrow> lookup c k = Some v \<Longrightarrow> f k = Inr v"
  by (simp add: coherent_def)

end

type_synonym ('net, 're) expr_cache = "(string \<times> ('net, 're) Expression) list"

definition MAX_CACHED_EXPRESSIONS :: nat where "MAX_CACHED_EXPRESSIONS = 512"

definition cache_store ::
  "string \<Rightarrow> ('net, 're) Expression \<Rightarrow> ('net, 're) expr_cache \<Rightarrow> ('net, 're) expr_cache" where
  "cache_store input e cache =
     (let cache' = (if MAX_CACHED_EXPRESSIONS \<le> length cache then [] else cache)
      in AList.update input e cache')"

text \<open>\<open>seen\<close> is the cache at the first lock, \<open>cache\<close> the one found at the second: other
  threads may have run in between.\<close>

definition parse_expression ::
  "('net, 're) externals \<Rightarrow> ('net, 're) expr_cache \<Rightarrow> ('net, 're) expr_cache \<Rightarrow> string
     \<Rightarrow> (ParseError + ('net, 're) Expression) \<times> ('net, 're) expr_cache" where
  "parse_expression X seen cache input =
     (if MAX_EXPRESSION_LEN < length input then (Inl (TooLong (length input)), cache)
      else case map_of seen input of
             Some e \<Rightarrow> (Inr e, cache)
           | None \<Rightarrow>
               (case parse_uncached X input of
                  Inl err \<Rightarrow> (Inl err, cache)
                | Inr e \<Rightarrow> (Inr e, cache_store input e cache)))"

lemma length_update_le: "length (AList.update k v al) \<le> Suc (length al)"
  by (induction al) auto

interpretation expr_cache: forgetful_cache map_of cache_store length MAX_CACHED_EXPRESSIONS
proof
  fix k k' :: string and v w :: "('net, 're) Expression" and c
  show "map_of (cache_store k v c) k = Some v"
    by (simp add: cache_store_def Let_def update_conv')
  show "map_of c k' = Some w" if "k' \<noteq> k" "map_of (cache_store k v c) k' = Some w"
    using that by (simp add: cache_store_def Let_def update_conv' split: if_splits)
  show "length (cache_store k v c) \<le> MAX_CACHED_EXPRESSIONS"
    if "length c \<le> MAX_CACHED_EXPRESSIONS"
    using that length_update_le [of k v c]
    by (auto simp: cache_store_def Let_def MAX_CACHED_EXPRESSIONS_def)
qed

text \<open>What a call returns without a cache.\<close>

definition parse_spec ::
  "('net, 're) externals \<Rightarrow> string \<Rightarrow> ParseError + ('net, 're) Expression" where
  "parse_spec X input =
     (if MAX_EXPRESSION_LEN < length input then Inl (TooLong (length input))
      else parse_uncached X input)"

text \<open>The caches that calls can leave behind, in any interleaving of their two critical
  sections: the one a call looked at and the one it stores into are both earlier states.\<close>

inductive cache_state :: "('net, 're) externals \<Rightarrow> ('net, 're) expr_cache \<Rightarrow> bool" for X where
  start: "cache_state X []"
| call: "cache_state X seen \<Longrightarrow> cache_state X cache \<Longrightarrow>
    cache_state X (snd (parse_expression X seen cache input))"

lemma parse_expression_coherent:
  assumes "expr_cache.coherent (parse_spec X) seen" and "expr_cache.coherent (parse_spec X) cache"
  shows "fst (parse_expression X seen cache input) = parse_spec X input
    \<and> expr_cache.coherent (parse_spec X) (snd (parse_expression X seen cache input))"
proof (cases "MAX_EXPRESSION_LEN < length input")
  case True
  with assms show ?thesis by (simp add: parse_expression_def parse_spec_def)
next
  case False
  then have s: "parse_spec X input = parse_uncached X input" by (simp add: parse_spec_def)
  show ?thesis
  proof (cases "map_of seen input")
    case None
    with False s assms(2) show ?thesis
      by (auto simp: parse_expression_def intro: expr_cache.coherent_put split: sum.split)
  next
    case (Some e)
    with False expr_cache.coherent_lookup [OF assms(1) Some] assms(2) show ?thesis
      by (simp add: parse_expression_def)
  qed
qed

lemma cache_state_coherent: "cache_state X c \<Longrightarrow> expr_cache.coherent (parse_spec X) c"
  by (induction rule: cache_state.induct)
     (simp_all add: parse_expression_coherent expr_cache.coherent_def [of _ "[]"])

section \<open>Properties\<close>

text \<open>
  C18: The rule text \<^verbatim>\<open>http.request.uri.path contains "s"\<close>, with \<open>s\<close> quoted as a string literal,
  means what it says.  Given to the public parser, whatever calls ran before and between its two
  critical sections, for every UTF-8 text \<open>s\<close>: if the whole text is within the limit of 16384 bytes
  it parses, and the parsed rule matches a request exactly when the path contains \<open>s\<close>; if it is
  longer, it is refused with the too-long error that carries its length.
\<close>

theorem path_contains_rule:
  assumes "cache_state X seen" "cache_state X cache" and "valid_utf8 s"
    and "text = ''http.request.uri.path contains '' @ quote_literal s"
  shows "(length text \<le> MAX_EXPRESSION_LEN \<longrightarrow>
            (\<exists>e. fst (parse_expression X seen cache text) = Inr e
               \<and> (\<forall>ctx. evaluate X e ctx \<longleftrightarrow> contains_str (ctx_path ctx) s)))
       \<and> (MAX_EXPRESSION_LEN < length text \<longrightarrow>
            fst (parse_expression X seen cache text) = Inl (TooLong (length text)))"
proof -
  have "fst (parse_expression X seen cache text) = parse_spec X text"
    using parse_expression_coherent [OF assms(1,2) [THEN cache_state_coherent]] by simp
  then show ?thesis
    using path_contains_parsed [OF assms(3), of X] by (auto simp: parse_spec_def assms(4))
qed

theorem path_contains_rule_witness:
  "(\<exists>e. fst (parse_expression sample_externals [] [] (''http.request.uri.path contains '' @ quote_literal ''admin'')) = Inr e
     \<and> (\<forall>ctx. evaluate sample_externals e ctx \<longleftrightarrow> contains_str (ctx_path ctx) ''admin''))
   \<and> fst (parse_expression sample_externals [] []
         (''http.request.uri.path contains '' @ quote_literal (replicate 17000 CHR ''a''))) = Inl (TooLong 17033)"
proof -
  let ?t = "\<lambda>s. ''http.request.uri.path contains '' @ quote_literal s"
  have "concat (replicate n (escape_char CHR ''a'')) = replicate n CHR ''a''" for n
    by (induction n) (simp_all add: escape_char_def)
  then have long: "length (?t (replicate n CHR ''a'')) = n + 33" for n
    by (simp add: quote_literal_def)
  have utf8: "valid_utf8 (replicate n CHR ''a'')" for n by (induction n) (simp_all add: is_ascii_def)
  have "length (?t ''admin'') \<le> MAX_EXPRESSION_LEN" by code_simp
  moreover have "valid_utf8 ''admin''" by (simp add: is_ascii_def)
  ultimately have "\<exists>e. fst (parse_expression sample_externals [] [] (?t ''admin'')) = Inr e
     \<and> (\<forall>ctx. evaluate sample_externals e ctx \<longleftrightarrow> contains_str (ctx_path ctx) ''admin'')"
    using path_contains_rule [OF cache_state.start cache_state.start _ refl] by blast
  moreover have "fst (parse_expression sample_externals [] [] (?t (replicate n CHR ''a''))) = Inl (TooLong (n + 33))"
    if "MAX_EXPRESSION_LEN < n + 33" for n
    using path_contains_rule [OF cache_state.start cache_state.start utf8 [of n] refl, of sample_externals]
      long [of n] that by (simp only: simp_thms)
  from this [of 17000] have "fst (parse_expression sample_externals [] [] (?t (replicate 17000 CHR ''a''))) = Inl (TooLong 17033)"
    by (simp add: MAX_EXPRESSION_LEN_def del: append.simps)
  ultimately show ?thesis by blast
qed

text \<open>
  C19: The expression cache is transparent and bounded: whatever calls ran before and between the
  two critical sections of a call, in any interleaving, it returns what parsing the text
  afresh returns, and the cache it leaves has at most 512 entries.
\<close>

theorem expression_cache_transparent:
  "cache_state X seen \<Longrightarrow> cache_state X cache \<Longrightarrow>
   fst (parse_expression X seen cache input) = parse_spec X input
   \<and> length (snd (parse_expression X seen cache input)) \<le> MAX_CACHED_EXPRESSIONS"
  using parse_expression_coherent [OF cache_state_coherent [of X seen] cache_state_coherent [of X cache],
      of input]
  by (simp add: expr_cache.coherent_def)

theorem expression_cache_transparent_witness:
  "fst (parse_expression sample_externals [] (snd (parse_expression sample_externals [] [] ''ssl eq true''))
     ''ssl eq true'') = parse_spec sample_externals ''ssl eq true''"
  using expression_cache_transparent [OF cache_state.start cache_state.call [OF cache_state.start cache_state.start]]
  by blast

end
