(* ===== verification/Score.thy ===== *)
theory Score
  imports Waf_Types
begin

text \<open>
  Anomaly scoring (\<^verbatim>\<open>pingwaf-waf/src/score/mod.rs\<close>).  A \<open>ScoreBreakdown\<close> carries every
  score twice: the full aggregate and the blocking subset, which leaves out hits a site has
  downgraded to monitor-only.  The operations saturate at the width of their field.

  The contract the engine relies on is the locale \<open>hit_accumulator\<close>: every hit keeps the
  invariant, and a monitored hit leaves the blocking view alone.  It is interpreted on the
  three scorer operations, and the closed form \<open>run_hits_block_total\<close> says that a run of hits
  is a saturated sum, so the order of the hits does not matter.
\<close>

section \<open>State and operations\<close>

datatype ScoreClass = Clean | LikelyClean | LikelyAttack | Attack

record ScoreBreakdown =
  total :: u32
  sqli_score :: u8
  xss_score :: u8
  rce_score :: u8
  overall_class :: ScoreClass
  block_total :: u32
  block_sqli_score :: u8
  block_xss_score :: u8
  block_rce_score :: u8

definition score_clean :: ScoreBreakdown where
  "score_clean = \<lparr>total = 0, sqli_score = 0, xss_score = 0, rce_score = 0,
     overall_class = Clean, block_total = 0, block_sqli_score = 0, block_xss_score = 0,
     block_rce_score = 0\<rparr>"

definition total_u8 :: "ScoreBreakdown \<Rightarrow> u8" where
  "total_u8 b = (if unat (total b) < 256 then word_of_nat (unat (total b)) else 255)"

record AnomalyScorer =
  threshold :: u32
  paranoia_level :: u8

definition clamp_word :: "'a::len word \<Rightarrow> 'a word \<Rightarrow> 'a word \<Rightarrow> 'a word" where
  "clamp_word lo hi x = max lo (min hi x)"

definition scorer_new :: "u32 \<Rightarrow> u8 \<Rightarrow> AnomalyScorer" where
  "scorer_new t p = \<lparr>threshold = max t 1, paranoia_level = clamp_word 1 4 p\<rparr>"

definition points_for_severity :: "u8 \<Rightarrow> u32" where
  "points_for_severity severity =
     (let s = clamp_word 1 5 severity in
      if s = 5 then 5 else if s = 4 then 4 else if s = 3 then 3 else if s = 2 then 2 else 1)"

definition classify :: "AnomalyScorer \<Rightarrow> u32 \<Rightarrow> ScoreClass" where
  "classify s t =
     (if t = 0 then Clean
      else if threshold s \<le> t then Attack
      else if threshold s \<le> t * 2 then LikelyAttack
      else LikelyClean)"

definition should_block :: "AnomalyScorer \<Rightarrow> u32 \<Rightarrow> bool" where
  "should_block s t \<longleftrightarrow> threshold s \<le> t"

definition add_severity_hit_ex ::
  "AnomalyScorer \<Rightarrow> ScoreBreakdown \<Rightarrow> u8 \<Rightarrow> bool \<Rightarrow> ScoreBreakdown" where
  "add_severity_hit_ex s b severity monitored =
     (let points = points_for_severity severity;
          b1 = b\<lparr>total := saturating_add (total b) points\<rparr>;
          b2 = (if monitored then b1
                else b1\<lparr>block_total := saturating_add (block_total b1) points\<rparr>)
      in b2\<lparr>overall_class := classify s (block_total b2)\<rparr>)"

definition add_severity_hit ::
  "AnomalyScorer \<Rightarrow> ScoreBreakdown \<Rightarrow> u8 \<Rightarrow> ScoreBreakdown" where
  "add_severity_hit s b severity = add_severity_hit_ex s b severity False"

definition category_bump :: "u32 \<Rightarrow> u8" where
  "category_bump points =
     (if unat (points * 12) < 256 then word_of_nat (unat (points * 12)) else 255)"

definition bump_family :: "AttackCategory \<Rightarrow> u8 \<Rightarrow> bool \<Rightarrow> ScoreBreakdown \<Rightarrow> ScoreBreakdown" where
  "bump_family category bump monitored b =
     (case category of
        SqlInjection \<Rightarrow>
          (let b1 = b\<lparr>sqli_score := saturating_add (sqli_score b) bump\<rparr>
           in if monitored then b1
              else b1\<lparr>block_sqli_score := saturating_add (block_sqli_score b1) bump\<rparr>)
      | Xss \<Rightarrow>
          (let b1 = b\<lparr>xss_score := saturating_add (xss_score b) bump\<rparr>
           in if monitored then b1
              else b1\<lparr>block_xss_score := saturating_add (block_xss_score b1) bump\<rparr>)
      | CommandInjection \<Rightarrow>
          (let b1 = b\<lparr>rce_score := saturating_add (rce_score b) bump\<rparr>
           in if monitored then b1
              else b1\<lparr>block_rce_score := saturating_add (block_rce_score b1) bump\<rparr>)
      | Deserialization \<Rightarrow>
          (let b1 = b\<lparr>rce_score := saturating_add (rce_score b) bump\<rparr>
           in if monitored then b1
              else b1\<lparr>block_rce_score := saturating_add (block_rce_score b1) bump\<rparr>)
      | TemplateInjection \<Rightarrow> b
      | PathTraversal \<Rightarrow> b
      | Ssrf \<Rightarrow> b
      | CrlfInjection \<Rightarrow> b
      | Xxe \<Rightarrow> b)"

definition add_category_hit_ex ::
  "AnomalyScorer \<Rightarrow> ScoreBreakdown \<Rightarrow> AttackCategory \<Rightarrow> u8 \<Rightarrow> bool \<Rightarrow> ScoreBreakdown" where
  "add_category_hit_ex s b category severity monitored =
     (let points = points_for_severity severity;
          b1 = b\<lparr>total := saturating_add (total b) points\<rparr>;
          b2 = (if monitored then b1
                else b1\<lparr>block_total := saturating_add (block_total b1) points\<rparr>);
          b3 = bump_family category (category_bump points) monitored b2
      in b3\<lparr>overall_class := classify s (block_total b3)\<rparr>)"

definition add_category_hit ::
  "AnomalyScorer \<Rightarrow> ScoreBreakdown \<Rightarrow> AttackCategory \<Rightarrow> u8 \<Rightarrow> ScoreBreakdown" where
  "add_category_hit s b category severity = add_category_hit_ex s b category severity False"

definition add_expr_hit_ex :: "AnomalyScorer \<Rightarrow> ScoreBreakdown \<Rightarrow> bool \<Rightarrow> ScoreBreakdown" where
  "add_expr_hit_ex s b monitored =
     (let b1 = b\<lparr>total := saturating_add (total b) 4, rce_score := saturating_add (rce_score b) 48\<rparr>;
          b2 = (if monitored then b1
                else b1\<lparr>block_total := saturating_add (block_total b1) 4,
                        block_rce_score := saturating_add (block_rce_score b1) 48\<rparr>)
      in b2\<lparr>overall_class := classify s (block_total b2)\<rparr>)"

definition add_expr_hit :: "AnomalyScorer \<Rightarrow> ScoreBreakdown \<Rightarrow> ScoreBreakdown" where
  "add_expr_hit s b = add_expr_hit_ex s b False"

lemmas add_hit_defs = add_severity_hit_ex_def add_category_hit_ex_def add_expr_hit_ex_def

text \<open>One scorer call, as the engine issues it.\<close>

datatype ScoreOp =
    SeverityHit u8 bool
  | CategoryHit AttackCategory u8 bool
  | ExprHit bool

fun apply_op :: "AnomalyScorer \<Rightarrow> ScoreOp \<Rightarrow> ScoreBreakdown \<Rightarrow> ScoreBreakdown" where
  "apply_op s (SeverityHit sev m) b = add_severity_hit_ex s b sev m"
| "apply_op s (CategoryHit cat sev m) b = add_category_hit_ex s b cat sev m"
| "apply_op s (ExprHit m) b = add_expr_hit_ex s b m"

fun op_monitored :: "ScoreOp \<Rightarrow> bool" where
  "op_monitored (SeverityHit sev m) = m"
| "op_monitored (CategoryHit cat sev m) = m"
| "op_monitored (ExprHit m) = m"

fun op_points :: "ScoreOp \<Rightarrow> u32" where
  "op_points (SeverityHit sev m) = points_for_severity sev"
| "op_points (CategoryHit cat sev m) = points_for_severity sev"
| "op_points (ExprHit m) = 4"

definition run_hits :: "AnomalyScorer \<Rightarrow> ScoreOp list \<Rightarrow> ScoreBreakdown \<Rightarrow> ScoreBreakdown" where
  "run_hits s ops b = fold (apply_op s) ops b"

section \<open>Single operations\<close>

lemma points_for_severity_cases:
  "points_for_severity sev \<in> {1, 2, 3, 4, 5}"
  by (simp add: points_for_severity_def Let_def)

lemma points_bounds: "0 < unat (points_for_severity sev) \<and> unat (points_for_severity sev) \<le> 5"
  using points_for_severity_cases [of sev] by auto

lemma op_points_bounds: "0 < unat (op_points h) \<and> unat (op_points h) \<le> 5"
proof (cases h)
  case (ExprHit m)
  then show ?thesis by simp
qed (use points_bounds in simp_all)

lemma bump_family_simps [simp]:
  "total (bump_family c p m b) = total b"
  "block_total (bump_family c p m b) = block_total b"
  "overall_class (bump_family c p m b) = overall_class b"
  by (simp_all add: bump_family_def Let_def split: AttackCategory.splits)

lemma apply_op_total: "total (apply_op s h b) = saturating_add (total b) (op_points h)"
  by (cases h) (simp_all add: add_hit_defs Let_def)

lemma apply_op_block_total:
  "block_total (apply_op s h b) =
     (if op_monitored h then block_total b else saturating_add (block_total b) (op_points h))"
  by (cases h) (simp_all add: add_hit_defs Let_def)

lemma apply_op_class: "overall_class (apply_op s h b) = classify s (block_total (apply_op s h b))"
  by (cases h) (simp_all add: add_hit_defs Let_def)

text \<open>The blocking view: what the managed rules and the threshold decision read.\<close>

definition block_view :: "ScoreBreakdown \<Rightarrow> u32 \<times> u8 \<times> u8 \<times> u8" where
  "block_view b = (block_total b, block_sqli_score b, block_xss_score b, block_rce_score b)"

definition score_inv :: "AnomalyScorer \<Rightarrow> ScoreBreakdown \<Rightarrow> bool" where
  "score_inv s b \<longleftrightarrow>
     block_total b \<le> total b \<and> block_sqli_score b \<le> sqli_score b
     \<and> block_xss_score b \<le> xss_score b \<and> block_rce_score b \<le> rce_score b
     \<and> overall_class b = classify s (block_total b)"

lemma score_inv_clean: "score_inv s score_clean"
  by (simp add: score_inv_def score_clean_def classify_def)

lemma apply_op_monitored_view: "op_monitored h \<Longrightarrow> block_view (apply_op s h b) = block_view b"
  by (cases h)
     (simp_all add: block_view_def add_hit_defs Let_def bump_family_def
        split: AttackCategory.splits)

lemma saturating_add_le: "a \<le> b \<Longrightarrow> a \<le> saturating_add b c" for a b c :: "'a::len word"
  by (metis order_trans saturating_add_ge)

lemma bump_family_ordered:
  "block_sqli_score b \<le> sqli_score b \<Longrightarrow>
     block_sqli_score (bump_family c p m b) \<le> sqli_score (bump_family c p m b)"
  "block_xss_score b \<le> xss_score b \<Longrightarrow>
     block_xss_score (bump_family c p m b) \<le> xss_score (bump_family c p m b)"
  "block_rce_score b \<le> rce_score b \<Longrightarrow>
     block_rce_score (bump_family c p m b) \<le> rce_score (bump_family c p m b)"
  by (simp_all add: bump_family_def Let_def saturating_add_mono saturating_add_le
      split: AttackCategory.splits)

lemma apply_op_inv:
  assumes "score_inv s b"
  shows "score_inv s (apply_op s h b)"
proof (cases h)
  case (SeverityHit sev m)
  with assms show ?thesis
    by (simp add: score_inv_def add_severity_hit_ex_def Let_def saturating_add_mono
        saturating_add_le)
next
  case (CategoryHit c sev m)
  with assms show ?thesis
    by (simp add: score_inv_def add_category_hit_ex_def Let_def saturating_add_mono
        saturating_add_le bump_family_ordered)
next
  case (ExprHit m)
  with assms show ?thesis
    by (simp add: score_inv_def add_expr_hit_ex_def Let_def saturating_add_mono
        saturating_add_le)
qed

section \<open>The accumulator contract\<close>

locale hit_accumulator =
  fixes step :: "'h \<Rightarrow> 's \<Rightarrow> 's"
    and inv :: "'s \<Rightarrow> bool"
    and view :: "'s \<Rightarrow> 'v"
    and monitored :: "'h \<Rightarrow> bool"
  assumes step_inv: "inv s \<Longrightarrow> inv (step h s)"
    and step_monitored: "monitored h \<Longrightarrow> view (step h s) = view s"
begin

lemma fold_inv: "inv s \<Longrightarrow> inv (fold step hs s)"
  by (induction hs arbitrary: s) (auto intro: step_inv)

lemma fold_monitored: "\<forall>h \<in> set hs. monitored h \<Longrightarrow> view (fold step hs s) = view s"
  by (induction hs arbitrary: s) (auto simp: step_monitored)

end

interpretation scorer: hit_accumulator "apply_op s" "score_inv s" block_view op_monitored for s
  by unfold_locales (auto intro: apply_op_inv apply_op_monitored_view)

section \<open>Runs of hits are saturated sums\<close>

definition sat_sum :: "nat \<Rightarrow> nat list \<Rightarrow> nat \<Rightarrow> nat" where
  "sat_sum limit xs start = min (start + sum_list xs) limit"

lemma min_add_sat: "min (min a limit + c) limit = min (a + c) limit" for limit :: nat
  by linarith

lemma sat_fold:
  fixes s :: "'a::len word"
  assumes "\<And>x s. f x s = (if p x then s else saturating_add s (g x))"
  shows "unat (fold f xs s) =
     sat_sum (2 ^ LENGTH('a) - 1) (map (\<lambda>x. unat (g x)) (filter (\<lambda>x. \<not> p x) xs)) (unat s)"
proof (induction xs arbitrary: s)
  case Nil
  have "unat s < 2 ^ LENGTH('a)" by (rule unsigned_less)
  then have "unat s \<le> 2 ^ LENGTH('a) - 1" by linarith
  then show ?case by (simp add: sat_sum_def)
next
  case (Cons x xs)
  then show ?case
    by (simp add: assms unat_saturating_add sat_sum_def min_add_sat add.assoc)
qed

lemma total_run_hits:
  "total (run_hits s ops b) = fold (\<lambda>h t. saturating_add t (op_points h)) ops (total b)"
  by (induction ops arbitrary: b) (simp_all add: run_hits_def apply_op_total)

lemma block_total_run_hits:
  "block_total (run_hits s ops b) =
     fold (\<lambda>h t. if op_monitored h then t else saturating_add t (op_points h)) ops (block_total b)"
  by (induction ops arbitrary: b) (simp_all add: run_hits_def apply_op_block_total)

lemma run_hits_total:
  "unat (total (run_hits s ops score_clean)) =
     min (\<Sum>h\<leftarrow>ops. unat (op_points h)) (2 ^ 32 - 1)"
  using sat_fold [where p = "\<lambda>_. False" and g = op_points and xs = ops and s = "0 :: u32"
      and f = "\<lambda>h t. saturating_add t (op_points h)"]
  by (simp add: total_run_hits score_clean_def sat_sum_def)

lemma run_hits_block_total:
  "unat (block_total (run_hits s ops score_clean)) =
     min (\<Sum>h\<leftarrow>filter (\<lambda>h. \<not> op_monitored h) ops. unat (op_points h)) (2 ^ 32 - 1)"
  using sat_fold [where p = op_monitored and g = op_points and xs = ops and s = "0 :: u32"
      and f = "\<lambda>h t. if op_monitored h then t else saturating_add t (op_points h)"]
  by (simp add: block_total_run_hits score_clean_def sat_sum_def)

lemma run_hits_inv: "score_inv s (run_hits s ops score_clean)"
  unfolding run_hits_def by (rule scorer.fold_inv) (rule score_inv_clean)

section \<open>Classification\<close>

lemma classify_no_wrap:
  assumes "threshold s \<le> 2 ^ 31" and "t < threshold s"
  shows "threshold s \<le> t * 2 \<longleftrightarrow> unat (threshold s) \<le> 2 * unat t"
proof -
  have "unat (threshold s) \<le> 2 ^ 31" "unat t < unat (threshold s)"
    using assms by (simp_all add: word_le_nat_alt word_less_nat_alt)
  then have "unat t * 2 < 2 ^ 32" by simp
  then have "unat (t * 2) = unat t * 2" by (simp add: unat_word_ariths)
  then show ?thesis by (simp add: word_le_nat_alt mult.commute)
qed

section \<open>Properties\<close>

lemma apply_op_view_cong:
  "block_view a = block_view b \<Longrightarrow> block_view (apply_op s h a) = block_view (apply_op s h b)"
  by (cases h)
     (auto simp: block_view_def add_hit_defs Let_def bump_family_def split: AttackCategory.splits)

lemma run_hits_view_filter:
  "block_view a = block_view b \<Longrightarrow>
   block_view (run_hits s ops a) = block_view (run_hits s (filter (\<lambda>h. \<not> op_monitored h) ops) b)"
proof (induction ops arbitrary: a b)
  case (Cons h ops)
  show ?case
  proof (cases "op_monitored h")
    case True
    with Cons apply_op_monitored_view [OF True, of s a] show ?thesis by (simp add: run_hits_def)
  next
    case False
    with Cons apply_op_view_cong [OF Cons.prems, of s h] show ?thesis by (simp add: run_hits_def)
  qed
qed (simp add: run_hits_def)

text \<open>
  C21: After any sequence of scorer calls on a clean breakdown, the total is the sum of the hits'
  points and the blocking total the sum over the hits that are not monitored, both saturated
  at \<^verbatim>\<open>u32::MAX\<close>; every blocking score is at most its full score and the class is the
  classification of the blocking total.
\<close>

theorem score_accumulates:
  "unat (total (run_hits s ops score_clean)) = min (\<Sum>h\<leftarrow>ops. unat (op_points h)) (2 ^ 32 - 1)
   \<and> unat (block_total (run_hits s ops score_clean))
       = min (\<Sum>h\<leftarrow>filter (\<lambda>h. \<not> op_monitored h) ops. unat (op_points h)) (2 ^ 32 - 1)
   \<and> score_inv s (run_hits s ops score_clean)"
  by (simp add: run_hits_total run_hits_block_total run_hits_inv)

text \<open>
  Hits of monitored signatures, categories and rules never influence blocking: dropping all
  of them from a request leaves the whole blocking view (total and family scores), and so the
  threshold decision, unchanged.
\<close>

theorem monitored_hits_never_block:
  "block_view (run_hits s ops score_clean)
     = block_view (run_hits s (filter (\<lambda>h. \<not> op_monitored h) ops) score_clean)
   \<and> should_block s (block_total (run_hits s ops score_clean))
     = should_block s (block_total (run_hits s (filter (\<lambda>h. \<not> op_monitored h) ops) score_clean))"
  using run_hits_view_filter [OF refl, of s ops score_clean] by (simp add: block_view_def)

text \<open>
  The classification doubles the total with a 32-bit multiplication that wraps: with a
  threshold above \<open>2 ^ 31\<close> a total of more than half of it is classified as likely clean.
\<close>

theorem classify_wraps:
  "classify \<lparr>threshold = 2147483650, paranoia_level = 1\<rparr> 2147483648 = LikelyClean
   \<and> classify \<lparr>threshold = 1000, paranoia_level = 1\<rparr> 999 = LikelyAttack"
  by (simp add: classify_def)

end
