(* ===== verification/Rules.thy ===== *)
theory Rules
  imports Expr_Cache Score
begin

text \<open>
  \<^verbatim>\<open>src/pingwaf-waf/src/rules/mod.rs\<close> and \<^verbatim>\<open>rules/managed.rs\<close>: compiled rules, the
  serializable specification the control plane sends, and the managed rule set shipped with
  the engine, each expression compiled through the shared expression cache.  The lemmas show
  that compilation does not depend on the cache, that it establishes the rule invariant, and
  that every managed expression is accepted by the expression parser.
\<close>

section \<open>Compiled rules\<close>

datatype RuleAction = ABlock | ALog | AChallenge | AJsChallenge | AAllow

fun action_as_str :: "RuleAction \<Rightarrow> string" where
  "action_as_str ABlock = ''block''"
| "action_as_str ALog = ''log''"
| "action_as_str AChallenge = ''challenge''"
| "action_as_str AJsChallenge = ''js_challenge''"
| "action_as_str AAllow = ''allow''"

record ('net, 're) CompiledRule =
  rule_id :: string
  rule_name :: string
  rule_expression :: "('net, 're) Expression"
  rule_action :: RuleAction
  rule_severity :: u8
  rule_tags :: "string list"
  rule_enabled :: bool
  rule_paranoia :: u8
  rule_stacks :: StackSet

text \<open>A compilation step: what it returns, and the expression cache it leaves.\<close>

definition rule_compile ::
  "('net, 're) externals \<Rightarrow> ('net, 're) expr_cache \<Rightarrow> string \<Rightarrow> string \<Rightarrow> string \<Rightarrow> RuleAction \<Rightarrow> u8
     \<Rightarrow> string list \<Rightarrow> (ParseError + ('net, 're) CompiledRule) \<times> ('net, 're) expr_cache" where
  "rule_compile X cache i n expression action severity tags =
     (case parse_expression X cache cache expression of
        (Inl err, cache') \<Rightarrow> (Inl err, cache')
      | (Inr parsed, cache') \<Rightarrow>
          (Inr \<lparr>rule_id = i, rule_name = n, rule_expression = parsed, rule_action = action,
                rule_severity = clamp_word 1 5 severity, rule_tags = tags, rule_enabled = True,
                rule_paranoia = 1, rule_stacks = stack_generic\<rparr>, cache'))"

record RuleSpec =
  rs_id :: string
  rs_name :: string
  rs_expression :: string
  rs_action :: RuleAction
  rs_severity :: u8
  rs_tags :: "string list"
  rs_enabled :: bool
  rs_paranoia :: u8
  rs_stacks :: "string list"

text \<open>The values serde fills in for absent members.\<close>

definition default_severity :: u8 where "default_severity = 3"

definition default_true :: bool where "default_true = True"

definition default_paranoia :: u8 where "default_paranoia = 1"

definition spec_compile ::
  "('net, 're) externals \<Rightarrow> ('net, 're) expr_cache \<Rightarrow> RuleSpec
     \<Rightarrow> (ParseError + ('net, 're) CompiledRule) \<times> ('net, 're) expr_cache" where
  "spec_compile X cache s =
     (case rule_compile X cache (rs_id s) (rs_name s) (rs_expression s) (rs_action s) (rs_severity s)
             (rs_tags s) of
        (Inl err, cache') \<Rightarrow> (Inl err, cache')
      | (Inr rule, cache') \<Rightarrow>
          (Inr (rule\<lparr>rule_enabled := rs_enabled s, rule_paranoia := clamp_word 1 4 (rs_paranoia s),
                      rule_stacks := stack_from_names (rs_stacks s)\<rparr>), cache'))"

section \<open>The managed rule set\<close>

record ManagedSpec =
  spec_id :: string
  spec_name :: string
  spec_expression :: string
  spec_action :: RuleAction
  spec_severity :: u8
  spec_paranoia :: u8
  spec_stacks :: StackSet
  spec_strict_only :: bool
  spec_tags :: "string list"

definition php_upload_progress_expression :: string where
  "php_upload_progress_expression =
     (let pre = (''http.request.body contains '' @ [CHR 0x22] @ ''PHP_SESSION_UPLOAD_PROGRESS''
          @ [CHR 0x22] @ '' and http.request.headers['' @ [CHR 0x22] @ ''content-type''
          @ [CHR 0x22] @ ''] matches '' @ [CHR 0x22] @ ''(?i)multipart/form-data'' @ [CHR 0x22])
      in ''('' @
         pre @
         '' and ('' @
         (''http.request.cookies['' @ [CHR 0x22] @ ''PHPSESSID'' @ [CHR 0x22] @ ''] matches ''
          @ [CHR 0x22] @ ''^[0-9A-Za-z,-]{16,256}$'' @ [CHR 0x22]) @
         ('' or http.request.body matches '' @ [CHR 0x27] @ ''name='' @ [CHR 0x22]
          @ ''PHPSESSID'' @ [CHR 0x22] @ ''[^'' @ [CHR 0x5C] @ ''x0d'' @ [CHR 0x5C] @ ''x0a]*'') @
         ([CHR 0x5C] @ ''x0d'' @ [CHR 0x5C] @ ''x0a([^'' @ [CHR 0x5C] @ ''x0d'' @ [CHR 0x5C]
          @ ''x0a]+'' @ [CHR 0x5C] @ ''x0d'' @ [CHR 0x5C] @ ''x0a)*'' @ [CHR 0x5C] @ ''x0d''
          @ [CHR 0x5C] @ ''x0a[0-9A-Za-z,-]{16,256}'' @ [CHR 0x27]) @
         ('' or http.request.uri.query matches '' @ [CHR 0x27]
          @ ''PHPSESSID=[0-9A-Za-z,-]{16,256}'' @ [CHR 0x27] @ ''))'') @
         '' or ('' @
         pre @
         '' and '' @
         (''http.request.body matches '' @ [CHR 0x27] @ ''Content-Disposition:'' @ [CHR 0x5C]
          @ ''s*form-data;'' @ [CHR 0x5C] @ ''s*name='' @ [CHR 0x22] @ ''[^'' @ [CHR 0x22] @ '']+'') @
         ([CHR 0x5C] @ ''x0d'' @ [CHR 0x5C] @ ''x0a([^'' @ [CHR 0x5C] @ ''x0d'' @ [CHR 0x5C]
          @ ''x0a]+'' @ [CHR 0x5C] @ ''x0d'' @ [CHR 0x5C] @ ''x0a)*'' @ [CHR 0x5C] @ ''x0d''
          @ [CHR 0x5C] @ ''x0a['' @ [CHR 0x5C] @ ''s'' @ [CHR 0x5C] @ ''S]{0,32}'' @ [CHR 0x5C]
          @ ''x00'' @ [CHR 0x27] @ '')''))"

definition managed_specs :: "WafLevel \<Rightarrow> ManagedSpec list" where
  "managed_specs level =
     (let family_gate = (if is_strict level then 50 else 60);
          aggregate_gate = (if is_strict level then 70 else 80)
      in [\<lparr>spec_id = ''PINGWAF-1001'', spec_name = ''Block admin paths from non-trusted networks'',
        spec_expression = (''http.request.uri.path starts_with '' @ [CHR 0x22] @ ''/admin''
          @ [CHR 0x22] @ '' and not ip.src in {10.0.0.0/8 172.16.0.0/12 192.168.0.0/16 127.0.0.0/8}''),
        spec_action = AChallenge, spec_severity = 3, spec_paranoia = 1, spec_stacks = stack_generic,
        spec_strict_only = False, spec_tags = [''admin'', ''ip-restriction'']\<rparr>,
       \<lparr>spec_id = ''PINGWAF-1002'', spec_name = ''Block known SQL injection anomaly scores'',
        spec_expression = (''cf.waf.score.sqli ge '' @ show_nat family_gate),
        spec_action = ABlock, spec_severity = 5, spec_paranoia = 1, spec_stacks = stack_generic,
        spec_strict_only = False, spec_tags = [''sqli'', ''anomaly'']\<rparr>,
       \<lparr>spec_id = ''PINGWAF-1003'', spec_name = ''Block known XSS anomaly scores'',
        spec_expression = (''cf.waf.score.xss ge '' @ show_nat family_gate),
        spec_action = ABlock, spec_severity = 5, spec_paranoia = 1, spec_stacks = stack_generic,
        spec_strict_only = False, spec_tags = [''xss'', ''anomaly'']\<rparr>,
       \<lparr>spec_id = ''PINGWAF-1004'', spec_name = ''Block requests with high aggregate WAF score'',
        spec_expression = (''cf.waf.score ge '' @ show_nat aggregate_gate),
        spec_action = ABlock, spec_severity = 5, spec_paranoia = 1, spec_stacks = stack_generic,
        spec_strict_only = False, spec_tags = [''anomaly'']\<rparr>,
       \<lparr>spec_id = ''PINGWAF-1010'', spec_name = ''Block common scanner user agents'',
        spec_expression = (''user_agent matches '' @ [CHR 0x22]
          @ ''(?i)(nikto|sqlmap|nmap|masscan|acunetix|nessus|openvas|wpscan|dirbuster|gobuster|zgrab)'' @ [CHR 0x22]),
        spec_action = ABlock, spec_severity = 4, spec_paranoia = 2, spec_stacks = stack_generic,
        spec_strict_only = False, spec_tags = [''scanner'', ''user-agent'']\<rparr>,
       \<lparr>spec_id = ''PINGWAF-1011'', spec_name = ''Block empty user agents on non-HEAD requests'',
        spec_expression = (''user_agent eq '' @ [CHR 0x22, CHR 0x22]
          @ '' and http.request.method ne '' @ [CHR 0x22] @ ''HEAD'' @ [CHR 0x22]),
        spec_action = AChallenge, spec_severity = 2, spec_paranoia = 3, spec_stacks = stack_generic,
        spec_strict_only = False, spec_tags = [''user-agent'']\<rparr>,
       \<lparr>spec_id = ''PINGWAF-1020'', spec_name = ''Block sensitive dotfile probes'',
        spec_expression = (''http.request.uri.path matches '' @ [CHR 0x22] @ ''(?i)/''
          @ [CHR 0x5C, CHR 0x5C] @ ''.(?:git|env|svn|aws|kube|ssh|docker)(?:[./;]|$)'' @ [CHR 0x22]),
        spec_action = ABlock, spec_severity = 5, spec_paranoia = 1, spec_stacks = stack_generic,
        spec_strict_only = False, spec_tags = [''dotfile'', ''recon'']\<rparr>,
       \<lparr>spec_id = ''PINGWAF-1021'', spec_name = ''Block common backup-file probes'',
        spec_expression = (''http.request.uri.path matches '' @ [CHR 0x22] @ ''(?i)''
          @ [CHR 0x5C, CHR 0x5C] @ ''.(?:bak|backup|old|swp|sql)$'' @ [CHR 0x22]),
        spec_action = ABlock, spec_severity = 4, spec_paranoia = 2, spec_stacks = stack_generic,
        spec_strict_only = False, spec_tags = [''backup'', ''recon'']\<rparr>,
       \<lparr>spec_id = ''PINGWAF-1030'', spec_name = ''Block requests with HTTP method TRACE / TRACK'',
        spec_expression = (''http.request.method in {'' @ [CHR 0x22] @ ''TRACE'' @ [CHR 0x22]
          @ '' '' @ [CHR 0x22] @ ''TRACK'' @ [CHR 0x22] @ ''}''),
        spec_action = ABlock, spec_severity = 3, spec_paranoia = 1, spec_stacks = stack_generic,
        spec_strict_only = False, spec_tags = [''method'']\<rparr>,
       \<lparr>spec_id = ''PINGWAF-1031'', spec_name = ''Log unusual HTTP methods'',
        spec_expression = (''not http.request.method in {'' @ [CHR 0x22] @ ''GET'' @ [CHR 0x22]
          @ '' '' @ [CHR 0x22] @ ''POST'' @ [CHR 0x22] @ '' '' @ [CHR 0x22] @ ''PUT''
          @ [CHR 0x22] @ '' '' @ [CHR 0x22] @ ''PATCH'' @ [CHR 0x22] @ '' '' @ [CHR 0x22]
          @ ''DELETE'' @ [CHR 0x22] @ '' '' @ [CHR 0x22] @ ''HEAD'' @ [CHR 0x22] @ '' ''
          @ [CHR 0x22] @ ''OPTIONS'' @ [CHR 0x22] @ ''}''),
        spec_action = ALog, spec_severity = 1, spec_paranoia = 2, spec_stacks = stack_generic,
        spec_strict_only = False, spec_tags = [''method'']\<rparr>,
       \<lparr>spec_id = ''PINGWAF-1040'', spec_name = ''Block phpMyAdmin / wp-admin probes on non-PHP apps'',
        spec_expression = (''http.request.uri.path matches '' @ [CHR 0x22]
          @ ''(?i)/(?:phpmyadmin|pma|wp-admin|wp-login'' @ [CHR 0x5C, CHR 0x5C] @ ''.php|xmlrpc''
          @ [CHR 0x5C, CHR 0x5C] @ ''.php|administrator)'' @ [CHR 0x22]),
        spec_action = AChallenge, spec_severity = 3, spec_paranoia = 2, spec_stacks = stack_generic,
        spec_strict_only = False, spec_tags = [''recon'', ''cms'']\<rparr>,
       \<lparr>spec_id = ''PINGWAF-1050'', spec_name = ''Block Log4Shell JNDI lookups in any header'',
        spec_expression = (''http.request.headers['' @ [CHR 0x22] @ ''user-agent'' @ [CHR 0x22]
          @ ''] contains '' @ [CHR 0x22] @ ''${jndi:'' @ [CHR 0x22]),
        spec_action = ABlock, spec_severity = 5, spec_paranoia = 1, spec_stacks = stack_java,
        spec_strict_only = False, spec_tags = [''log4shell'', ''rce'']\<rparr>,
       \<lparr>spec_id = ''PINGWAF-1051'', spec_name = ''Block requests with very long URIs (likely buffer / scan attempts)'',
        spec_expression = (''http.request.uri.full matches '' @ [CHR 0x22] @ ''^.{4096,}$''
          @ [CHR 0x22]),
        spec_action = ALog, spec_severity = 3, spec_paranoia = 3, spec_stacks = stack_generic,
        spec_strict_only = False, spec_tags = [''size'']\<rparr>,
       \<lparr>spec_id = ''PINGWAF-1061'', spec_name = ''Block requests with a high RCE sub-score'',
        spec_expression = ''cf.waf.score.rce ge 40'',
        spec_action = ABlock, spec_severity = 5, spec_paranoia = 1, spec_stacks = stack_generic,
        spec_strict_only = True, spec_tags = [''rce'', ''anomaly'']\<rparr>,
       \<lparr>spec_id = ''PINGWAF-1070'', spec_name = ''Block PHP session upload-progress exploit probes (CVE-2026-109618/109619)'',
        spec_expression = php_upload_progress_expression,
        spec_action = ABlock, spec_severity = 5, spec_paranoia = 2, spec_stacks = (stack_union stack_generic stack_php),
        spec_strict_only = True, spec_tags = [''php'', ''upload-progress'', ''cve-2026-109618'', ''rce'']\<rparr>])"

text \<open>The loop over the specifications: strict-only ones are left out below Strict, malformed ones
  are skipped.\<close>

fun managed_loop ::
  "('net, 're) externals \<Rightarrow> bool \<Rightarrow> ('net, 're) expr_cache \<Rightarrow> ManagedSpec list
     \<Rightarrow> ('net, 're) CompiledRule list \<times> ('net, 're) expr_cache" where
  "managed_loop X strict cache [] = ([], cache)"
| "managed_loop X strict cache (s # ss) =
     (if spec_strict_only s \<and> \<not> strict then managed_loop X strict cache ss
      else
        case rule_compile X cache (spec_id s) (spec_name s) (spec_expression s) (spec_action s)
               (spec_severity s) (spec_tags s) of
          (Inl err, cache') \<Rightarrow> managed_loop X strict cache' ss
        | (Inr rule, cache') \<Rightarrow>
            (case managed_loop X strict cache' ss of
               (rules, cache'') \<Rightarrow>
                 (rule\<lparr>rule_paranoia := spec_paranoia s, rule_stacks := spec_stacks s\<rparr> # rules,
                  cache'')))"

definition default_managed_rules ::
  "('net, 're) externals \<Rightarrow> ('net, 're) expr_cache \<Rightarrow> WafLevel
     \<Rightarrow> ('net, 're) CompiledRule list \<times> ('net, 're) expr_cache" where
  "default_managed_rules X cache level = managed_loop X (is_strict level) cache (managed_specs level)"

definition MANAGED_RULE_IDS :: "string list" where
  "MANAGED_RULE_IDS =
     [''PINGWAF-1001'', ''PINGWAF-1002'', ''PINGWAF-1003'', ''PINGWAF-1004'', ''PINGWAF-1010'',
      ''PINGWAF-1011'', ''PINGWAF-1020'', ''PINGWAF-1021'', ''PINGWAF-1030'', ''PINGWAF-1031'',
      ''PINGWAF-1040'', ''PINGWAF-1050'', ''PINGWAF-1051'', ''PINGWAF-1061'', ''PINGWAF-1070'']"

record ManagedRuleInfo =
  info_id :: string
  info_name :: string
  info_action :: string
  info_severity :: u8
  info_tags :: "string list"
  info_stacks :: "string list"
  info_category :: "string option"
  info_strict_only :: bool

definition stack_names :: "StackSet \<Rightarrow> string list" where
  "stack_names stacks =
     map snd (filter (\<lambda>(s, _). stack_bits stacks AND stack_bits s \<noteq> 0)
       [(stack_generic, ''generic''), (stack_java, ''java''), (stack_php, ''php''),
        (stack_python, ''python''), (stack_node, ''node'')])"

definition FAMILY_TAGS :: "(string \<times> AttackCategory) list" where
  "FAMILY_TAGS = [(''sqli'', SqlInjection), (''xss'', Xss), (''rce'', CommandInjection)]"

definition managed_rule_category :: "('net, 're) CompiledRule \<Rightarrow> AttackCategory option" where
  "managed_rule_category rule =
     map_option snd (find (\<lambda>(tag, _). list_ex (\<lambda>t. t = tag) (rule_tags rule)) FAMILY_TAGS)"

definition managed_rule_catalogue ::
  "('net, 're) externals \<Rightarrow> ('net, 're) expr_cache \<Rightarrow> WafLevel
     \<Rightarrow> ManagedRuleInfo list \<times> ('net, 're) expr_cache" where
  "managed_rule_catalogue X cache level =
     (let (normal_rules, cache1) = default_managed_rules X cache Normal;
          normal_ids = set (map rule_id normal_rules);
          (rules, cache2) = default_managed_rules X cache1 level
      in (map (\<lambda>r. \<lparr>info_id = rule_id r, info_name = rule_name r,
                    info_action = action_as_str (rule_action r), info_severity = rule_severity r,
                    info_tags = rule_tags r, info_stacks = stack_names (rule_stacks r),
                    info_category = map_option category_as_str (managed_rule_category r),
                    info_strict_only = (rule_id r \<notin> normal_ids)\<rparr>) rules, cache2))"

section \<open>Compilation does not depend on the cache\<close>

definition coherent_cache :: "('net, 're) externals \<Rightarrow> ('net, 're) expr_cache \<Rightarrow> bool" where
  "coherent_cache X cache \<longleftrightarrow> expr_cache.coherent (parse_spec X) cache"

lemma coherent_empty [simp]: "coherent_cache X []"
  by (simp add: coherent_cache_def expr_cache.coherent_def)

lemma rule_compile_spec:
  assumes "coherent_cache X cache"
  shows "fst (rule_compile X cache i n e a sev tags) =
      (case parse_spec X e of
         Inl err \<Rightarrow> Inl err
       | Inr parsed \<Rightarrow>
           Inr \<lparr>rule_id = i, rule_name = n, rule_expression = parsed, rule_action = a,
                rule_severity = clamp_word 1 5 sev, rule_tags = tags, rule_enabled = True,
                rule_paranoia = 1, rule_stacks = stack_generic\<rparr>)"
    and "coherent_cache X (snd (rule_compile X cache i n e a sev tags))"
  using parse_expression_coherent [of X cache cache e] assms
  by (auto simp: rule_compile_def coherent_cache_def split: prod.splits sum.splits)

text \<open>The rule a specification of the managed set stands for.\<close>

definition managed_rule ::
  "('net, 're) Expression \<Rightarrow> ManagedSpec \<Rightarrow> ('net, 're) CompiledRule" where
  "managed_rule e s =
     \<lparr>rule_id = spec_id s, rule_name = spec_name s, rule_expression = e, rule_action = spec_action s,
      rule_severity = clamp_word 1 5 (spec_severity s), rule_tags = spec_tags s, rule_enabled = True,
      rule_paranoia = spec_paranoia s, rule_stacks = spec_stacks s\<rparr>"

definition managed_accepted :: "('net, 're) externals \<Rightarrow> ManagedSpec \<Rightarrow> bool" where
  "managed_accepted X s = (case parse_spec X (spec_expression s) of Inl _ \<Rightarrow> False | Inr _ \<Rightarrow> True)"

lemma managed_loop_rules:
  "coherent_cache X cache \<Longrightarrow>
   fst (managed_loop X strict cache ss) =
     map (\<lambda>s. managed_rule (projr (parse_spec X (spec_expression s))) s)
       (filter (\<lambda>s. (strict \<or> \<not> spec_strict_only s) \<and> managed_accepted X s) ss)
   \<and> coherent_cache X (snd (managed_loop X strict cache ss))"
proof (induction ss arbitrary: cache)
  case (Cons s ss)
  let ?c = "rule_compile X cache (spec_id s) (spec_name s) (spec_expression s) (spec_action s)
    (spec_severity s) (spec_tags s)"
  note rc = rule_compile_spec [OF Cons.prems, of "spec_id s" "spec_name s" "spec_expression s"
      "spec_action s" "spec_severity s" "spec_tags s"]
  show ?case
  proof (cases "parse_spec X (spec_expression s)")
    case (Inl err)
    then have a: "\<not> managed_accepted X s" and "fst ?c = Inl err"
      using rc(1) by (simp_all add: managed_accepted_def)
    then obtain c' where c: "?c = (Inl err, c')" by (cases ?c) simp
    with rc(2) have "coherent_cache X c'" by simp
    from Cons.IH [OF this] Cons.IH [OF Cons.prems] show ?thesis by (cases strict) (simp_all add: a c)
  next
    case (Inr e)
    then have a: "managed_accepted X s" by (simp add: managed_accepted_def)
    obtain r c' where c: "?c = (Inr r, c')"
      and r: "r\<lparr>rule_paranoia := spec_paranoia s, rule_stacks := spec_stacks s\<rparr> = managed_rule e s"
      using rc(1) Inr by (cases ?c) (simp add: managed_rule_def)
    from c rc(2) have "coherent_cache X c'" by simp
    from Cons.IH [OF this] Cons.IH [OF Cons.prems] show ?thesis
      by (cases strict) (simp_all add: a c r Inr split_beta)
  qed
qed simp

section \<open>Every managed expression is accepted\<close>

text \<open>The network and pattern literals of the managed expressions, as the parser hands them to
  \<^verbatim>\<open>ipnet\<close> and to \<^verbatim>\<open>regex\<close>.\<close>

definition managed_nets :: "string list" where
  "managed_nets = [''10.0.0.0/8'', ''172.16.0.0/12'', ''192.168.0.0/16'', ''127.0.0.0/8'']"

definition managed_regexes :: "string list" where
  "managed_regexes =
     [''(?i)(nikto|sqlmap|nmap|masscan|acunetix|nessus|openvas|wpscan|dirbuster|gobuster|zgrab)'',
      (''(?i)/'' @ [CHR 0x5C] @ ''.(?:git|env|svn|aws|kube|ssh|docker)(?:[./;]|$)''),
      (''(?i)'' @ [CHR 0x5C] @ ''.(?:bak|backup|old|swp|sql)$''),
      (''(?i)/(?:phpmyadmin|pma|wp-admin|wp-login'' @ [CHR 0x5C] @ ''.php|xmlrpc'' @ [CHR 0x5C] @ ''.php|administrator)''),
      ''^.{4096,}$'',
      ''(?i)multipart/form-data'',
      ''^[0-9A-Za-z,-]{16,256}$'',
      (''name='' @ [CHR 0x22] @ ''PHPSESSID'' @ [CHR 0x22] @ ''[^'' @ [CHR 0x5C] @ ''x0d'' @ [CHR 0x5C] @ ''x0a]*'' @ [CHR 0x5C] @ ''x0d'' @ [CHR 0x5C] @ ''x0a([^'' @ [CHR 0x5C] @ ''x0d'' @ [CHR 0x5C] @ ''x0a]+'' @ [CHR 0x5C] @ ''x0d'' @ [CHR 0x5C] @ ''x0a)*'' @ [CHR 0x5C] @ ''x0d'' @ [CHR 0x5C] @ ''x0a[0-9A-Za-z,-]{16,256}''),
      ''PHPSESSID=[0-9A-Za-z,-]{16,256}'',
      (''Content-Disposition:'' @ [CHR 0x5C] @ ''s*form-data;'' @ [CHR 0x5C] @ ''s*name='' @ [CHR 0x22] @ ''[^'' @ [CHR 0x22] @ '']+'' @ [CHR 0x5C] @ ''x0d'' @ [CHR 0x5C] @ ''x0a([^'' @ [CHR 0x5C] @ ''x0d'' @ [CHR 0x5C] @ ''x0a]+'' @ [CHR 0x5C] @ ''x0d'' @ [CHR 0x5C] @ ''x0a)*'' @ [CHR 0x5C] @ ''x0d'' @ [CHR 0x5C] @ ''x0a['' @ [CHR 0x5C] @ ''s'' @ [CHR 0x5C] @ ''S]{0,32}'' @ [CHR 0x5C] @ ''x00'')]"

definition covering ::
  "(string \<Rightarrow> 'net) \<Rightarrow> (string \<Rightarrow> 'net option) \<Rightarrow> (string \<Rightarrow> 're) \<Rightarrow> (string \<Rightarrow> 're option)
     \<Rightarrow> (IpAddr \<Rightarrow> 'net) \<Rightarrow> ('net \<Rightarrow> IpAddr \<Rightarrow> bool) \<Rightarrow> (string \<Rightarrow> 're option)
     \<Rightarrow> ('re \<Rightarrow> string \<Rightarrow> bool) \<Rightarrow> ('net, 're) externals" where
  "covering N N' R R' A C G M =
     \<lparr>net_from_str = (\<lambda>s. if List.member managed_nets s then Some (N s) else N' s), net_from_addr = A,
      net_contains = C,
      regex_limited = (\<lambda>s. if List.member managed_regexes s then Some (R s) else R' s),
      regex_new = G, regex_is_match = M\<rparr>"

definition sample_rule_externals :: "(string, string) externals" where
  "sample_rule_externals =
     covering (\<lambda>s. s) (\<lambda>_. None) (\<lambda>s. s) (\<lambda>_. None) (\<lambda>_. []) (\<lambda>_ _. False) (\<lambda>_. None) contains_str"

lemma covering_self:
  assumes "\<forall>s\<in>set managed_nets. net_from_str X s \<noteq> None"
    and "\<forall>s\<in>set managed_regexes. regex_limited X s \<noteq> None"
  shows "X = covering (\<lambda>s. the (net_from_str X s)) (net_from_str X) (\<lambda>s. the (regex_limited X s))
    (regex_limited X) (net_from_addr X) (net_contains X) (regex_new X) (regex_is_match X)"
  using assms by (intro externals.equality) (auto simp: covering_def fun_eq_iff List.member_iff)

definition accepted_text :: "('net, 're) externals \<Rightarrow> string \<Rightarrow> bool" where
  "accepted_text X e = (case parse_uncached X e of Inl _ \<Rightarrow> False | Inr _ \<Rightarrow> True)"

lemma upload_progress_accepted:
  "accepted_text (covering N N' R R' A C G M) php_upload_progress_expression"
  by code_simp

lemma managed_expressions_accepted:
  "list_all (\<lambda>s. s = php_upload_progress_expression \<or> accepted_text (covering N N' R R' A C G M) s)
     (map spec_expression (managed_specs Strict))"
  unfolding managed_specs_def Let_def list.map list.pred_inject ManagedSpec.simps is_strict.simps if_True
  by (intro conjI list.pred_inject(1); (rule disjI1, rule refl | rule disjI2, code_simp))

lemma gate_expressions_accepted:
  "accepted_text (covering N N' R R' A C G M) (''cf.waf.score.sqli ge '' @ show_nat 60)"
  "accepted_text (covering N N' R R' A C G M) (''cf.waf.score.xss ge '' @ show_nat 60)"
  "accepted_text (covering N N' R R' A C G M) (''cf.waf.score ge '' @ show_nat 80)"
  by code_simp+

lemma normal_expressions:
  assumes "list_all P (map spec_expression (managed_specs Strict))"
    and "P (''cf.waf.score.sqli ge '' @ show_nat 60)" and "P (''cf.waf.score.xss ge '' @ show_nat 60)"
    and "P (''cf.waf.score ge '' @ show_nat 80)"
  shows "list_all P (map spec_expression (managed_specs Normal))"
  using assms unfolding managed_specs_def Let_def list.map list.pred_inject ManagedSpec.simps
    is_strict.simps if_True if_False
  by blast

lemma managed_expressions_short:
  "list_all (\<lambda>s. length (spec_expression s) \<le> MAX_EXPRESSION_LEN) (managed_specs level)"
  by (cases level) (simp_all add: managed_specs_def MAX_EXPRESSION_LEN_def
      php_upload_progress_expression_def Let_def show_nat.simps)

lemma managed_specs_accepted:
  assumes "\<forall>s\<in>set managed_nets. net_from_str X s \<noteq> None"
    and "\<forall>s\<in>set managed_regexes. regex_limited X s \<noteq> None" and s: "s \<in> set (managed_specs level)"
  shows "managed_accepted X s"
proof -
  note X = covering_self [OF assms(1,2)]
  have strict: "list_all (accepted_text X) (map spec_expression (managed_specs Strict))"
    by (subst X, rule list.pred_mono_strong [OF managed_expressions_accepted])
      (auto simp: upload_progress_accepted)
  have "list_all (accepted_text X) (map spec_expression (managed_specs level))"
  proof (cases level)
    case Normal
    have "accepted_text X (''cf.waf.score.sqli ge '' @ show_nat 60)"
        "accepted_text X (''cf.waf.score.xss ge '' @ show_nat 60)"
        "accepted_text X (''cf.waf.score ge '' @ show_nat 80)"
      by (subst X, rule gate_expressions_accepted)+
    from normal_expressions [OF strict this] show ?thesis by (simp only: Normal)
  qed (simp only: strict)
  with s have "accepted_text X (spec_expression s)" by (simp add: list_all_iff)
  then show ?thesis
    using s managed_expressions_short [of level]
    by (auto simp: managed_accepted_def accepted_text_def parse_spec_def list_all_iff)
qed

lemma managed_spec_ids:
  "map spec_id (filter (\<lambda>s. is_strict level \<or> \<not> spec_strict_only s) (managed_specs level))
     = (if is_strict level then MANAGED_RULE_IDS else take 13 MANAGED_RULE_IDS)"
  by (cases level) (simp_all add: managed_specs_def MANAGED_RULE_IDS_def Let_def)

lemma managed_specs_severity:
  "list_all (\<lambda>s. clamp_word 1 5 (spec_severity s) = spec_severity s \<and> spec_paranoia s \<in> {1..4})
     (managed_specs level)"
  by (cases level) (simp_all add: managed_specs_def Let_def clamp_word_def)

section \<open>Properties\<close>

text \<open>
  C36: No managed rule is lost. From any cache that parsing has left, and with the four networks
  accepted by \<^verbatim>\<open>ipnet\<close> and the ten patterns by \<^verbatim>\<open>regex\<close>, \<^const>\<open>default_managed_rules\<close> compiles
  every rule of the level: at Strict the ids are those of \<^verbatim>\<open>MANAGED_RULE_IDS\<close>, in order,
  otherwise the first thirteen. Every rule is enabled, keeps the severity of its table entry and
  a paranoia level from 1 to 4, and its expression is the parse of the table's text.
\<close>

theorem managed_rules_complete:
  assumes "cache_state X cache"
    and "\<forall>s\<in>set managed_nets. net_from_str X s \<noteq> None"
    and "\<forall>s\<in>set managed_regexes. regex_limited X s \<noteq> None"
  shows "map rule_id (fst (default_managed_rules X cache level))
      = (if is_strict level then MANAGED_RULE_IDS else take 13 MANAGED_RULE_IDS)
    \<and> (\<forall>r\<in>set (fst (default_managed_rules X cache level)). \<exists>s\<in>set (managed_specs level).
         rule_id r = spec_id s \<and> rule_enabled r \<and> rule_severity r = spec_severity s
         \<and> rule_paranoia r \<in> {1..4} \<and> parse_spec X (spec_expression s) = Inr (rule_expression r))"
proof -
  have "coherent_cache X cache"
    using cache_state_coherent [OF assms(1)] by (simp add: coherent_cache_def)
  note L = managed_loop_rules [OF this, of "is_strict level" "managed_specs level"]
  have F: "filter (\<lambda>s. (is_strict level \<or> \<not> spec_strict_only s) \<and> managed_accepted X s) (managed_specs level)
      = filter (\<lambda>s. is_strict level \<or> \<not> spec_strict_only s) (managed_specs level)"
    using managed_specs_accepted [OF assms(2,3)] by (intro filter_cong) auto
  have rules: "fst (default_managed_rules X cache level)
      = map (\<lambda>s. managed_rule (projr (parse_spec X (spec_expression s))) s)
          (filter (\<lambda>s. is_strict level \<or> \<not> spec_strict_only s) (managed_specs level))"
    using L unfolding default_managed_rules_def F by simp
  have "\<exists>e. parse_spec X (spec_expression s) = Inr e" if "s \<in> set (managed_specs level)" for s
    using managed_specs_accepted [OF assms(2,3) that] by (auto simp: managed_accepted_def split: sum.splits)
  then show ?thesis
    unfolding rules using managed_spec_ids [of level] managed_specs_severity [of level]
    by (fastforce simp: managed_rule_def list_all_iff comp_def)
qed

theorem managed_rules_complete_witness:
  "map rule_id (fst (default_managed_rules sample_rule_externals [] Strict)) = MANAGED_RULE_IDS"
  using managed_rules_complete [of sample_rule_externals "[]" Strict]
  by (simp add: cache_state.start sample_rule_externals_def covering_def)

end
