(* ===== verification/Engine_Base.thy ===== *)
theory Engine_Base
  imports Normalize_Scan Signatures Detectors Rules
begin

text \<open>
  \<^verbatim>\<open>src/pingwaf-waf/src/engine/mod.rs\<close>: the types of the detection engine, its construction and
  its configuration calls, and the formatting of hit records.  An engine is built from a base
  that sites with the same level and stacks share through two process-wide tables; the lemmas
  show that the tables are transparent, so a shared engine is the engine built from scratch.
\<close>

section \<open>Modes, configuration, requests\<close>

datatype WafMode = ModeOff | ModeMonitor | ModeBlock

record ('net, 're) WafEngineConfig =
  cfg_mode :: WafMode
  cfg_level :: WafLevel
  cfg_stacks :: StackSet
  cfg_threshold :: u32
  cfg_paranoia_level :: u8
  cfg_max_decode_layers :: nat
  cfg_rules :: "('net, 're) CompiledRule list"
  cfg_enable_managed_rules :: bool
  cfg_fast_path :: bool
  cfg_monitor_categories :: CategorySet
  cfg_monitor_stacks :: StackSet
  cfg_monitor_managed_rules :: "string set"
  cfg_disabled_managed_rules :: "string set"
  cfg_monitor_custom_rules :: "string set"

definition config_default :: "('net, 're) WafEngineConfig" where
  "config_default =
     \<lparr>cfg_mode = ModeBlock, cfg_level = Normal, cfg_stacks = stack_all, cfg_threshold = 40,
      cfg_paranoia_level = 2, cfg_max_decode_layers = 3, cfg_rules = [],
      cfg_enable_managed_rules = True, cfg_fast_path = True,
      cfg_monitor_categories = category_empty, cfg_monitor_stacks = stack_empty,
      cfg_monitor_managed_rules = {}, cfg_disabled_managed_rules = {},
      cfg_monitor_custom_rules = {}\<rparr>"

record RequestData =
  req_method :: string
  req_path :: string
  req_query :: string
  req_headers :: "(string \<times> string) list"
  req_body :: "string option"
  req_client_ip :: string
  req_country_code :: "string option"
  req_scheme :: string
  req_protocol :: string

definition request_new :: "string \<Rightarrow> string \<Rightarrow> RequestData" where
  "request_new m p =
     \<lparr>req_method = m, req_path = p, req_query = [], req_headers = [], req_body = None,
      req_client_ip = [], req_country_code = None, req_scheme = ''http'',
      req_protocol = ''HTTP/1.1''\<rparr>"

record WafVerdict =
  action :: WafAction
  score :: u8
  matched_rules :: "string list"
  enforced_rule_id :: "string option"
  details :: string
  verdict_breakdown :: ScoreBreakdown

definition verdict_pass :: WafVerdict where
  "verdict_pass =
     \<lparr>action = Pass, score = 0, matched_rules = [], enforced_rule_id = None, details = [],
      verdict_breakdown = score_clean\<rparr>"

definition is_blocked :: "WafVerdict \<Rightarrow> bool" where
  "is_blocked v \<longleftrightarrow> action v = Block \<or> action v = Challenge"

section \<open>Surfaces\<close>

datatype Surface = SQuery | SHeader | SBody | SPath

fun surface_rank :: "Surface \<Rightarrow> nat" where
  "surface_rank SQuery = 0"
| "surface_rank SHeader = 1"
| "surface_rank SBody = 2"
| "surface_rank SPath = 3"

lemma surface_rank_inj: "surface_rank a = surface_rank b \<longleftrightarrow> a = b"
  by (cases a; cases b) simp_all

text \<open>The derived order of the enum.\<close>

instantiation Surface :: linorder
begin

definition less_eq_Surface :: "Surface \<Rightarrow> Surface \<Rightarrow> bool" where
  "less_eq_Surface a b \<longleftrightarrow> surface_rank a \<le> surface_rank b"

definition less_Surface :: "Surface \<Rightarrow> Surface \<Rightarrow> bool" where
  "less_Surface a b \<longleftrightarrow> surface_rank a < surface_rank b"

instance
  by standard (auto simp: less_eq_Surface_def less_Surface_def surface_rank_inj)

end

fun surface_as_str :: "Surface \<Rightarrow> string" where
  "surface_as_str SQuery = ''query''"
| "surface_as_str SHeader = ''header''"
| "surface_as_str SBody = ''body''"
| "surface_as_str SPath = ''path''"

fun surface_of :: "ValueSource \<Rightarrow> Surface" where
  "surface_of QueryParam = SQuery"
| "surface_of Cookie = SQuery"
| "surface_of Header = SHeader"
| "surface_of Body = SBody"
| "surface_of Path = SPath"

definition first_surface :: "Surface list \<Rightarrow> Surface option" where
  "first_surface surfaces = find (\<lambda>c. c \<in> set surfaces) [SQuery, SHeader, SBody, SPath]"

definition surfaces_marker :: "Surface list \<Rightarrow> string option" where
  "surfaces_marker surfaces =
     (let unique = remdups_adj (sort surfaces) in
      if unique = [] then None
      else Some (''['' @ join_with '','' (map surface_as_str unique) @ '']''))"

section \<open>Hit records\<close>

datatype HitRec =
    Sig nat u8 string string bool
  | Lib string string string string bool
  | Expr string string string bool

record RuleRec =
  rec_id :: string
  rec_name :: string
  rec_action :: RuleAction
  rec_severity :: u8
  rec_monitored :: bool

text \<open>\<^verbatim>\<open>char::is_control\<close>: the category Cc.\<close>

definition is_control :: "nat \<Rightarrow> bool" where
  "is_control ch \<longleftrightarrow> ch < 32 \<or> 127 \<le> ch \<and> ch < 160"

definition detail_text :: "string \<Rightarrow> string" where
  "detail_text s = concat (map encode_utf8 (take 80 (filter (\<lambda>ch. \<not> is_control ch) (str_chars s))))"

definition FIELD_STRONG_MAX_LEN :: nat where "FIELD_STRONG_MAX_LEN = 256"

section \<open>The engine and its shared base\<close>

record ('net, 're) WafBase =
  base_signatures :: SignatureEngine
  base_managed_rules :: "('net, 're) CompiledRule list"

record ('net, 're) WafEngine =
  signatures :: SignatureEngine
  rules :: "('net, 're) CompiledRule list"
  scorer :: AnomalyScorer
  mode :: WafMode
  level :: WafLevel
  stacks :: StackSet
  decode_layers :: nat
  fast_path_block_on_critical :: bool
  monitor_categories :: CategorySet
  monitor_stacks :: StackSet
  monitor_managed_rules :: "string set"
  monitor_custom_rules :: "string set"

text \<open>The process-wide state construction runs on: the expression cache, the managed rules by
  level and the bases by profile.\<close>

record ('net, 're) Shared =
  sh_exprs :: "('net, 're) expr_cache"
  sh_rules :: "(WafLevel \<times> ('net, 're) CompiledRule list) list"
  sh_bases :: "((WafLevel \<times> StackSet) \<times> ('net, 're) WafBase) list"

definition fresh_managed_rules ::
  "('net, 're) externals \<Rightarrow> WafLevel \<Rightarrow> ('net, 're) Shared
     \<Rightarrow> ('net, 're) CompiledRule list \<times> ('net, 're) Shared" where
  "fresh_managed_rules X lv g =
     (case default_managed_rules X (sh_exprs g) lv of (rs, c) \<Rightarrow> (rs, g\<lparr>sh_exprs := c\<rparr>))"

definition shared_managed_rules ::
  "('net, 're) externals \<Rightarrow> WafLevel \<Rightarrow> ('net, 're) Shared
     \<Rightarrow> ('net, 're) CompiledRule list \<times> ('net, 're) Shared" where
  "shared_managed_rules X lv g =
     (case map_of (sh_rules g) lv of
        Some rs \<Rightarrow> (rs, g)
      | None \<Rightarrow>
          (case fresh_managed_rules X lv g of
             (rs, g') \<Rightarrow> (rs, g'\<lparr>sh_rules := AList.update lv rs (sh_rules g')\<rparr>)))"

definition base_new ::
  "('net, 're) externals \<Rightarrow> automaton \<Rightarrow> WafLevel \<Rightarrow> StackSet \<Rightarrow> bool \<Rightarrow> ('net, 're) Shared
     \<Rightarrow> ('net, 're) WafBase \<times> ('net, 're) Shared" where
  "base_new X find_iter lv st shared_rules g =
     (case (if shared_rules then shared_managed_rules X lv g else fresh_managed_rules X lv g) of
        (rs, g') \<Rightarrow>
          (\<lparr>base_signatures = for_profile find_iter lv st, base_managed_rules = rs\<rparr>, g'))"

definition waf_base ::
  "('net, 're) externals \<Rightarrow> automaton \<Rightarrow> WafLevel \<Rightarrow> StackSet \<Rightarrow> ('net, 're) Shared
     \<Rightarrow> ('net, 're) WafBase \<times> ('net, 're) Shared" where
  "waf_base X find_iter lv st g =
     (case map_of (sh_bases g) (lv, st) of
        Some b \<Rightarrow> (b, g)
      | None \<Rightarrow>
          (case base_new X find_iter lv st True g of
             (b, g') \<Rightarrow> (b, g'\<lparr>sh_bases := AList.update (lv, st) b (sh_bases g')\<rparr>)))"

definition clamp_nat :: "nat \<Rightarrow> nat \<Rightarrow> nat \<Rightarrow> nat" where
  "clamp_nat lo hi x = max lo (min hi x)"

definition engine_of ::
  "('net, 're) WafEngineConfig \<Rightarrow> ('net, 're) WafBase \<Rightarrow> ('net, 're) WafEngine" where
  "engine_of config base =
     \<lparr>signatures = base_signatures base,
      rules =
        (if cfg_enable_managed_rules config
         then filter (\<lambda>r. rule_id r \<notin> cfg_disabled_managed_rules config) (base_managed_rules base)
         else [])
        @ cfg_rules config,
      scorer = scorer_new (cfg_threshold config) (cfg_paranoia_level config),
      mode = cfg_mode config,
      level = cfg_level config,
      stacks = cfg_stacks config,
      decode_layers = clamp_nat 1 5 (cfg_max_decode_layers config),
      fast_path_block_on_critical = cfg_fast_path config,
      monitor_categories = cfg_monitor_categories config,
      monitor_stacks = cfg_monitor_stacks config,
      monitor_managed_rules = cfg_monitor_managed_rules config,
      monitor_custom_rules = cfg_monitor_custom_rules config\<rparr>"

definition build ::
  "('net, 're) externals \<Rightarrow> automaton \<Rightarrow> ('net, 're) WafEngineConfig \<Rightarrow> bool \<Rightarrow> ('net, 're) Shared
     \<Rightarrow> ('net, 're) WafEngine \<times> ('net, 're) Shared" where
  "build X find_iter config shared g =
     (case (if shared then waf_base X find_iter (cfg_level config) (cfg_stacks config) g
            else base_new X find_iter (cfg_level config) (cfg_stacks config) False g) of
        (base, g') \<Rightarrow> (engine_of config base, g'))"

definition engine_new ::
  "('net, 're) externals \<Rightarrow> automaton \<Rightarrow> ('net, 're) WafEngineConfig \<Rightarrow> ('net, 're) Shared
     \<Rightarrow> ('net, 're) WafEngine \<times> ('net, 're) Shared" where
  "engine_new X find_iter config g = build X find_iter config True g"

definition new_unshared ::
  "('net, 're) externals \<Rightarrow> automaton \<Rightarrow> ('net, 're) WafEngineConfig \<Rightarrow> ('net, 're) Shared
     \<Rightarrow> ('net, 're) WafEngine \<times> ('net, 're) Shared" where
  "new_unshared X find_iter config g = build X find_iter config False g"

section \<open>Downgrades, paranoia, reconfiguration\<close>

definition hit_monitored :: "('net, 're) WafEngine \<Rightarrow> AttackCategory \<Rightarrow> StackSet \<Rightarrow> bool" where
  "hit_monitored W category stack =
     (if contains_category (monitor_categories W) category then True
      else let scoped = stack_except_generic stack
           in \<not> stack_is_empty scoped \<and> stack_intersects (monitor_stacks W) scoped)"

definition is_managed_id :: "string \<Rightarrow> bool" where
  "is_managed_id i = prefix ''PINGWAF-'' i"

definition rule_monitored :: "('net, 're) WafEngine \<Rightarrow> ('net, 're) CompiledRule \<Rightarrow> bool" where
  "rule_monitored W rule =
     (if \<not> is_managed_id (rule_id rule) then rule_id rule \<in> monitor_custom_rules W
      else if rule_id rule \<in> monitor_managed_rules W then True
      else case managed_rule_category rule of
             Some category \<Rightarrow>
               contains_category (monitor_categories W) category
               \<or> (stack_bits (stack_except_generic (rule_stacks rule)) \<noteq> 0
                  \<and> stack_intersects (monitor_stacks W) (rule_stacks rule))
           | None \<Rightarrow> False)"

definition effective_paranoia :: "('net, 're) WafEngine \<Rightarrow> u8" where
  "effective_paranoia W =
     (if is_strict (level W) then max (paranoia_level (scorer W)) 3 else paranoia_level (scorer W))"

definition update_rules ::
  "('net, 're) CompiledRule list \<Rightarrow> ('net, 're) WafEngine \<Rightarrow> ('net, 're) WafEngine" where
  "update_rules user_rules W =
     W\<lparr>rules := filter (\<lambda>r. is_managed_id (rule_id r)) (rules W) @ user_rules\<rparr>"

definition replace_all_rules ::
  "('net, 're) CompiledRule list \<Rightarrow> ('net, 're) WafEngine \<Rightarrow> ('net, 're) WafEngine" where
  "replace_all_rules rs W = W\<lparr>rules := rs\<rparr>"

definition set_mode :: "WafMode \<Rightarrow> ('net, 're) WafEngine \<Rightarrow> ('net, 're) WafEngine" where
  "set_mode m W = W\<lparr>mode := m\<rparr>"

definition set_threshold :: "u32 \<Rightarrow> ('net, 're) WafEngine \<Rightarrow> ('net, 're) WafEngine" where
  "set_threshold t W = W\<lparr>scorer := (scorer W)\<lparr>threshold := max t 1\<rparr>\<rparr>"

definition set_paranoia_level :: "u8 \<Rightarrow> ('net, 're) WafEngine \<Rightarrow> ('net, 're) WafEngine" where
  "set_paranoia_level p W = W\<lparr>scorer := (scorer W)\<lparr>paranoia_level := clamp_word 1 4 p\<rparr>\<rparr>"

definition rule_count :: "('net, 're) WafEngine \<Rightarrow> nat" where
  "rule_count W = length (rules W)"

section \<open>Formatting of records\<close>

fun matched_rec :: "SignatureEngine \<Rightarrow> HitRec \<Rightarrow> string" where
  "matched_rec e (Sig pat sev src n m) = pattern_id e pat"
| "matched_rec e (Lib k fp src n m) = k"
| "matched_rec e (Expr container src n m) = ''EXPR-INJ''"

definition matched_from :: "('net, 're) WafEngine \<Rightarrow> HitRec list \<Rightarrow> RuleRec list \<Rightarrow> string list" where
  "matched_from W recs rs = map (matched_rec (signatures W)) recs @ map rec_id rs"

definition monitored_suffix :: "bool \<Rightarrow> string" where
  "monitored_suffix m = (if m then '' [monitored]'' else [])"

definition quoted :: "string \<Rightarrow> string" where
  "quoted n = [CHR 0x27] @ detail_text n @ [CHR 0x27]"

fun rec_detail :: "SignatureEngine \<Rightarrow> HitRec \<Rightarrow> string" where
  "rec_detail e (Sig pat sev src n m) =
     pat_id (pattern e pat) @ '' ['' @ category_as_str (pat_category (pattern e pat)) @ '' sev='' @
     show_nat (unat sev) @ ''] in '' @ src @ '' '' @ quoted n @ monitored_suffix m"
| "rec_detail e (Lib k fp src n m) =
     k @ '' ['' @ fp @ ''] in '' @ src @ '' '' @ quoted n @ monitored_suffix m"
| "rec_detail e (Expr container src n m) =
     ''expr-injection ['' @ container @ ''] in '' @ src @ '' '' @ quoted n @ monitored_suffix m"

definition rule_detail :: "RuleRec \<Rightarrow> string" where
  "rule_detail r =
     rec_id r @ '' ['' @ detail_text (rec_name r) @ ''] rule_action='' @ action_as_str (rec_action r) @
     '' sev='' @ show_nat (unat (rec_severity r)) @ monitored_suffix (rec_monitored r)"

definition details_from :: "('net, 're) WafEngine \<Rightarrow> HitRec list \<Rightarrow> RuleRec list \<Rightarrow> string list" where
  "details_from W recs rs = map (rec_detail (signatures W)) recs @ map rule_detail rs"

section \<open>The shared tables are transparent\<close>

instance WafLevel :: finite
proof
  have "(UNIV :: WafLevel set) = {Normal, Strict}" using WafLevel.exhaust by auto
  then show "finite (UNIV :: WafLevel set)" by (metis finite.emptyI finite_insert)
qed

instance StackSet :: finite
proof
  show "finite (UNIV :: StackSet set)"
  proof (rule finite_surj)
    show "finite (UNIV :: u8 set)" by simp
    show "UNIV \<subseteq> range StackSet" by (metis StackSet.exhaust rangeI subsetI)
  qed
qed

definition level_count :: nat where "level_count = card (UNIV :: WafLevel set)"

definition profile_count :: nat where "profile_count = card (UNIV :: (WafLevel \<times> StackSet) set)"

definition keys_held :: "('k \<times> 'v) list \<Rightarrow> nat" where
  "keys_held t = card (fst ` set t)"

lemma table_laws:
  fixes t :: "('k :: finite \<times> 'v) list"
  shows "map_of (AList.update k v t) k = Some v"
    and "k' \<noteq> k \<Longrightarrow> map_of (AList.update k v t) k' = Some w \<Longrightarrow> map_of t k' = Some w"
    and "keys_held (AList.update k v t) \<le> card (UNIV :: 'k set)"
  by (simp_all add: update_conv' keys_held_def card_mono)

lemma table_cache:
  "forgetful_cache (map_of :: ('k :: finite \<times> 'v) list \<Rightarrow> _) AList.update keys_held (card (UNIV :: 'k set))"
  by (unfold_locales; (rule table_laws(1) | erule (1) table_laws(2) | rule table_laws(3)))

interpretation rules_table:
  forgetful_cache "map_of :: (WafLevel \<times> ('net, 're) CompiledRule list) list \<Rightarrow> _" AList.update keys_held
    level_count
  unfolding level_count_def by (rule table_cache)

interpretation base_table:
  forgetful_cache "map_of :: ((WafLevel \<times> StackSet) \<times> ('net, 're) WafBase) list \<Rightarrow> _" AList.update
    keys_held profile_count
  unfolding profile_count_def by (rule table_cache)

text \<open>What the tables stand for.\<close>

definition managed_for ::
  "('net, 're) externals \<Rightarrow> WafLevel \<Rightarrow> unit + ('net, 're) CompiledRule list" where
  "managed_for X lv = Inr (fst (default_managed_rules X [] lv))"

definition base_for ::
  "('net, 're) externals \<Rightarrow> automaton \<Rightarrow> WafLevel \<times> StackSet \<Rightarrow> unit + ('net, 're) WafBase" where
  "base_for X find_iter k =
     Inr \<lparr>base_signatures = for_profile find_iter (fst k) (snd k),
          base_managed_rules = fst (default_managed_rules X [] (fst k))\<rparr>"

definition shared_ok :: "('net, 're) externals \<Rightarrow> automaton \<Rightarrow> ('net, 're) Shared \<Rightarrow> bool" where
  "shared_ok X find_iter g \<longleftrightarrow>
     coherent_cache X (sh_exprs g) \<and> rules_table.coherent (managed_for X) (sh_rules g)
     \<and> base_table.coherent (base_for X find_iter) (sh_bases g)"

lemma default_managed_rules_coherent:
  assumes "coherent_cache X c"
  shows "fst (default_managed_rules X c lv) = fst (default_managed_rules X [] lv)"
    and "coherent_cache X (snd (default_managed_rules X c lv))"
  using managed_loop_rules [OF assms, of "is_strict lv" "managed_specs lv"]
    managed_loop_rules [OF coherent_empty, of X "is_strict lv" "managed_specs lv"]
  by (simp_all add: default_managed_rules_def)

lemma fresh_managed_rules_ok:
  assumes "shared_ok X f g"
  shows "fst (fresh_managed_rules X lv g) = fst (default_managed_rules X [] lv)"
    and "shared_ok X f (snd (fresh_managed_rules X lv g))"
  using assms default_managed_rules_coherent [of X "sh_exprs g" lv]
  by (auto simp: fresh_managed_rules_def shared_ok_def split: prod.splits)

lemma shared_managed_rules_ok:
  assumes "shared_ok X f g"
  shows "fst (shared_managed_rules X lv g) = fst (default_managed_rules X [] lv)"
    and "shared_ok X f (snd (shared_managed_rules X lv g))"
proof -
  obtain rs g' where r: "fresh_managed_rules X lv g = (rs, g')" by force
  from fresh_managed_rules_ok [OF assms, of lv] r
  have rs: "rs = fst (default_managed_rules X [] lv)" and g': "shared_ok X f g'" by simp_all
  have hit: "rs' = fst (default_managed_rules X [] lv)" if "map_of (sh_rules g) lv = Some rs'" for rs'
    using rules_table.coherent_lookup [OF _ that, of "managed_for X"] assms
    by (simp add: shared_ok_def managed_for_def)
  have put: "rules_table.coherent (managed_for X) (AList.update lv rs (sh_rules g'))"
    using g' by (intro rules_table.coherent_put) (simp_all add: shared_ok_def managed_for_def rs)
  show "fst (shared_managed_rules X lv g) = fst (default_managed_rules X [] lv)"
    using hit by (simp add: shared_managed_rules_def r rs split: option.split)
  show "shared_ok X f (snd (shared_managed_rules X lv g))"
    using assms g' put by (simp add: shared_managed_rules_def r shared_ok_def split: option.split)
qed

lemma base_new_ok:
  assumes "shared_ok X f g"
  shows "Inr (fst (base_new X f lv st sh g)) = base_for X f (lv, st)"
    and "shared_ok X f (snd (base_new X f lv st sh g))"
proof -
  let ?r = "if sh then shared_managed_rules X lv g else fresh_managed_rules X lv g"
  have r: "fst ?r = fst (default_managed_rules X [] lv)" "shared_ok X f (snd ?r)"
    using fresh_managed_rules_ok [OF assms, of lv] shared_managed_rules_ok [OF assms, of lv]
    by (simp_all split: if_split)
  have "base_new X f lv st sh g
      = (\<lparr>base_signatures = for_profile f lv st, base_managed_rules = fst ?r\<rparr>, snd ?r)"
    unfolding base_new_def by (rule case_prod_beta)
  with r show "Inr (fst (base_new X f lv st sh g)) = base_for X f (lv, st)"
    "shared_ok X f (snd (base_new X f lv st sh g))"
    by (simp_all only: base_for_def fst_conv snd_conv)
qed

lemma waf_base_ok:
  assumes "shared_ok X f g"
  shows "Inr (fst (waf_base X f lv st g)) = base_for X f (lv, st)"
    and "shared_ok X f (snd (waf_base X f lv st g))"
proof -
  obtain b g' where r: "base_new X f lv st True g = (b, g')" by force
  from base_new_ok [OF assms, of lv st True] r
  have b: "Inr b = base_for X f (lv, st)" and g': "shared_ok X f g'" by simp_all
  have put: "base_table.coherent (base_for X f) (AList.update (lv, st) b (sh_bases g'))"
    using g' by (intro base_table.coherent_put) (simp_all add: shared_ok_def b)
  have hit: "Inr b' = base_for X f (lv, st)" if "map_of (sh_bases g) (lv, st) = Some b'" for b'
    using base_table.coherent_lookup [OF _ that, of "base_for X f"] assms by (simp add: shared_ok_def)
  show "Inr (fst (waf_base X f lv st g)) = base_for X f (lv, st)"
    using hit b by (simp add: waf_base_def r split: option.split)
  show "shared_ok X f (snd (waf_base X f lv st g))"
    using assms g' put by (simp add: waf_base_def r shared_ok_def split: option.split)
qed

lemma build_ok:
  assumes "shared_ok X f g"
  shows "fst (build X f config sh g) = engine_of config (projr (base_for X f (cfg_level config, cfg_stacks config)))"
    and "shared_ok X f (snd (build X f config sh g))"
proof -
  let ?b = "if sh then waf_base X f (cfg_level config) (cfg_stacks config) g
            else base_new X f (cfg_level config) (cfg_stacks config) False g"
  have "Inr (fst ?b) = base_for X f (cfg_level config, cfg_stacks config)" "shared_ok X f (snd ?b)"
    using waf_base_ok [OF assms] base_new_ok [OF assms] by simp_all
  then have b: "fst ?b = projr (base_for X f (cfg_level config, cfg_stacks config))" "shared_ok X f (snd ?b)"
    by (metis sum.sel(2))+
  have "build X f config sh g = (engine_of config (fst ?b), snd ?b)"
    unfolding build_def by (rule case_prod_beta)
  with b show "fst (build X f config sh g) = engine_of config (projr (base_for X f (cfg_level config, cfg_stacks config)))"
    "shared_ok X f (snd (build X f config sh g))" by (simp_all only: fst_conv snd_conv)
qed

definition shared_empty :: "('net, 're) Shared" where
  "shared_empty = \<lparr>sh_exprs = [], sh_rules = [], sh_bases = []\<rparr>"

text \<open>The states engine construction and rule compilation can leave.\<close>

inductive shared_state :: "('net, 're) externals \<Rightarrow> automaton \<Rightarrow> ('net, 're) Shared \<Rightarrow> bool"
  for X f where
  start: "shared_state X f shared_empty"
| built: "shared_state X f g \<Longrightarrow> shared_state X f (snd (build X f config sh g))"
| compiled: "shared_state X f g \<Longrightarrow>
    shared_state X f (g\<lparr>sh_exprs := snd (spec_compile X (sh_exprs g) s)\<rparr>)"

lemma spec_compile_coherent:
  assumes "coherent_cache X c"
  shows "coherent_cache X (snd (spec_compile X c s))"
proof -
  obtain r c' where rc: "rule_compile X c (rs_id s) (rs_name s) (rs_expression s) (rs_action s)
      (rs_severity s) (rs_tags s) = (r, c')" by (meson surj_pair)
  from rule_compile_spec(2) [OF assms, of "rs_id s" "rs_name s" "rs_expression s" "rs_action s"
      "rs_severity s" "rs_tags s"]
  have "coherent_cache X c'" by (simp only: rc snd_conv)
  then show ?thesis by (cases r) (simp_all add: spec_compile_def rc)
qed

lemma shared_state_ok: "shared_state X f g \<Longrightarrow> shared_ok X f g"
proof (induction rule: shared_state.induct)
  case start
  show ?case
    by (simp add: shared_ok_def shared_empty_def rules_table.coherent_def base_table.coherent_def keys_held_def)
next
  case (built g config sh)
  then show ?case by (intro build_ok(2))
next
  case (compiled g s)
  then show ?case using spec_compile_coherent [of X "sh_exprs g" s] by (simp add: shared_ok_def)
qed

section \<open>Properties\<close>

text \<open>
  C15: Sharing is invisible: whatever engines were built and rules compiled before, an engine from
  the shared tables is the engine built from scratch with empty tables, and the tables hold at
  most one rule set per level and one base per level and stack set.
\<close>

theorem shared_engine_transparent:
  assumes "shared_state X f g"
  shows "fst (engine_new X f config g) = fst (new_unshared X f config shared_empty)
   \<and> keys_held (sh_rules (snd (engine_new X f config g))) \<le> level_count
   \<and> keys_held (sh_bases (snd (engine_new X f config g))) \<le> profile_count"
proof (intro conjI)
  note ok = shared_state_ok [OF assms]
  show "fst (engine_new X f config g) = fst (new_unshared X f config shared_empty)"
    unfolding engine_new_def new_unshared_def
    by (simp only: build_ok(1) [OF ok] build_ok(1) [OF shared_state_ok [OF shared_state.start]])
  have "shared_ok X f (snd (engine_new X f config g))"
    unfolding engine_new_def by (rule build_ok(2) [OF ok])
  then show "keys_held (sh_rules (snd (engine_new X f config g))) \<le> level_count"
    "keys_held (sh_bases (snd (engine_new X f config g))) \<le> profile_count"
    unfolding shared_ok_def rules_table.coherent_def base_table.coherent_def by blast+
qed

theorem shared_engine_transparent_witness:
  "fst (engine_new sample_rule_externals reference_find config_default
      (snd (build sample_rule_externals reference_find config_default True shared_empty)))
   = fst (new_unshared sample_rule_externals reference_find config_default shared_empty)"
  by (rule shared_engine_transparent [OF shared_state.built [OF shared_state.start], THEN conjunct1])

end
