(* ===== verification/Engine_Stage1.thy ===== *)
theory Engine_Stage1
  imports Engine_Base
begin

text \<open>
  \<^verbatim>\<open>src/pingwaf-waf/src/engine/mod.rs\<close>, the first stage of \<^verbatim>\<open>inspect_reserved\<close>: signatures and
  shape detectors over every decoded value and over the normalized path.  The mutable locals
  of the loop are the record \<open>Stage1\<close>; one definition per block of the loop body.  The lemmas
  show that every block is a sequence of recorded hits: one scorer call, one record and one
  surface each, and the critical flag is only raised by a hit that is not downgraded.
\<close>

section \<open>State and blocks\<close>

record Stage1 =
  st_breakdown :: ScoreBreakdown
  st_recs :: "HitRec list"
  st_surfaces :: "Surface list"
  st_critical :: bool

definition stage1_init :: Stage1 where
  "stage1_init = \<lparr>st_breakdown = score_clean, st_recs = [], st_surfaces = [], st_critical = False\<rparr>"

text \<open>What every block does with a hit: raise the critical flag, score, record.\<close>

definition take_hit ::
  "('net, 're) WafEngine \<Rightarrow> ScoreOp \<Rightarrow> bool \<Rightarrow> HitRec \<Rightarrow> Surface \<Rightarrow> Stage1 \<Rightarrow> Stage1" where
  "take_hit W op critical r sf s =
     s\<lparr>st_breakdown := apply_op (scorer W) op (st_breakdown s),
       st_recs := st_recs s @ [r],
       st_surfaces := st_surfaces s @ [sf],
       st_critical := (st_critical s \<or> critical)\<rparr>"

text \<open>A detector hit of a category, on the generic stack.\<close>

definition lib_hit ::
  "('net, 're) WafEngine \<Rightarrow> DecodedValue \<Rightarrow> AttackCategory \<Rightarrow> u8 \<Rightarrow> bool \<Rightarrow> string \<Rightarrow> string
     \<Rightarrow> Stage1 \<Rightarrow> Stage1" where
  "lib_hit W v category severity critical k fp s =
     (let monitored = hit_monitored W category stack_generic
      in take_hit W (CategoryHit category severity monitored) (critical \<and> \<not> monitored)
           (Lib k fp (source_as_str (source v)) (name v) monitored) (surface_of (source v)) s)"

definition is_meta_header :: "matchers \<Rightarrow> DecodedValue \<Rightarrow> bool" where
  "is_meta_header M v \<longleftrightarrow>
     source v = Header
     \<and> (eq_ignore_ascii_case (name v) ''referer'' \<or> eq_ignore_ascii_case (name v) ''user-agent'')
     \<and> \<not> xss_markup_shaped M (decoded v)"

definition injection_company :: "('net, 're) WafEngine \<Rightarrow> SignatureHit list \<Rightarrow> bool" where
  "injection_company W hits \<longleftrightarrow>
     is_strict (level W)
     \<and> list_ex (\<lambda>h. hit_category h \<in> {CommandInjection, PathTraversal, Deserialization, Ssrf}) hits"

definition reflected_family :: "AttackCategory \<Rightarrow> bool" where
  "reflected_family c \<longleftrightarrow> c = SqlInjection \<or> c = Xss \<or> c = CommandInjection"

text \<open>A body blob, or a field too long to be a typed value below Strict.\<close>

definition bulk_body :: "('net, 're) WafEngine \<Rightarrow> DecodedValue \<Rightarrow> bool" where
  "bulk_body W v \<longleftrightarrow>
     source v = Body
     \<and> (\<not> is_field v \<or> (FIELD_STRONG_MAX_LEN < length (decoded v) \<and> \<not> is_strict (level W)))"

definition sig_search_phrase :: "matchers \<Rightarrow> DecodedValue \<Rightarrow> string \<Rightarrow> bool" where
  "sig_search_phrase M v pid =
     (let needle = decoded v;
          collected_js_uri =
            (pid = ''XSS-007'' \<and> source v = Body \<and> \<not> xss_script_uri_html_shaped M needle)
            \<or> (pid = ''XSS-001'' \<and> \<not> xss_script_tag_shaped M needle (source v \<noteq> Body))
      in (pid \<in> {''SQL-001'', ''SQL-002''} \<and> \<not> sqli_union_statement_shaped M needle)
         \<or> (pid \<in> {''SQL-008'', ''SQL-009''} \<and> \<not> sqli_into_file_statement_shaped M needle)
         \<or> collected_js_uri)"

definition sig_weak :: "('net, 're) WafEngine \<Rightarrow> matchers \<Rightarrow> DecodedValue \<Rightarrow> AttackCategory \<Rightarrow> bool" where
  "sig_weak W M v c \<longleftrightarrow>
     (is_meta_header M v \<and> reflected_family c) \<or> (bulk_body W v \<and> reflected_family c)"

definition sig_critical ::
  "('net, 're) WafEngine \<Rightarrow> matchers \<Rightarrow> DecodedValue \<Rightarrow> bool \<Rightarrow> SignatureHit \<Rightarrow> bool" where
  "sig_critical W M v company h =
     (if sig_weak W M v (hit_category h) then False
      else if hit_category h = CrlfInjection
          \<and> ((source v \<noteq> Body \<and> crlf_header_injection_shaped M (decoded v)) \<or> company) then True
      else if is_strict (level W) \<and> source v \<noteq> Path
          \<and> hit_category h \<in> {CommandInjection, Deserialization} then True
      else 5 \<le> hit_severity h)"

definition sig_hit ::
  "('net, 're) WafEngine \<Rightarrow> matchers \<Rightarrow> DecodedValue \<Rightarrow> bool \<Rightarrow> SignatureHit \<Rightarrow> Stage1 \<Rightarrow> Stage1" where
  "sig_hit W M v company h s =
     (let monitored = hit_monitored W (hit_category h) (pat_stack (pattern (signatures W) (hit_pattern h)));
          severity = (if sig_weak W M v (hit_category h) then min (hit_severity h) 2 else hit_severity h);
          critical = sig_critical W M v company h;
          op = (if source v = Path \<and> hit_category h \<in> {CommandInjection, Deserialization}
                then SeverityHit severity monitored
                else CategoryHit (hit_category h) severity monitored)
      in if sig_search_phrase M v (pattern_id (signatures W) (hit_pattern h)) then s
         else take_hit W op (critical \<and> \<not> monitored)
                (Sig (hit_pattern h) severity (source_as_str (source v)) (name v) monitored)
                (surface_of (source v)) s)"

definition path_tautology_hit ::
  "('net, 're) WafEngine \<Rightarrow> matchers \<Rightarrow> DecodedValue \<Rightarrow> Stage1 \<Rightarrow> Stage1" where
  "path_tautology_hit W M v s =
     (if source v = Path \<and> path_tautology_segment M (decoded v)
      then lib_hit W v SqlInjection 5 True ''libinjection-sqli'' ''path-segment-tautology'' s else s)"

definition path_backtick_hit ::
  "('net, 're) WafEngine \<Rightarrow> DecodedValue \<Rightarrow> Stage1 \<Rightarrow> Stage1" where
  "path_backtick_hit W v s =
     (if source v = Path \<and> 2 \<le> length (filter (\<lambda>c. c = CHR 0x60) (decoded v))
      then lib_hit W v CommandInjection 5 True ''ci-shape'' ''path-backticks'' s else s)"

definition path_extension_hit ::
  "('net, 're) WafEngine \<Rightarrow> matchers \<Rightarrow> DecodedValue \<Rightarrow> Stage1 \<Rightarrow> Stage1" where
  "path_extension_hit W M v s =
     (if source v = Path \<and> pt_double_exec_extension M (decoded v)
      then lib_hit W v PathTraversal 5 True ''pt-shape'' ''double-exec-extension'' s else s)"

definition sqli_search_phrase :: "matchers \<Rightarrow> string \<Rightarrow> string \<Rightarrow> bool" where
  "sqli_search_phrase M needle fp \<longleftrightarrow>
     (contains_str fp ''union-select'' \<and> \<not> sqli_union_statement_shaped M needle)
     \<or> (contains_str fp ''into-file'' \<and> \<not> sqli_into_file_statement_shaped M needle)
     \<or> (contains_str fp ''tautology'' \<and> 32 < length needle
        \<and> \<not> contains_str fp ''comment-terminator'' \<and> \<not> sqli_tautology_statement_shaped M needle
        \<and> tautology_sits_in_prose needle)
     \<or> (contains_str fp ''quote-keyword'' \<and> 256 < length needle)"

definition sqli_hit ::
  "('net, 're) WafEngine \<Rightarrow> matchers \<Rightarrow> DecodedValue \<Rightarrow> Stage1 \<Rightarrow> Stage1" where
  "sqli_hit W M v s =
     (case detect_sqli M (decoded v) of (is_sqli, fp) \<Rightarrow>
        if \<not> is_sqli then s
        else let weak = is_meta_header M v \<or> bulk_body W v
             in if sqli_search_phrase M (decoded v) fp then s
                else if weak then lib_hit W v SqlInjection 2 False ''libinjection-sqli'' fp s
                else lib_hit W v SqlInjection 5 True ''libinjection-sqli'' fp s)"

definition xss_collected :: "matchers \<Rightarrow> DecodedValue \<Rightarrow> string \<Rightarrow> bool" where
  "xss_collected M v fp \<longleftrightarrow>
     (contains_str fp ''js-uri'' \<and> source v = Body \<and> \<not> xss_script_uri_html_shaped M (decoded v))
     \<or> (contains_str fp ''script-tag''
        \<and> \<not> xss_script_tag_shaped M (decoded v) (source v \<noteq> Body))"

definition xss_hit ::
  "('net, 're) WafEngine \<Rightarrow> matchers \<Rightarrow> DecodedValue \<Rightarrow> Stage1 \<Rightarrow> Stage1" where
  "xss_hit W M v s =
     (case detect_xss M (decoded v) of (is_xss, fp) \<Rightarrow>
        if \<not> is_xss then s
        else let weak = is_meta_header M v \<or> bulk_body W v
             in if xss_collected M v fp then s
                else if weak then lib_hit W v Xss 2 False ''libinjection-xss'' fp s
                else lib_hit W v Xss 5 True ''libinjection-xss'' fp s)"

definition deser_hit ::
  "('net, 're) WafEngine \<Rightarrow> matchers \<Rightarrow> DecodedValue \<Rightarrow> Stage1 \<Rightarrow> Stage1" where
  "deser_hit W M v s =
     (case detect_deser_shape M (decoded v) of
        None \<Rightarrow> s
      | Some shape \<Rightarrow>
          let weak = is_meta_header M v
                \<or> (source v = Body \<and> (\<not> is_field v \<or> FIELD_STRONG_MAX_LEN < length (decoded v))
                   \<and> \<not> is_strict (level W));
              (severity, critical) =
                (if weak then (2, False) else if is_strict (level W) then (5, True) else (4, False))
          in lib_hit W v Deserialization severity critical ''deser-shape'' shape s)"

definition backtick_hit ::
  "('net, 're) WafEngine \<Rightarrow> matchers \<Rightarrow> DecodedValue \<Rightarrow> Stage1 \<Rightarrow> Stage1" where
  "backtick_hit W M v s =
     (if ci_backtick_interleaved M (decoded v)
      then lib_hit W v CommandInjection 5 True ''ci-shape'' ''backtick-interleaved'' s else s)"

definition chr_chain_hit ::
  "('net, 're) WafEngine \<Rightarrow> matchers \<Rightarrow> DecodedValue \<Rightarrow> Stage1 \<Rightarrow> Stage1" where
  "chr_chain_hit W M v s =
     (if ci_chr_chain M (decoded v)
      then lib_hit W v CommandInjection 5 True ''ci-shape'' ''chr-codepoint-chain'' s else s)"

definition smuggling_hit ::
  "('net, 're) WafEngine \<Rightarrow> DecodedValue \<Rightarrow> Stage1 \<Rightarrow> Stage1" where
  "smuggling_hit W v s =
     (if ssrf_protocol_smuggling (decoded v)
      then lib_hit W v Ssrf 5 True ''ssrf-shape'' ''protocol-smuggling'' s else s)"

definition include_hit ::
  "('net, 're) WafEngine \<Rightarrow> matchers \<Rightarrow> DecodedValue \<Rightarrow> Stage1 \<Rightarrow> Stage1" where
  "include_hit W M v s =
     (if pt_remote_backslash_include M (decoded v)
      then lib_hit W v PathTraversal 5 True ''pt-shape'' ''remote-backslash-include'' s else s)"

definition expr_hit ::
  "('net, 're) WafEngine \<Rightarrow> DecodedValue \<Rightarrow> string \<Rightarrow> Stage1 \<Rightarrow> Stage1" where
  "expr_hit W v container s =
     (let monitored = hit_monitored W TemplateInjection stack_generic
      in take_hit W (ExprHit monitored) (\<not> monitored)
           (Expr container (source_as_str (source v)) (name v) monitored) (surface_of (source v)) s)"

definition strict_expr_hit ::
  "('net, 're) WafEngine \<Rightarrow> matchers \<Rightarrow> DecodedValue \<Rightarrow> Stage1 \<Rightarrow> Stage1" where
  "strict_expr_hit W M v s =
     (if \<not> is_strict (level W) then s
      else case detect_expr_injection (decoded v) of
             Some container \<Rightarrow> expr_hit W v container s
           | None \<Rightarrow>
               if detect_js_call M (decoded v) \<and> (is_field v \<or> source v \<noteq> Body)
               then expr_hit W v ''js-call'' s else s)"

section \<open>The loop\<close>

definition detector_hits ::
  "('net, 're) WafEngine \<Rightarrow> matchers \<Rightarrow> DecodedValue \<Rightarrow> Stage1 \<Rightarrow> Stage1" where
  "detector_hits W M v s =
     strict_expr_hit W M v (include_hit W M v (smuggling_hit W v (chr_chain_hit W M v
       (backtick_hit W M v (deser_hit W M v (xss_hit W M v (sqli_hit W M v s)))))))"

definition value_step ::
  "('net, 're) WafEngine \<Rightarrow> matchers \<Rightarrow> DecodedValue \<Rightarrow> Stage1 \<Rightarrow> Stage1" where
  "value_step W M v s =
     (if decoded v = [] then s
      else
        let hits = scan_into (signatures W) (decoded v);
            s1 = fold (sig_hit W M v (injection_company W hits)) hits s;
            s2 = path_extension_hit W M v (path_backtick_hit W v (path_tautology_hit W M v s1))
        in if source v \<notin> {QueryParam, Cookie, Body, Header} then s2 else detector_hits W M v s2)"

definition path_hit ::
  "('net, 're) WafEngine \<Rightarrow> matchers \<Rightarrow> string \<Rightarrow> SignatureHit \<Rightarrow> Stage1 \<Rightarrow> Stage1" where
  "path_hit W M p h s =
     (if pattern_id (signatures W) (hit_pattern h) = ''XSS-001'' \<and> \<not> xss_script_tag_shaped M p True then s
      else
        let critical = 5 \<le> hit_severity h \<or> (is_strict (level W) \<and> hit_category h = CrlfInjection);
            monitored = hit_monitored W (hit_category h) (pat_stack (pattern (signatures W) (hit_pattern h)));
            op = (if hit_category h \<in> {CommandInjection, Deserialization}
                  then SeverityHit (hit_severity h) monitored
                  else CategoryHit (hit_category h) (hit_severity h) monitored)
        in take_hit W op (critical \<and> \<not> monitored)
             (Sig (hit_pattern h) (hit_severity h) ''path'' [] monitored) SPath s)"

definition stage1 ::
  "('net, 're) WafEngine \<Rightarrow> matchers \<Rightarrow> NormalizedRequest \<Rightarrow> Stage1" where
  "stage1 W M n =
     fold (path_hit W M (nr_path n)) (scan_into (signatures W) (nr_path n))
       (fold (value_step W M) (nr_decoded_values n) stage1_init)"

section \<open>Every block is a sequence of recorded hits\<close>

fun rec_is_monitored :: "HitRec \<Rightarrow> bool" where
  "rec_is_monitored (Sig pat sev src n m) = m"
| "rec_is_monitored (Lib k fp src n m) = m"
| "rec_is_monitored (Expr c src n m) = m"

text \<open>One recorded hit, abstractly: a scorer call and a record with the same downgrade, which is
  the site's for some category and stack, and a critical flag that a downgraded hit does not
  raise.\<close>

inductive hit_step :: "('net, 're) WafEngine \<Rightarrow> Stage1 \<Rightarrow> Stage1 \<Rightarrow> bool" for W where
  hit: "op_monitored op = rec_is_monitored r \<Longrightarrow> (critical \<Longrightarrow> \<not> rec_is_monitored r) \<Longrightarrow>
    rec_is_monitored r = hit_monitored W category stack \<Longrightarrow>
    hit_step W s (take_hit W op critical r sf s)"

abbreviation hit_steps :: "('net, 're) WafEngine \<Rightarrow> Stage1 \<Rightarrow> Stage1 \<Rightarrow> bool" where
  "hit_steps W \<equiv> (hit_step W)\<^sup>*\<^sup>*"

named_theorems hit_blocks "blocks of the loop as sequences of recorded hits"

lemma lib_hit_steps [hit_blocks]: "hit_steps W s (lib_hit W v c sev crit k fp s)"
  unfolding lib_hit_def Let_def by (intro r_into_rtranclp hit_step.hit) (simp_all only: op_monitored.simps rec_is_monitored.simps simp_thms)

lemma expr_hit_steps [hit_blocks]: "hit_steps W s (expr_hit W v c s)"
  unfolding expr_hit_def Let_def by (intro r_into_rtranclp hit_step.hit) simp_all

lemma sig_hit_steps [hit_blocks]: "hit_steps W s (sig_hit W M v company h s)"
  unfolding sig_hit_def Let_def
  by (auto intro!: r_into_rtranclp hit_step.hit)

lemma path_hit_steps [hit_blocks]: "hit_steps W s (path_hit W M p h s)"
  unfolding path_hit_def Let_def
  by (auto intro!: r_into_rtranclp hit_step.hit)

lemma simple_blocks [hit_blocks]:
  "hit_steps W s (path_tautology_hit W M v s)"
  "hit_steps W s (path_backtick_hit W v s)"
  "hit_steps W s (path_extension_hit W M v s)"
  "hit_steps W s (sqli_hit W M v s)"
  "hit_steps W s (xss_hit W M v s)"
  "hit_steps W s (deser_hit W M v s)"
  "hit_steps W s (backtick_hit W M v s)"
  "hit_steps W s (chr_chain_hit W M v s)"
  "hit_steps W s (smuggling_hit W v s)"
  "hit_steps W s (include_hit W M v s)"
  "hit_steps W s (strict_expr_hit W M v s)"
  by (simp_all add: path_tautology_hit_def path_backtick_hit_def path_extension_hit_def sqli_hit_def
      xss_hit_def deser_hit_def backtick_hit_def chr_chain_hit_def smuggling_hit_def include_hit_def
      strict_expr_hit_def hit_blocks Let_def split: option.split prod.split)

lemmas block_after = hit_blocks [THEN [2] rtranclp_trans]

lemma fold_steps:
  "(\<And>x t. hit_steps W t (f x t)) \<Longrightarrow> hit_steps W s (fold f xs s)"
  by (induction xs arbitrary: s) (auto intro: rtranclp_trans)

lemma detector_hits_steps [hit_blocks]: "hit_steps W s (detector_hits W M v s)"
  unfolding detector_hits_def by (rule block_after rtranclp.rtrancl_refl)+

lemma value_step_steps [hit_blocks]: "hit_steps W s (value_step W M v s)"
proof -
  have fold: "hit_steps W s (fold (sig_hit W M v c) hits s)" for c hits
    by (rule fold_steps) (rule sig_hit_steps)
  have *: "hit_steps W s (path_extension_hit W M v (path_backtick_hit W v (path_tautology_hit W M v
      (fold (sig_hit W M v c) hits s))))" for c hits
    by (rule block_after fold)+
  have "hit_steps W s (detector_hits W M v (path_extension_hit W M v (path_backtick_hit W v
      (path_tautology_hit W M v (fold (sig_hit W M v c) hits s)))))" for c hits
    by (rule rtranclp_trans [OF * detector_hits_steps])
  with * show ?thesis by (simp add: value_step_def Let_def)
qed

lemma stage1_steps: "hit_steps W stage1_init (stage1 W M n)"
  unfolding stage1_def
  by (rule rtranclp_trans [OF fold_steps fold_steps]) (rule value_step_steps, rule path_hit_steps)

section \<open>Invariants of the stage\<close>

definition stage1_inv :: "('net, 're) WafEngine \<Rightarrow> Stage1 \<Rightarrow> bool" where
  "stage1_inv W s \<longleftrightarrow>
     (\<exists>ops. st_breakdown s = run_hits (scorer W) ops score_clean
        \<and> map op_monitored ops = map rec_is_monitored (st_recs s))
     \<and> length (st_surfaces s) = length (st_recs s)
     \<and> (st_critical s \<longrightarrow> (\<exists>r\<in>set (st_recs s). \<not> rec_is_monitored r))"

lemma stage1_inv_init: "stage1_inv W stage1_init"
  by (auto simp: stage1_inv_def stage1_init_def run_hits_def intro!: exI [of _ "[]"])

lemma hit_step_inv: "hit_step W s t \<Longrightarrow> stage1_inv W s \<Longrightarrow> stage1_inv W t"
proof (induction rule: hit_step.induct)
  case (hit op r critical category stack s sf)
  from hit.prems obtain ops where ops: "st_breakdown s = run_hits (scorer W) ops score_clean"
    "map op_monitored ops = map rec_is_monitored (st_recs s)"
    by (auto simp: stage1_inv_def)
  with hit.hyps have "\<exists>ops. apply_op (scorer W) op (st_breakdown s) = run_hits (scorer W) ops score_clean
      \<and> map op_monitored ops = map rec_is_monitored (st_recs s @ [r])"
    by (intro exI [of _ "ops @ [op]"]) (simp add: run_hits_def)
  with hit.prems hit.hyps show ?case by (auto simp: stage1_inv_def take_hit_def)
qed

lemma hit_steps_inv: "hit_steps W s t \<Longrightarrow> stage1_inv W s \<Longrightarrow> stage1_inv W t"
  by (induction rule: rtranclp_induct) (auto intro: hit_step_inv)

lemma stage1_ok: "stage1_inv W (stage1 W M n)"
  by (rule hit_steps_inv [OF stage1_steps stage1_inv_init])

lemma stage1_score:
  "st_recs (stage1 W M n) \<noteq> [] \<Longrightarrow> total (st_breakdown (stage1 W M n)) \<noteq> 0"
  "\<forall>r\<in>set (st_recs (stage1 W M n)). rec_is_monitored r \<Longrightarrow> block_total (st_breakdown (stage1 W M n)) = 0"
  "st_recs (stage1 W M n) = [] \<Longrightarrow> st_breakdown (stage1 W M n) = score_clean"
proof -
  obtain ops where ops: "st_breakdown (stage1 W M n) = run_hits (scorer W) ops score_clean"
    and m: "map op_monitored ops = map rec_is_monitored (st_recs (stage1 W M n))"
    using stage1_ok [of W M n] by (auto simp: stage1_inv_def)
  show "total (st_breakdown (stage1 W M n)) \<noteq> 0" if "st_recs (stage1 W M n) \<noteq> []"
  proof -
    from that m obtain h hs where h: "ops = h # hs" by (cases ops) auto
    then have "0 < (\<Sum>h\<leftarrow>ops. unat (op_points h))" using op_points_bounds [of h] by simp
    then have "unat (total (run_hits (scorer W) ops score_clean)) \<noteq> 0"
      using run_hits_total [of "scorer W" ops] by (simp add: min_def)
    then show ?thesis unfolding ops by (metis unat_0)
  qed
  show "block_total (st_breakdown (stage1 W M n)) = 0"
    if "\<forall>r\<in>set (st_recs (stage1 W M n)). rec_is_monitored r"
  proof -
    have "\<forall>b\<in>set (map op_monitored ops). b" unfolding m using that by simp
    then have "filter (\<lambda>h. \<not> op_monitored h) ops = []" by (simp add: filter_empty_conv)
    then show ?thesis unfolding ops using run_hits_block_total [of "scorer W" ops] by (simp add: unat_eq_zero)
  qed
  show "st_breakdown (stage1 W M n) = score_clean" if "st_recs (stage1 W M n) = []"
    using that m by (simp add: ops run_hits_def)
qed

text \<open>Where the site downgrades every category, every record is a downgraded one.\<close>

lemma all_monitored_steps:
  assumes "hit_steps W s t" and "\<And>c. contains_category (monitor_categories W) c"
    and "\<forall>r\<in>set (st_recs s). rec_is_monitored r"
  shows "\<forall>r\<in>set (st_recs t). rec_is_monitored r"
  using assms(1,3)
proof (induction rule: rtranclp_induct)
  case (step t u)
  from step.hyps(2) show ?case
    by cases (use step.IH step.prems assms(2) in \<open>auto simp: take_hit_def hit_monitored_def\<close>)
qed

lemma all_monitored_stage1:
  "(\<And>c. contains_category (monitor_categories W) c) \<Longrightarrow>
   \<forall>r\<in>set (st_recs (stage1 W M n)). rec_is_monitored r"
  by (rule all_monitored_steps [OF stage1_steps]) (simp_all add: stage1_init_def)

section \<open>Critical signatures raise the flag\<close>

lemma hit_steps_critical: "hit_steps W s t \<Longrightarrow> st_critical s \<Longrightarrow> st_critical t"
proof (induction rule: rtranclp_induct)
  case (step t u)
  from step.hyps(2) step.IH step.prems show ?case by cases (simp add: take_hit_def)
qed

lemma fold_critical:
  assumes "x \<in> set xs" and "\<And>t. st_critical (f x t)" and "\<And>y t. hit_steps W t (f y t)"
  shows "st_critical (fold f xs s)"
proof -
  obtain ys zs where "xs = ys @ x # zs" using assms(1) by (auto simp: in_set_conv_decomp)
  then have "fold f xs s = fold f zs (f x (fold f ys s))" by simp
  moreover have "hit_steps W (f x (fold f ys s)) (fold f zs (f x (fold f ys s)))"
    by (rule fold_steps) (rule assms(3))
  ultimately show ?thesis using hit_steps_critical assms(2) by metis
qed

lemma sig_hit_critical:
  assumes "sig_critical W M v company h"
    and "\<not> sig_search_phrase M v (pattern_id (signatures W) (hit_pattern h))"
    and "\<not> hit_monitored W (hit_category h) (pat_stack (pattern (signatures W) (hit_pattern h)))"
  shows "st_critical (sig_hit W M v company h s)"
  using assms by (simp add: sig_hit_def take_hit_def Let_def)

lemma value_step_critical:
  assumes "h \<in> set (scan_into (signatures W) (decoded v))"
    and "sig_critical W M v (injection_company W (scan_into (signatures W) (decoded v))) h"
    and "\<not> sig_search_phrase M v (pattern_id (signatures W) (hit_pattern h))"
    and "\<not> hit_monitored W (hit_category h) (pat_stack (pattern (signatures W) (hit_pattern h)))"
  shows "st_critical (value_step W M v s)"
proof -
  let ?hits = "scan_into (signatures W) (decoded v)"
  let ?s1 = "fold (sig_hit W M v (injection_company W ?hits)) ?hits s"
  let ?s2 = "path_extension_hit W M v (path_backtick_hit W v (path_tautology_hit W M v ?s1))"
  have ne: "decoded v \<noteq> []" using assms(1) by (auto simp: scan_into_def)
  have "st_critical ?s1"
    by (rule fold_critical [where W = W]) (rule assms(1), rule sig_hit_critical [OF assms(2-4)], rule sig_hit_steps)
  moreover have "hit_steps W ?s1 ?s2" by (rule block_after rtranclp.rtrancl_refl)+
  ultimately have s2: "st_critical ?s2" by (rule hit_steps_critical [rotated])
  then have "st_critical (detector_hits W M v ?s2)"
    by (rule hit_steps_critical [OF detector_hits_steps])
  with s2 ne show ?thesis by (simp add: value_step_def Let_def)
qed

lemma stage1_critical:
  assumes "v \<in> set (nr_decoded_values n)"
    and "h \<in> set (scan_into (signatures W) (decoded v))"
    and "sig_critical W M v (injection_company W (scan_into (signatures W) (decoded v))) h"
    and "\<not> sig_search_phrase M v (pattern_id (signatures W) (hit_pattern h))"
    and "\<not> hit_monitored W (hit_category h) (pat_stack (pattern (signatures W) (hit_pattern h)))"
  shows "st_critical (stage1 W M n)"
  unfolding stage1_def
  by (rule hit_steps_critical [OF fold_steps [OF path_hit_steps]])
    (rule fold_critical [where W = W], rule assms(1), rule value_step_critical [OF assms(2-5)], rule value_step_steps)

end
