(* ===== verification/Scan_Budget.thy ===== *)
theory Scan_Budget
  imports Engine_Base
begin

text \<open>
  \<^verbatim>\<open>src/pingwaf-waf/src/engine/mod.rs\<close>: the process-wide budget for concurrent inspections, a
  counter that \<^verbatim>\<open>ScanBudgetGuard::try_acquire\<close> raises in a compare-and-swap loop and the guard's
  \<^verbatim>\<open>drop\<close> lowers.  One round of the loop is a function; the interleavings of any number of
  threads are a step relation.  \<^verbatim>\<open>usize\<close> values are naturals with the bound of 64 bits written
  out.  The lemmas show that the counter is always the sum of the reservations held.
\<close>

section \<open>The limit and the estimate\<close>

definition usize_add :: "nat \<Rightarrow> nat \<Rightarrow> nat" where "usize_add a b = min (a + b) USIZE_MAX"

definition usize_mul :: "nat \<Rightarrow> nat \<Rightarrow> nat" where "usize_mul a b = min (a * b) USIZE_MAX"

definition DEFAULT_MAX_TOTAL_SCAN_BYTES :: nat where
  "DEFAULT_MAX_TOTAL_SCAN_BYTES = 128 * 1024 * 1024"

definition MIN_TOTAL_SCAN_BYTES :: nat where "MIN_TOTAL_SCAN_BYTES = 8 * 1024 * 1024"

definition MAX_TOTAL_SCAN_BYTES :: nat where "MAX_TOTAL_SCAN_BYTES = 1024 * 1024 * 1024"

text \<open>\<open>var\<close> is the value of the environment variable, if it is set.\<close>

definition max_total_scan_bytes :: "string option \<Rightarrow> nat" where
  "max_total_scan_bytes var =
     clamp_nat MIN_TOTAL_SCAN_BYTES MAX_TOTAL_SCAN_BYTES
       (case var of
          None \<Rightarrow> DEFAULT_MAX_TOTAL_SCAN_BYTES
        | Some s \<Rightarrow> (case usize_from_str s of
                      None \<Rightarrow> DEFAULT_MAX_TOTAL_SCAN_BYTES | Some n \<Rightarrow> n))"

definition estimated_scan_bytes :: "RequestData \<Rightarrow> nat" where
  "estimated_scan_bytes request =
     (let header_bytes = (\<Sum>(n, v)\<leftarrow>req_headers request. length n + length v);
          body_bytes =
            (case req_body request of
               None \<Rightarrow> 0
             | Some body \<Rightarrow>
                 if body = [] then 0
                 else clamp_nat (4 * 1024) (4 * 1024 * 1024) (usize_mul (length body) 8))
      in usize_add (usize_add (usize_add (length (req_path request)) (length (req_query request)))
           header_bytes) body_bytes)"

section \<open>Reservations\<close>

datatype Reservation = Idle | Attempt nat nat | Granted nat | Refused

text \<open>One round of the loop: \<open>seen\<close> is the value the thread compares with, \<open>current\<close> the counter
  and \<open>spurious\<close> a failure that \<^verbatim>\<open>compare_exchange_weak\<close> may report without a reason.\<close>

definition acquire_round :: "nat \<Rightarrow> nat \<Rightarrow> nat \<Rightarrow> nat \<Rightarrow> bool \<Rightarrow> Reservation" where
  "acquire_round limit bytes seen current spurious =
     (if limit < usize_add seen bytes then Refused
      else if current = seen \<and> \<not> spurious then Granted bytes
      else Attempt bytes current)"

text \<open>A call that no other thread disturbs, at the counter value \<open>current\<close>.\<close>

definition try_acquire :: "nat \<Rightarrow> nat \<Rightarrow> nat \<Rightarrow> Reservation" where
  "try_acquire limit bytes current = acquire_round limit (min bytes limit) current current False"

record Budget =
  bg_used :: nat
  bg_threads :: "Reservation list"

fun held :: "Reservation \<Rightarrow> nat" where
  "held (Granted b) = b"
| "held _ = 0"

definition load_step :: "nat \<Rightarrow> nat \<Rightarrow> nat \<Rightarrow> Budget \<Rightarrow> Budget" where
  "load_step limit i bytes s =
     s\<lparr>bg_threads := (bg_threads s)[i := Attempt (min bytes limit) (bg_used s)]\<rparr>"

definition round_step :: "nat \<Rightarrow> nat \<Rightarrow> nat \<Rightarrow> nat \<Rightarrow> bool \<Rightarrow> Budget \<Rightarrow> Budget" where
  "round_step limit i bytes seen spurious s =
     (let r = acquire_round limit bytes seen (bg_used s) spurious
      in s\<lparr>bg_used := (case r of Granted b \<Rightarrow> seen + b | _ \<Rightarrow> bg_used s),
           bg_threads := (bg_threads s)[i := r]\<rparr>)"

definition drop_step :: "nat \<Rightarrow> nat \<Rightarrow> Budget \<Rightarrow> Budget" where
  "drop_step i bytes s =
     s\<lparr>bg_used := (bg_used s + 2 ^ 64 - bytes) mod 2 ^ 64,
       bg_threads := (bg_threads s)[i := Idle]\<rparr>"

inductive budget_step :: "nat \<Rightarrow> Budget \<Rightarrow> Budget \<Rightarrow> bool" for limit where
  load: "i < length (bg_threads s) \<Longrightarrow> bg_threads s ! i \<in> {Idle, Refused} \<Longrightarrow>
    budget_step limit s (load_step limit i bytes s)"
| round: "i < length (bg_threads s) \<Longrightarrow> bg_threads s ! i = Attempt bytes seen \<Longrightarrow>
    budget_step limit s (round_step limit i bytes seen spurious s)"
| release: "i < length (bg_threads s) \<Longrightarrow> bg_threads s ! i = Granted bytes \<Longrightarrow>
    budget_step limit s (drop_step i bytes s)"
| spawn: "budget_step limit s (s\<lparr>bg_threads := bg_threads s @ [Idle]\<rparr>)"

definition budget_init :: Budget where "budget_init = \<lparr>bg_used = 0, bg_threads = []\<rparr>"

section \<open>The counter is the sum of the reservations\<close>

definition budget_inv :: "nat \<Rightarrow> Budget \<Rightarrow> bool" where
  "budget_inv limit s \<longleftrightarrow> bg_used s = (\<Sum>t\<leftarrow>bg_threads s. held t) \<and> bg_used s \<le> limit"

lemma held_update:
  "i < length ts \<Longrightarrow> (\<Sum>t\<leftarrow>ts[i := r]. held t) + held (ts ! i) = (\<Sum>t\<leftarrow>ts. held t) + held r"
proof (induction ts arbitrary: i)
  case (Cons t ts)
  then show ?case by (cases i) (simp_all add: ac_simps)
qed simp

lemma budget_step_inv:
  assumes "budget_step limit s t" and "budget_inv limit s" and "limit < USIZE_MAX"
  shows "budget_inv limit t"
  using assms(1)
proof cases
  case (load i bytes)
  then show ?thesis
    using assms(2) held_update [of i "bg_threads s" "Attempt (min bytes limit) (bg_used s)"]
    by (auto simp: budget_inv_def load_step_def)
next
  case (round i bytes seen spurious)
  let ?r = "acquire_round limit bytes seen (bg_used s) spurious"
  have "seen + bytes \<le> limit \<and> seen = bg_used s" if "?r = Granted b" for b
    using that assms(3) by (auto simp: acquire_round_def usize_add_def USIZE_MAX_def split: if_splits)
  moreover have "b = bytes" if "?r = Granted b" for b
    using that by (auto simp: acquire_round_def split: if_splits)
  ultimately show ?thesis
    using round assms(2) held_update [of i "bg_threads s" ?r]
    by (auto simp: budget_inv_def round_step_def Let_def split: Reservation.splits)
next
  case (release i bytes)
  have "held (bg_threads s ! i) \<le> (\<Sum>t\<leftarrow>bg_threads s. held t)"
    using release(2) by (intro member_le_sum_list) auto
  then have "bytes \<le> bg_used s" using release(3) assms(2) by (simp add: budget_inv_def)
  moreover have "bg_used s < 2 ^ 64" using assms(2,3) by (simp add: budget_inv_def USIZE_MAX_def)
  ultimately have "bg_used (drop_step i bytes s) = bg_used s - bytes"
    by (simp add: drop_step_def flip: Nat.add_diff_assoc2)
  then show ?thesis
    using release assms(2) held_update [of i "bg_threads s" Idle] \<open>bytes \<le> bg_used s\<close>
    by (auto simp: budget_inv_def drop_step_def)
next
  case spawn
  then show ?thesis using assms(2) by (simp add: budget_inv_def)
qed

lemma max_total_scan_bytes_bounds:
  "MIN_TOTAL_SCAN_BYTES \<le> max_total_scan_bytes var" "max_total_scan_bytes var \<le> MAX_TOTAL_SCAN_BYTES"
  "max_total_scan_bytes var < USIZE_MAX"
proof -
  show *: "MIN_TOTAL_SCAN_BYTES \<le> max_total_scan_bytes var" "max_total_scan_bytes var \<le> MAX_TOTAL_SCAN_BYTES"
    unfolding max_total_scan_bytes_def clamp_nat_def
    by (simp_all add: MIN_TOTAL_SCAN_BYTES_def MAX_TOTAL_SCAN_BYTES_def)
  have "MAX_TOTAL_SCAN_BYTES < USIZE_MAX" by (simp add: MAX_TOTAL_SCAN_BYTES_def USIZE_MAX_def)
  with * show "max_total_scan_bytes var < USIZE_MAX" by simp
qed

lemma budget_reachable_inv:
  "(budget_step (max_total_scan_bytes var))\<^sup>*\<^sup>* budget_init s \<Longrightarrow> budget_inv (max_total_scan_bytes var) s"
proof (induction rule: rtranclp_induct)
  case base
  show ?case by (simp add: budget_inv_def budget_init_def)
next
  case (step s t)
  then show ?case using budget_step_inv max_total_scan_bytes_bounds(3) by blast
qed

lemma try_acquire_idle: "limit < USIZE_MAX \<Longrightarrow> try_acquire limit bytes 0 = Granted (min bytes limit)"
  by (simp add: try_acquire_def acquire_round_def usize_add_def)

section \<open>Properties\<close>

text \<open>
  C5: The scan budget is safe in every interleaving: whatever the environment sets and however
  threads load, retry, succeed, fail spuriously and release, the counter equals the bytes the
  running inspections hold, never exceeds the limit (at most 1 GiB) and returns to zero when
  none runs; and a request that finds the counter at zero is never refused, however large.
\<close>

theorem scan_budget_safe:
  assumes "(budget_step (max_total_scan_bytes var))\<^sup>*\<^sup>* budget_init s"
  shows "bg_used s = (\<Sum>t\<leftarrow>bg_threads s. held t)
    \<and> bg_used s \<le> max_total_scan_bytes var \<and> max_total_scan_bytes var \<le> MAX_TOTAL_SCAN_BYTES
    \<and> ((\<forall>t\<in>set (bg_threads s). held t = 0) \<longrightarrow> bg_used s = 0)
    \<and> try_acquire (max_total_scan_bytes var) bytes 0 = Granted (min bytes (max_total_scan_bytes var))"
proof -
  have "budget_inv (max_total_scan_bytes var) s" by (rule budget_reachable_inv [OF assms])
  moreover have "(\<Sum>t\<leftarrow>ts. held t) = 0" if "\<forall>t\<in>set ts. held t = 0" for ts
    using that by (induction ts) auto
  ultimately show ?thesis
    using max_total_scan_bytes_bounds [of var]
    by (auto simp: budget_inv_def try_acquire_idle)
qed

definition sample_budget :: Budget where
  "sample_budget = round_step (max_total_scan_bytes None) 0 4096 0 False
     (load_step (max_total_scan_bytes None) 0 4096 (budget_init\<lparr>bg_threads := [Idle]\<rparr>))"

lemma sample_budget_reachable: "(budget_step (max_total_scan_bytes None))\<^sup>*\<^sup>* budget_init sample_budget"
proof -
  let ?L = "max_total_scan_bytes None" and ?s = "budget_init\<lparr>bg_threads := [Idle]\<rparr>"
  have min: "min 4096 ?L = 4096"
    using max_total_scan_bytes_bounds(1) [of None] by (simp add: MIN_TOTAL_SCAN_BYTES_def)
  have "budget_step ?L budget_init ?s"
    using budget_step.spawn [of ?L budget_init] by (simp add: budget_init_def)
  moreover have "budget_step ?L ?s (load_step ?L 0 4096 ?s)" by (rule budget_step.load) simp_all
  moreover have "budget_step ?L (load_step ?L 0 4096 ?s) sample_budget"
    unfolding sample_budget_def
    by (rule budget_step.round) (simp_all add: load_step_def budget_init_def min)
  ultimately show ?thesis by (intro converse_rtranclp_into_rtranclp [OF _ converse_rtranclp_into_rtranclp [OF _ r_into_rtranclp]])
qed

theorem scan_budget_safe_witness: "bg_used sample_budget = (\<Sum>t\<leftarrow>bg_threads sample_budget. held t)"
  using scan_budget_safe [OF sample_budget_reachable] by blast

end
