(* ===== verification/Engine.thy ===== *)
theory Engine
  imports Engine_Stage1 Scan_Budget
begin

text \<open>
  \<^verbatim>\<open>src/pingwaf-waf/src/engine/mod.rs\<close>: the inspection of a request from normalization to the
  verdict.  The record \<open>Env\<close> holds the foreign code the stages call.  The lemmas relate the
  imperative rule loop to a declarative decision: which rules fire, which of them enforces,
  and what the mode makes of it.
\<close>

section \<open>Evaluation contexts\<close>

record ('net, 're) Env =
  env_expr :: "('net, 're) externals"
  env_match :: matchers
  env_norm :: norm_env

definition engine_opts :: "('net, 're) WafEngine \<Rightarrow> decode_opts" where
  "engine_opts W = \<lparr>max_decode_layers = decode_layers W, decode_escapes_on = is_strict (level W)\<rparr>"

definition engine_normalize ::
  "('net, 're) WafEngine \<Rightarrow> ('net, 're) Env \<Rightarrow> RequestData \<Rightarrow> NormalizedRequest" where
  "engine_normalize W E request =
     normalize_request (env_norm E)
       (engine_opts W)
       (req_method request) (req_path request) (req_query request) (req_headers request) (req_body request)"

definition full_ctx :: "RequestData \<Rightarrow> NormalizedRequest \<Rightarrow> ScoreBreakdown \<Rightarrow> EvalContext" where
  "full_ctx request n b =
     \<lparr>ctx_method = nr_method n, ctx_path = nr_path n, ctx_full_uri = nr_full_uri n,
      ctx_host = nr_host n, ctx_user_agent = nr_user_agent n, ctx_body = nr_body_text n,
      ctx_headers = nr_headers n, ctx_cookies = nr_cookies n,
      ctx_client_ip = req_client_ip request, ctx_parsed_ip = ip_from_str (req_client_ip request),
      ctx_country_code = req_country_code request,
      ctx_ssl = eq_ignore_ascii_case (req_scheme request) ''https'',
      ctx_waf_score = total b, ctx_waf_score_sqli = sqli_score b, ctx_waf_score_xss = xss_score b,
      ctx_waf_score_rce = rce_score b\<rparr>"

definition block_ctx :: "EvalContext \<Rightarrow> ScoreBreakdown \<Rightarrow> EvalContext" where
  "block_ctx ctx b =
     ctx\<lparr>ctx_waf_score := block_total b, ctx_waf_score_sqli := block_sqli_score b,
         ctx_waf_score_xss := block_xss_score b, ctx_waf_score_rce := block_rce_score b\<rparr>"

text \<open>The guards both rule loops start with.\<close>

definition rule_in_scope :: "('net, 're) WafEngine \<Rightarrow> ('net, 're) CompiledRule \<Rightarrow> bool" where
  "rule_in_scope W r \<longleftrightarrow>
     rule_enabled r \<and> \<not> effective_paranoia W < rule_paranoia r \<and> stack_contains (stacks W) (rule_stacks r)"

section \<open>Allow rules\<close>

definition allow_match ::
  "('net, 're) WafEngine \<Rightarrow> ('net, 're) externals \<Rightarrow> EvalContext \<Rightarrow> ('net, 're) CompiledRule option" where
  "allow_match W X ctx =
     find (\<lambda>r. rule_action r = AAllow \<and> rule_in_scope W r \<and> evaluate X (rule_expression r) ctx) (rules W)"

definition allow_verdict ::
  "('net, 're) WafEngine \<Rightarrow> Stage1 \<Rightarrow> ('net, 're) CompiledRule \<Rightarrow> WafVerdict" where
  "allow_verdict W s r =
     \<lparr>action = Pass, score = total_u8 (st_breakdown s),
      matched_rules = matched_from W (st_recs s) [] @ [rule_id r],
      enforced_rule_id = None,
      details = ''allow-rule matched: '' @ rule_id r @ '' ['' @ rule_name r @ '']'' @
        (case surfaces_marker (st_surfaces s) of None \<Rightarrow> [] | Some marker \<Rightarrow> '' '' @ marker),
      verdict_breakdown = st_breakdown s\<rparr>"

section \<open>The rule loop\<close>

record Stage2 =
  s2_breakdown :: ScoreBreakdown
  s2_recs :: "RuleRec list"
  s2_forced :: "WafAction option"
  s2_block :: "string option"
  s2_challenge :: "string option"

definition stage2_init :: "ScoreBreakdown \<Rightarrow> Stage2" where
  "stage2_init b =
     \<lparr>s2_breakdown = b, s2_recs = [], s2_forced = None, s2_block = None, s2_challenge = None\<rparr>"

definition set_if_none :: "string \<Rightarrow> string option \<Rightarrow> string option" where
  "set_if_none x old = (case old of None \<Rightarrow> Some x | Some y \<Rightarrow> Some y)"

text \<open>What the loop does with a rule that matched; the guards exclude the \<^verbatim>\<open>unreachable!\<close> arm.\<close>

definition apply_rule ::
  "('net, 're) WafEngine \<Rightarrow> ('net, 're) CompiledRule \<Rightarrow> Stage2 \<Rightarrow> Stage2" where
  "apply_rule W r s =
     (let monitored = rule_monitored W r;
          s1 = s\<lparr>s2_recs := s2_recs s @ [\<lparr>rec_id = rule_id r, rec_name = rule_name r,
                  rec_action = rule_action r, rec_severity = rule_severity r, rec_monitored = monitored\<rparr>]\<rparr>;
          scored = s1\<lparr>s2_breakdown := add_severity_hit_ex (scorer W) (s2_breakdown s1) (rule_severity r) monitored\<rparr>
      in case rule_action r of
           AAllow \<Rightarrow> s1
         | ALog \<Rightarrow> s1\<lparr>s2_breakdown := add_severity_hit (scorer W) (s2_breakdown s1) (rule_severity r)\<rparr>
         | ABlock \<Rightarrow>
             if monitored then scored
             else scored\<lparr>s2_forced := Some Block, s2_block := set_if_none (rule_id r) (s2_block scored)\<rparr>
         | _ \<Rightarrow>
             if \<not> monitored \<and> s2_forced scored \<noteq> Some Block
             then scored\<lparr>s2_forced := Some Challenge,
                         s2_challenge := set_if_none (rule_id r) (s2_challenge scored)\<rparr>
             else scored)"

text \<open>Managed rules see the blocking snapshot of the scores, custom rules the full one.\<close>

definition rule_fires ::
  "('net, 're) WafEngine \<Rightarrow> ('net, 're) externals \<Rightarrow> EvalContext \<Rightarrow> EvalContext
     \<Rightarrow> ('net, 're) CompiledRule \<Rightarrow> bool" where
  "rule_fires W X ctx bctx r \<longleftrightarrow>
     rule_action r \<noteq> AAllow \<and> rule_in_scope W r
     \<and> evaluate X (rule_expression r) (if is_managed_id (rule_id r) then bctx else ctx)"

definition rule_step ::
  "('net, 're) WafEngine \<Rightarrow> ('net, 're) externals \<Rightarrow> EvalContext \<Rightarrow> EvalContext
     \<Rightarrow> ('net, 're) CompiledRule \<Rightarrow> Stage2 \<Rightarrow> Stage2" where
  "rule_step W X ctx bctx r s = (if rule_fires W X ctx bctx r then apply_rule W r s else s)"

definition stage2 ::
  "('net, 're) WafEngine \<Rightarrow> ('net, 're) externals \<Rightarrow> EvalContext \<Rightarrow> EvalContext \<Rightarrow> ScoreBreakdown
     \<Rightarrow> Stage2" where
  "stage2 W X ctx bctx b = fold (rule_step W X ctx bctx) (rules W) (stage2_init b)"

section \<open>The verdict\<close>

definition dedup_step :: "string \<Rightarrow> string list \<Rightarrow> string list" where
  "dedup_step i seen = (if i \<in> set seen then seen else seen @ [i])"

definition finalize_verdict ::
  "('net, 're) WafEngine \<Rightarrow> ScoreBreakdown \<Rightarrow> string list \<Rightarrow> string option \<Rightarrow> string list
     \<Rightarrow> WafAction option \<Rightarrow> string \<Rightarrow> Surface list \<Rightarrow> WafVerdict" where
  "finalize_verdict W b0 matched enforced notes requested0 reason sfs =
     (let b = b0\<lparr>overall_class := classify (scorer W) (block_total b0)\<rparr>;
          requested = (case requested0 of None \<Rightarrow> Pass | Some a \<Rightarrow> a);
          downgrade = mode W = ModeMonitor \<and> (requested = Block \<or> requested = Challenge);
          act = (if downgrade then Monitor else requested);
          seen = fold dedup_step matched [];
          text0 = (if notes = [] then reason else reason @ '': '' @ join_with ''; '' notes);
          text1 = text0 @ (case first_surface sfs of
                             None \<Rightarrow> [] | Some f \<Rightarrow> ''; surface='' @ surface_as_str f);
          text2 = text1 @ (case surfaces_marker sfs of
                             None \<Rightarrow> []
                           | Some marker \<Rightarrow>
                               ''; surfaces='' @ trim_end_char CHR '']'' (dropWhile (\<lambda>c. c = CHR ''['') marker));
          text3 = text2 @ (if downgrade
                           then ''; downgraded=true would_enforce='' @ enforce_action_str requested @
                                '' cause=site-mode-monitor''
                           else [])
      in \<lparr>action = act, score = total_u8 b, matched_rules = seen,
          enforced_rule_id = (if act = Monitor then None else enforced),
          details = text3, verdict_breakdown = b\<rparr>)"

definition class_reason :: "ScoreClass \<Rightarrow> string" where
  "class_reason c =
     (case c of Clean \<Rightarrow> ''clean'' | LikelyClean \<Rightarrow> ''likely-clean''
              | LikelyAttack \<Rightarrow> ''likely-attack'' | Attack \<Rightarrow> ''attack'')"

definition with_note :: "BodyInspection \<Rightarrow> string list \<Rightarrow> string list" where
  "with_note insp notes = notes @ (case body_detail insp of None \<Rightarrow> [] | Some note \<Rightarrow> [note])"

definition final_action :: "('net, 're) WafEngine \<Rightarrow> Stage2 \<Rightarrow> WafAction" where
  "final_action W s =
     (case s2_forced s of
        Some a \<Rightarrow> a
      | None \<Rightarrow>
          if should_block (scorer W) (block_total (s2_breakdown s)) then Block
          else if 0 < total (s2_breakdown s) then Monitor
          else Pass)"

definition enforced_rule :: "Stage2 \<Rightarrow> string option" where
  "enforced_rule s =
     (if s2_forced s = Some Block then s2_block s
      else if s2_forced s = Some Challenge then s2_challenge s
      else None)"

definition final_verdict ::
  "('net, 're) WafEngine \<Rightarrow> BodyInspection \<Rightarrow> Stage1 \<Rightarrow> Stage2 \<Rightarrow> WafVerdict" where
  "final_verdict W insp s1 s2 =
     (let b = (s2_breakdown s2)\<lparr>overall_class := classify (scorer W) (block_total (s2_breakdown s2))\<rparr>;
          act = final_action W s2
      in if act = Pass
         then verdict_pass\<lparr>details := (case body_detail insp of None \<Rightarrow> [] | Some note \<Rightarrow> note)\<rparr>
         else finalize_verdict W b (matched_from W (st_recs s1) (s2_recs s2)) (enforced_rule s2)
                (with_note insp (details_from W (st_recs s1) (s2_recs s2))) (Some act)
                (class_reason (overall_class b)) (st_surfaces s1))"

definition inspect_reserved ::
  "('net, 're) WafEngine \<Rightarrow> ('net, 're) Env \<Rightarrow> RequestData \<Rightarrow> WafVerdict" where
  "inspect_reserved W E request =
     (if mode W = ModeOff then verdict_pass
      else
        let n = engine_normalize W E request;
            s1 = stage1 W (env_match E) n;
            ctx = full_ctx request n (st_breakdown s1);
            bctx = block_ctx ctx (st_breakdown s1)
        in case allow_match W (env_expr E) ctx of
             Some r \<Rightarrow> allow_verdict W s1 r
           | None \<Rightarrow>
               if fast_path_block_on_critical W \<and> st_critical s1
               then finalize_verdict W (st_breakdown s1) (matched_from W (st_recs s1) []) None
                      (with_note (nr_body_inspection n) (details_from W (st_recs s1) []))
                      (Some Block) ''stage1-critical'' (st_surfaces s1)
               else final_verdict W (nr_body_inspection n) s1
                      (stage2 W (env_expr E) ctx bctx (st_breakdown s1)))"

definition inspect_without_body ::
  "('net, 're) WafEngine \<Rightarrow> ('net, 're) Env \<Rightarrow> RequestData \<Rightarrow> WafVerdict" where
  "inspect_without_body W E request =
     (let v = inspect_reserved W E (request\<lparr>req_body := None\<rparr>)
      in v\<lparr>matched_rules := matched_rules v @ [''scan_budget_body_skipped''],
           details := details v @ (if details v \<noteq> [] then ''; '' else []) @
             ''body skipped: concurrent scan budget exhausted''\<rparr>)"

text \<open>\<open>limit\<close> and \<open>used\<close> are the scan budget and the counter value at which the reservation is
  decided.\<close>

definition inspect ::
  "('net, 're) WafEngine \<Rightarrow> ('net, 're) Env \<Rightarrow> nat \<Rightarrow> nat \<Rightarrow> RequestData \<Rightarrow> WafVerdict" where
  "inspect W E limit used request =
     (if mode W = ModeOff then verdict_pass
      else case try_acquire limit (estimated_scan_bytes request) used of
             Granted _ \<Rightarrow> inspect_reserved W E request
           | _ \<Rightarrow> inspect_without_body W E request)"

section \<open>The rule loop as a declarative decision\<close>

definition fired_rules ::
  "('net, 're) WafEngine \<Rightarrow> ('net, 're) externals \<Rightarrow> EvalContext \<Rightarrow> EvalContext
     \<Rightarrow> ('net, 're) CompiledRule list" where
  "fired_rules W X ctx bctx = filter (rule_fires W X ctx bctx) (rules W)"

definition blocking :: "('net, 're) WafEngine \<Rightarrow> ('net, 're) CompiledRule \<Rightarrow> bool" where
  "blocking W r \<longleftrightarrow> rule_action r = ABlock \<and> \<not> rule_monitored W r"

definition challenging :: "('net, 're) WafEngine \<Rightarrow> ('net, 're) CompiledRule \<Rightarrow> bool" where
  "challenging W r \<longleftrightarrow>
     (rule_action r = AChallenge \<or> rule_action r = AJsChallenge) \<and> \<not> rule_monitored W r"

text \<open>The scorer call of a rule that fired: a log rule scores as if it were never monitored.\<close>

definition rule_op :: "('net, 're) WafEngine \<Rightarrow> ('net, 're) CompiledRule \<Rightarrow> ScoreOp" where
  "rule_op W r = SeverityHit (rule_severity r) (rule_monitored W r \<and> rule_action r \<noteq> ALog)"

definition first_id :: "('r \<Rightarrow> bool) \<Rightarrow> ('r \<Rightarrow> string) \<Rightarrow> 'r list \<Rightarrow> string option" where
  "first_id P i rs = map_option i (find P rs)"

lemma first_id_snoc:
  "first_id P i (rs @ [r]) = (if list_ex P rs then first_id P i rs else if P r then Some (i r) else None)"
  by (induction rs) (auto simp: first_id_def)

lemma first_id_None: "\<not> list_ex P rs \<Longrightarrow> first_id P i rs = None"
  by (induction rs) (auto simp: first_id_def)

lemma first_id_Some: "list_ex P rs \<Longrightarrow> \<exists>x. first_id P i rs = Some x"
  by (induction rs) (auto simp: first_id_def)

lemma stage2_fired:
  "stage2 W X ctx bctx b = fold (apply_rule W) (fired_rules W X ctx bctx) (stage2_init b)"
proof -
  have "fold (rule_step W X ctx bctx) rs s = fold (apply_rule W) (filter (rule_fires W X ctx bctx) rs) s"
    for rs s
    by (induction rs arbitrary: s) (simp_all add: rule_step_def)
  then show ?thesis by (simp add: stage2_def fired_rules_def)
qed

lemma fired_not_allow: "r \<in> set (fired_rules W X ctx bctx) \<Longrightarrow> rule_action r \<noteq> AAllow"
  by (simp add: fired_rules_def rule_fires_def)

definition decided :: "('net, 're) WafEngine \<Rightarrow> ScoreBreakdown \<Rightarrow> ('net, 're) CompiledRule list \<Rightarrow> Stage2 \<Rightarrow> bool" where
  "decided W b rs s \<longleftrightarrow>
     s2_breakdown s = run_hits (scorer W) (map (rule_op W) rs) b
     \<and> map rec_id (s2_recs s) = map rule_id rs
     \<and> s2_forced s = (if list_ex (blocking W) rs then Some Block
                      else if list_ex (challenging W) rs then Some Challenge else None)
     \<and> s2_block s = first_id (blocking W) rule_id rs
     \<and> (\<not> list_ex (blocking W) rs \<longrightarrow> s2_challenge s = first_id (challenging W) rule_id rs)"

lemma run_hits_snoc: "run_hits s (ops @ [h]) b = apply_op s h (run_hits s ops b)"
  by (simp add: run_hits_def)

lemma apply_rule_decided:
  assumes "decided W b rs s" and "rule_action r \<noteq> AAllow"
  shows "decided W b (rs @ [r]) (apply_rule W r s)"
proof -
  note d = assms(1) [unfolded decided_def]
  have none: "first_id P rule_id rs = None \<longleftrightarrow> \<not> list_ex P rs" for P
    using first_id_None [of P rs rule_id] first_id_Some [of P rs rule_id] by auto
  show ?thesis
  proof (cases "rule_action r")
    case ABlock
    then show ?thesis
      using d none [of "blocking W"] none [of "challenging W"]
      by (auto simp: decided_def apply_rule_def Let_def run_hits_snoc rule_op_def first_id_snoc blocking_def challenging_def
          set_if_none_def split: option.splits)
  next
    case ALog
    then show ?thesis
      using d none [of "blocking W"] none [of "challenging W"]
      by (auto simp: decided_def apply_rule_def Let_def run_hits_snoc rule_op_def first_id_snoc blocking_def challenging_def
          add_severity_hit_def)
  next
    case AChallenge
    then show ?thesis
      using d none [of "blocking W"] none [of "challenging W"]
      by (auto simp: decided_def apply_rule_def Let_def run_hits_snoc rule_op_def first_id_snoc blocking_def challenging_def
          set_if_none_def split: option.splits)
  next
    case AJsChallenge
    then show ?thesis
      using d none [of "blocking W"] none [of "challenging W"]
      by (auto simp: decided_def apply_rule_def Let_def run_hits_snoc rule_op_def first_id_snoc blocking_def challenging_def
          set_if_none_def split: option.splits)
  next
    case AAllow
    with assms(2) show ?thesis by simp
  qed
qed

lemma apply_rules_decided:
  "(\<And>r. r \<in> set rs \<Longrightarrow> rule_action r \<noteq> AAllow) \<Longrightarrow> decided W b rs (fold (apply_rule W) rs (stage2_init b))"
proof (induction rs rule: rev_induct)
  case Nil
  show ?case by (simp add: decided_def stage2_init_def run_hits_def first_id_def)
next
  case (snoc r rs)
  then show ?case by (simp add: apply_rule_decided)
qed

lemma stage2_decided: "decided W b (fired_rules W X ctx bctx) (stage2 W X ctx bctx b)"
  unfolding stage2_fired by (rule apply_rules_decided) (rule fired_not_allow)

section \<open>The verdict as a declarative decision\<close>

definition stage1_of :: "('net, 're) WafEngine \<Rightarrow> ('net, 're) Env \<Rightarrow> RequestData \<Rightarrow> Stage1" where
  "stage1_of W E request = stage1 W (env_match E) (engine_normalize W E request)"

definition ctx_of :: "('net, 're) WafEngine \<Rightarrow> ('net, 're) Env \<Rightarrow> RequestData \<Rightarrow> EvalContext" where
  "ctx_of W E request = full_ctx request (engine_normalize W E request) (st_breakdown (stage1_of W E request))"

definition fired_of ::
  "('net, 're) WafEngine \<Rightarrow> ('net, 're) Env \<Rightarrow> RequestData \<Rightarrow> ('net, 're) CompiledRule list" where
  "fired_of W E request =
     fired_rules W (env_expr E) (ctx_of W E request)
       (block_ctx (ctx_of W E request) (st_breakdown (stage1_of W E request)))"

definition score_of :: "('net, 're) WafEngine \<Rightarrow> ('net, 're) Env \<Rightarrow> RequestData \<Rightarrow> ScoreBreakdown" where
  "score_of W E request =
     run_hits (scorer W) (map (rule_op W) (fired_of W E request)) (st_breakdown (stage1_of W E request))"

definition allowed :: "('net, 're) WafEngine \<Rightarrow> ('net, 're) Env \<Rightarrow> RequestData \<Rightarrow> bool" where
  "allowed W E request \<longleftrightarrow>
     list_ex (\<lambda>r. rule_action r = AAllow \<and> rule_in_scope W r
       \<and> evaluate (env_expr E) (rule_expression r) (ctx_of W E request)) (rules W)"

definition critical_block :: "('net, 're) WafEngine \<Rightarrow> ('net, 're) Env \<Rightarrow> RequestData \<Rightarrow> bool" where
  "critical_block W E request \<longleftrightarrow> fast_path_block_on_critical W \<and> st_critical (stage1_of W E request)"

definition decision :: "('net, 're) WafEngine \<Rightarrow> ('net, 're) Env \<Rightarrow> RequestData \<Rightarrow> WafAction" where
  "decision W E request =
     (if allowed W E request then Pass
      else if critical_block W E request then Block
      else if list_ex (blocking W) (fired_of W E request) then Block
      else if list_ex (challenging W) (fired_of W E request) then Challenge
      else if threshold (scorer W) \<le> block_total (score_of W E request) then Block
      else if st_recs (stage1_of W E request) \<noteq> [] \<or> fired_of W E request \<noteq> [] then Monitor
      else Pass)"

definition enforcer :: "('net, 're) WafEngine \<Rightarrow> ('net, 're) Env \<Rightarrow> RequestData \<Rightarrow> string option" where
  "enforcer W E request =
     (if critical_block W E request then None
      else if list_ex (blocking W) (fired_of W E request)
        then first_id (blocking W) rule_id (fired_of W E request)
      else first_id (challenging W) rule_id (fired_of W E request))"

definition under_mode :: "('net, 're) WafEngine \<Rightarrow> WafAction \<Rightarrow> WafAction" where
  "under_mode W a = (if mode W = ModeMonitor \<and> (a = Block \<or> a = Challenge) then Monitor else a)"

lemma finalize_simps [simp]:
  "action (finalize_verdict W b ms e ns (Some a) t sfs) = under_mode W a"
  "enforced_rule_id (finalize_verdict W b ms e ns (Some a) t sfs) = (if under_mode W a = Monitor then None else e)"
  by (simp_all add: finalize_verdict_def under_mode_def Let_def)

lemma find_None_list_ex: "find P xs = None \<longleftrightarrow> \<not> list_ex P xs"
  by (induction xs) auto

lemma run_hits_append: "run_hits s (xs @ ys) b = run_hits s ys (run_hits s xs b)"
  by (simp add: run_hits_def)

lemma total_run_hits_zero: "total (run_hits s ops score_clean) = 0 \<longleftrightarrow> ops = []"
proof
  assume "total (run_hits s ops score_clean) = 0"
  then have "min (\<Sum>h\<leftarrow>ops. unat (op_points h)) (2 ^ 32 - 1) = 0"
    using run_hits_total [of s ops] by simp
  then have "(\<Sum>h\<leftarrow>ops. unat (op_points h)) = 0" by (simp add: min_def split: if_splits)
  then show "ops = []" using op_points_bounds [of "hd ops"] by (cases ops) auto
qed (simp add: run_hits_def score_clean_def)

lemma score_of_zero:
  "total (score_of W E request) = 0 \<longleftrightarrow> st_recs (stage1_of W E request) = [] \<and> fired_of W E request = []"
proof -
  obtain ops where ops: "st_breakdown (stage1_of W E request) = run_hits (scorer W) ops score_clean"
    and "map op_monitored ops = map rec_is_monitored (st_recs (stage1_of W E request))"
    using stage1_ok [of W "env_match E" "engine_normalize W E request"]
    by (auto simp: stage1_inv_def stage1_of_def)
  then have "ops = [] \<longleftrightarrow> st_recs (stage1_of W E request) = []" by (metis Nil_is_map_conv)
  then show ?thesis
    by (simp add: score_of_def ops total_run_hits_zero flip: run_hits_append)
qed

lemma final_verdict_simps:
  assumes "decided W b rs s2"
  shows "action (final_verdict W insp s1 s2) = under_mode W (final_action W s2)"
    and "enforced_rule_id (final_verdict W insp s1 s2) =
      (if is_blocked (final_verdict W insp s1 s2) then enforced_rule s2 else None)"
  using assms
  by (auto simp: final_verdict_def Let_def verdict_pass_def is_blocked_def under_mode_def
      enforced_rule_def decided_def final_action_def split: option.splits if_splits)

lemma final_action_decided:
  assumes "decided W b rs s2"
  shows "final_action W s2 =
    (if list_ex (blocking W) rs then Block
     else if list_ex (challenging W) rs then Challenge
     else if threshold (scorer W) \<le> block_total (run_hits (scorer W) (map (rule_op W) rs) b) then Block
     else if total (run_hits (scorer W) (map (rule_op W) rs) b) \<noteq> 0 then Monitor
     else Pass)"
    and "enforced_rule s2 =
      (if list_ex (blocking W) rs then first_id (blocking W) rule_id rs
       else first_id (challenging W) rule_id rs)"
  using assms first_id_None [of "challenging W" rs rule_id]
  by (auto simp: decided_def final_action_def should_block_def enforced_rule_def word_neq_0_conv)

lemma inspect_reserved_decision:
  assumes "mode W \<noteq> ModeOff"
  shows "action (inspect_reserved W E request) = under_mode W (decision W E request)
    \<and> enforced_rule_id (inspect_reserved W E request) =
        (if is_blocked (inspect_reserved W E request) then enforcer W E request else None)"
proof -
  let ?s1 = "stage1_of W E request" and ?ctx = "ctx_of W E request"
  let ?s2 = "stage2 W (env_expr E) ?ctx (block_ctx ?ctx (st_breakdown ?s1)) (st_breakdown ?s1)"
  let ?insp = "nr_body_inspection (engine_normalize W E request)"
  have v: "inspect_reserved W E request =
      (case allow_match W (env_expr E) ?ctx of
         Some r \<Rightarrow> allow_verdict W ?s1 r
       | None \<Rightarrow>
           if critical_block W E request
           then finalize_verdict W (st_breakdown ?s1) (matched_from W (st_recs ?s1) []) None
                  (with_note ?insp (details_from W (st_recs ?s1) []))
                  (Some Block) ''stage1-critical'' (st_surfaces ?s1)
           else final_verdict W ?insp ?s1 ?s2)"
    unfolding inspect_reserved_def Let_def stage1_of_def ctx_of_def critical_block_def
    by (subst if_not_P [OF assms]) (rule refl)
  have a: "allow_match W (env_expr E) ?ctx = None \<longleftrightarrow> \<not> allowed W E request"
    by (simp add: allow_match_def allowed_def find_None_list_ex)
  have d: "decided W (st_breakdown ?s1) (fired_of W E request) ?s2"
    unfolding fired_of_def by (rule stage2_decided)
  note f = final_action_decided [OF d, folded score_of_def]
  show ?thesis
  proof (cases "allow_match W (env_expr E) ?ctx")
    case (Some r)
    with a have "allowed W E request" by simp
    then show ?thesis
      by (simp add: v Some allow_verdict_def is_blocked_def decision_def under_mode_def)
  next
    case None
    with a have "\<not> allowed W E request" by simp
    then show ?thesis
      using f final_verdict_simps [OF d] score_of_zero [of W E request]
      by (cases "critical_block W E request")
        (auto simp: v None decision_def enforcer_def is_blocked_def under_mode_def)
  qed
qed

section \<open>Properties\<close>

text \<open>A small engine for the witnesses: one signature, one log rule, the default configuration.\<close>

definition sample_log_rule :: "(string, string) CompiledRule" where
  "sample_log_rule =
     \<lparr>rule_id = ''log-all'', rule_name = ''log every request'',
      rule_expression = NotE (FieldE \<lparr>kind = RequestMethod, index = None\<rparr> Eq (VStr [])),
      rule_action = ALog, rule_severity = 5, rule_tags = [], rule_enabled = True, rule_paranoia = 1,
      rule_stacks = stack_generic\<rparr>"

definition sample_base :: "(string, string) WafBase" where
  "sample_base =
     \<lparr>base_signatures =
        \<lparr>aho = reference_find, patterns = [push_pattern ''PT-001'' PathTraversal 5 ''sample'' ''etc/passwd'']\<rparr>,
      base_managed_rules = []\<rparr>"

definition demo_engine :: "(string, string) WafEngine" where
  "demo_engine = engine_of (config_default\<lparr>cfg_rules := [sample_log_rule]\<rparr>) sample_base"

definition sample_env :: "(string, string) Env" where
  "sample_env =
     \<lparr>env_expr = sample_rule_externals,
      env_match = \<lparr>is_match = (\<lambda>_ _. False), replace_all = (\<lambda>_ _ s. s), ac_is_match = (\<lambda>_ _. False)\<rparr>,
      env_norm = plain_env\<rparr>"

lemmas sample_defs = demo_engine_def sample_base_def engine_of_def config_default_def sample_log_rule_def
  scorer_new_def

lemma critical_value_blocks:
  assumes "mode W = ModeBlock" and "fast_path_block_on_critical W" and "\<not> allowed W E request"
    and "v \<in> set (nr_decoded_values (engine_normalize W E request))"
    and "h \<in> set (scan_into (signatures W) (decoded v))"
    and "sig_critical W (env_match E) v (injection_company W (scan_into (signatures W) (decoded v))) h"
    and "\<not> sig_search_phrase (env_match E) v (pattern_id (signatures W) (hit_pattern h))"
    and "\<not> hit_monitored W (hit_category h) (pat_stack (pattern (signatures W) (hit_pattern h)))"
  shows "action (inspect_reserved W E request) = Block"
proof -
  have "critical_block W E request"
    using assms(2) stage1_critical [OF assms(4-8)] by (simp add: critical_block_def stage1_of_def)
  with assms(1,3) inspect_reserved_decision [of W E request] show ?thesis
    by (simp add: decision_def under_mode_def)
qed

text \<open>
  C2: The verdict is the documented decision. Of an engine that is not off, an inspection passes
  when an allow rule in scope matches, whatever else fired; else it blocks on a critical
  stage-1 hit (fast path); else the rules that fire decide: block when a block rule that is not
  monitored is among them, challenge when a challenge rule is, else block when the blocking
  score reaches the threshold, monitor when anything was recorded at all, and pass only when
  nothing was. Monitor mode turns block and challenge into monitor. The enforced rule id is
  that of the first firing rule that forces the action.
\<close>

theorem verdict_is_decision:
  "mode W \<noteq> ModeOff \<Longrightarrow>
   action (inspect_reserved W E request) = under_mode W (decision W E request)
   \<and> enforced_rule_id (inspect_reserved W E request) =
       (if is_blocked (inspect_reserved W E request) then enforcer W E request else None)"
  by (rule inspect_reserved_decision)

theorem verdict_is_decision_witness:
  "action (inspect_reserved demo_engine sample_env (request_new ''GET'' ''/''))
     = under_mode demo_engine (decision demo_engine sample_env (request_new ''GET'' ''/''))"
  using verdict_is_decision [of demo_engine sample_env "request_new ''GET'' ''/''"]
  by (simp add: sample_defs)

lemma inspect_blocked:
  "is_blocked (inspect W E limit used request) \<Longrightarrow>
   is_blocked (inspect_reserved W E request) \<or> is_blocked (inspect_reserved W E (request\<lparr>req_body := None\<rparr>))"
  by (auto simp: inspect_def inspect_without_body_def Let_def verdict_pass_def is_blocked_def
      split: Reservation.splits if_splits)

text \<open>
  C3: Only an engine in Block mode enforces: whatever the rules, the request and the state of the
  scan budget, an inspection that blocks or challenges comes from an engine in Block mode, and
  an engine that is off answers with the clean verdict.
\<close>

theorem only_block_mode_enforces:
  "(is_blocked (inspect W E limit used request) \<longrightarrow> mode W = ModeBlock)
   \<and> (mode W = ModeOff \<longrightarrow> inspect W E limit used request = verdict_pass)"
proof (cases "mode W")
  case ModeMonitor
  then have "\<not> is_blocked (inspect_reserved W E r)" for r
    using inspect_reserved_decision [of W E r] by (simp add: under_mode_def is_blocked_def)
  then show ?thesis using inspect_blocked [of W E limit used request] ModeMonitor by auto
qed (simp_all add: inspect_def verdict_pass_def is_blocked_def)

theorem only_block_mode_enforces_witness:
  "\<not> is_blocked (inspect (set_mode ModeMonitor demo_engine) sample_env 4096 0 (request_new ''GET'' ''/etc/passwd''))"
  using only_block_mode_enforces [of "set_mode ModeMonitor demo_engine" sample_env 4096 0
      "request_new ''GET'' ''/etc/passwd''"]
  by (simp add: set_mode_def)

text \<open>The points that log rules bring: those of a list of rules, and all that an engine has in scope.\<close>

definition log_points_of :: "('net, 're) CompiledRule list \<Rightarrow> nat" where
  "log_points_of rs =
     (\<Sum>r\<leftarrow>filter (\<lambda>r. rule_action r = ALog) rs. unat (points_for_severity (rule_severity r)))"

definition log_points :: "('net, 're) WafEngine \<Rightarrow> nat" where
  "log_points W = log_points_of (filter (rule_in_scope W) (rules W))"

lemma log_points_filter:
  "(\<And>r. P r \<Longrightarrow> Q r) \<Longrightarrow> log_points_of (filter P rs) \<le> log_points_of (filter Q rs)"
  by (induction rs) (auto simp: log_points_of_def)

lemma log_points_fired: "log_points_of (fired_of W E request) \<le> log_points W"
  unfolding fired_of_def fired_rules_def log_points_def
  by (rule log_points_filter) (simp add: rule_fires_def)

definition only_monitors :: "('net, 're) WafEngine \<Rightarrow> bool" where
  "only_monitors W \<longleftrightarrow> list_all (contains_category (monitor_categories W)) all_categories
     \<and> list_all (\<lambda>r. rule_action r = AAllow \<or> rule_action r = ALog \<or> rule_monitored W r) (rules W)"

lemma only_monitors_fired:
  "only_monitors W \<Longrightarrow> r \<in> set (fired_of W E request) \<Longrightarrow> rule_action r = ALog \<or> rule_monitored W r"
  using fired_not_allow by (fastforce simp: only_monitors_def list_all_iff fired_of_def fired_rules_def)

lemma only_monitors_stage1:
  assumes "only_monitors W"
  shows "\<forall>r\<in>set (st_recs (stage1_of W E request)). rec_is_monitored r"
proof -
  have "contains_category (monitor_categories W) c" for c
    using assms all_categories_complete [of c] by (simp only: only_monitors_def list_all_iff)
  then show ?thesis unfolding stage1_of_def by (rule all_monitored_stage1)
qed

lemma only_monitors_score:
  assumes "only_monitors W"
  shows "unat (block_total (score_of W E request)) = min (log_points_of (fired_of W E request)) (2 ^ 32 - 1)"
proof -
  let ?s1 = "stage1_of W E request" and ?fired = "fired_of W E request"
  obtain ops where ops: "st_breakdown ?s1 = run_hits (scorer W) ops score_clean"
    and m: "map op_monitored ops = map rec_is_monitored (st_recs ?s1)"
    using stage1_ok [of W "env_match E" "engine_normalize W E request"]
    by (auto simp: stage1_inv_def stage1_of_def)
  have "\<forall>b\<in>set (map op_monitored ops). b" unfolding m using only_monitors_stage1 [OF assms] by simp
  then have none: "filter (\<lambda>h. \<not> op_monitored h) ops = []" by (simp add: filter_empty_conv)
  have "filter (\<lambda>r. \<not> op_monitored (rule_op W r)) ?fired = filter (\<lambda>r. rule_action r = ALog) ?fired"
    using only_monitors_fired [OF assms] by (intro filter_cong refl) (auto simp: rule_op_def)
  then show ?thesis
    using run_hits_block_total [of "scorer W" "ops @ map (rule_op W) ?fired"] none
    by (simp add: score_of_def ops log_points_of_def filter_map comp_def rule_op_def flip: run_hits_append)
qed

lemma only_monitors_decision:
  assumes "only_monitors W"
  shows "decision W E request \<noteq> Challenge"
    and "decision W E request = Block \<longleftrightarrow> \<not> allowed W E request
      \<and> unat (threshold (scorer W)) \<le> min (log_points_of (fired_of W E request)) (2 ^ 32 - 1)"
proof -
  have "\<not> blocking W r \<and> \<not> challenging W r" if "r \<in> set (fired_of W E request)" for r
    using only_monitors_fired [OF assms that] by (auto simp: blocking_def challenging_def)
  then have "\<not> list_ex (blocking W) (fired_of W E request)" "\<not> list_ex (challenging W) (fired_of W E request)"
    by (auto simp: list_ex_iff)
  moreover have "stage1_inv W (stage1_of W E request)" unfolding stage1_of_def by (rule stage1_ok)
  then have "\<not> critical_block W E request"
    using only_monitors_stage1 [OF assms] by (auto simp: critical_block_def stage1_inv_def)
  ultimately show "decision W E request \<noteq> Challenge"
    and "decision W E request = Block \<longleftrightarrow> \<not> allowed W E request
      \<and> unat (threshold (scorer W)) \<le> min (log_points_of (fired_of W E request)) (2 ^ 32 - 1)"
    unfolding only_monitors_score [OF assms, symmetric] word_le_nat_alt [symmetric]
    by (simp_all add: decision_def)
qed

lemma only_monitors_verdict:
  assumes "only_monitors W"
  shows "action (inspect_reserved W E request) \<noteq> Challenge"
    and "action (inspect_reserved W E request) = Block \<longleftrightarrow> mode W = ModeBlock \<and> \<not> allowed W E request
      \<and> unat (threshold (scorer W)) \<le> min (log_points_of (fired_of W E request)) (2 ^ 32 - 1)"
proof -
  have off: "action (inspect_reserved W E request) = Pass" if "mode W = ModeOff"
    using that by (simp add: inspect_reserved_def verdict_pass_def)
  have on: "action (inspect_reserved W E request) = under_mode W (decision W E request)" if "mode W \<noteq> ModeOff"
    using inspect_reserved_decision [OF that] by simp
  show "action (inspect_reserved W E request) \<noteq> Challenge"
    and "action (inspect_reserved W E request) = Block \<longleftrightarrow> mode W = ModeBlock \<and> \<not> allowed W E request
      \<and> unat (threshold (scorer W)) \<le> min (log_points_of (fired_of W E request)) (2 ^ 32 - 1)"
    unfolding only_monitors_decision(2) [OF assms, symmetric]
    using off on only_monitors_decision(1) [OF assms, of E request]
    by (cases "mode W"; simp add: under_mode_def; fail)+
qed

text \<open>
  C4: What can still block on a site that only monitors: every category is downgraded, and every
  rule allows, logs or is monitored.  No request is challenged; one is blocked exactly when the
  engine is in Block mode, no allow rule in scope matches and the points of the log rules that
  fire reach the threshold, because the monitor switch does not apply to log rules.  So if the
  points of all log rules in scope stay below the threshold, no inspection blocks or challenges,
  whatever the request and the scan budget.
\<close>

theorem monitored_site_never_blocks:
  assumes "only_monitors W"
  shows "action (inspect_reserved W E request) \<noteq> Challenge
    \<and> (action (inspect_reserved W E request) = Block \<longleftrightarrow>
         mode W = ModeBlock \<and> \<not> allowed W E request
         \<and> unat (threshold (scorer W)) \<le> min (log_points_of (fired_of W E request)) (2 ^ 32 - 1))
    \<and> (log_points W < unat (threshold (scorer W)) \<longrightarrow> \<not> is_blocked (inspect W E limit used request))"
proof (intro conjI impI)
  assume l: "log_points W < unat (threshold (scorer W))"
  have "\<not> is_blocked (inspect_reserved W E r)" for r
    using only_monitors_verdict [OF assms, of E r] log_points_fired [of W E r] l by (auto simp: is_blocked_def)
  then show "\<not> is_blocked (inspect W E limit used request)" using inspect_blocked by blast
qed (simp_all add: only_monitors_verdict [OF assms])

text \<open>The shipped rules, all of them monitored: their two log rules have at most ten points.\<close>

definition shipped_rules :: "(string, string) CompiledRule list" where
  "shipped_rules = fst (default_managed_rules sample_rule_externals [] Normal)"

definition monitoring_engine :: "(string, string) WafEngine" where
  "monitoring_engine = demo_engine\<lparr>rules := shipped_rules,
     monitor_categories := category_from_names (map category_as_str all_categories),
     monitor_managed_rules := rule_id ` set shipped_rules, monitor_custom_rules := rule_id ` set shipped_rules\<rparr>"

lemma log_points_of_le: "log_points_of rs \<le> 5 * length (filter (\<lambda>r. rule_action r = ALog) rs)"
proof (induction rs)
  case (Cons r rs)
  then show ?case using points_bounds [of "rule_severity r"] by (simp add: log_points_of_def)
qed (simp add: log_points_of_def)

lemma shipped_log_points: "log_points_of (filter P shipped_rules) \<le> 10"
proof -
  let ?S = "\<lambda>s. \<not> spec_strict_only s \<and> managed_accepted sample_rule_externals s"
  have rules: "shipped_rules = map (\<lambda>s. managed_rule (projr (parse_spec sample_rule_externals (spec_expression s))) s)
      (filter ?S (managed_specs Normal))"
    using managed_loop_rules [of sample_rule_externals "[]" False "managed_specs Normal"]
    by (simp add: shipped_rules_def default_managed_rules_def coherent_cache_def expr_cache.coherent_def)
  have "length (filter (\<lambda>r. rule_action r = ALog) shipped_rules)
      = length (filter (\<lambda>s. spec_action s = ALog) (filter ?S (managed_specs Normal)))"
    unfolding rules by (simp add: filter_map comp_def managed_rule_def)
  also have "\<dots> = length (filter ?S (filter (\<lambda>s. spec_action s = ALog) (managed_specs Normal)))"
    by (simp add: conj_commute)
  also have "\<dots> \<le> length (filter (\<lambda>s. spec_action s = ALog) (managed_specs Normal))" by (rule length_filter_le)
  also have "\<dots> = 2" by (simp add: managed_specs_def Let_def)
  finally have "log_points_of shipped_rules \<le> 10" using log_points_of_le [of shipped_rules] by simp
  then show ?thesis using log_points_filter [of P "\<lambda>_. True" shipped_rules] by simp
qed

theorem monitored_site_never_blocks_witness:
  "only_monitors monitoring_engine \<and> log_points monitoring_engine < unat (threshold (scorer monitoring_engine))
   \<and> \<not> is_blocked (inspect monitoring_engine sample_env 4096 0 (request_new ''GET'' ''/etc/passwd''))"
proof -
  have "list_all (contains_category (category_from_names (map category_as_str all_categories))) all_categories"
    by code_simp
  moreover have "list_all (rule_monitored monitoring_engine) (rules monitoring_engine)"
    by (simp add: list_all_iff rule_monitored_def monitoring_engine_def)
  ultimately have m: "only_monitors monitoring_engine"
    by (auto simp: only_monitors_def list_all_iff monitoring_engine_def)
  have "log_points monitoring_engine \<le> 10"
    unfolding log_points_def using shipped_log_points [of "rule_in_scope monitoring_engine"]
    by (simp add: monitoring_engine_def)
  moreover have "threshold (scorer monitoring_engine) = 40" by (simp add: monitoring_engine_def sample_defs)
  ultimately have l: "log_points monitoring_engine < unat (threshold (scorer monitoring_engine))" by simp
  with m monitored_site_never_blocks [OF m, of sample_env "request_new ''GET'' ''/etc/passwd''" 4096 0]
  show ?thesis by blast
qed

section \<open>The monitor switch of log rules\<close>

lemma monitor_custom_stage1:
  "stage1 (W\<lparr>monitor_custom_rules := S\<rparr>) M n = stage1 W M n"
proof -
  let ?W = "W\<lparr>monitor_custom_rules := S\<rparr>"
  have eqs: "signatures ?W = signatures W" "level ?W = level W" "scorer ?W = scorer W"
      "monitor_categories ?W = monitor_categories W" "monitor_stacks ?W = monitor_stacks W"
    by simp_all
  have hm: "hit_monitored ?W = hit_monitored W" by (intro ext) (simp only: hit_monitored_def eqs)
  have th: "take_hit ?W = take_hit W" by (intro ext) (simp only: take_hit_def eqs)
  have lh: "lib_hit ?W = lib_hit W" by (intro ext) (simp only: lib_hit_def hm th)
  have eh: "expr_hit ?W = expr_hit W" by (intro ext) (simp only: expr_hit_def hm th)
  have bb: "bulk_body ?W = bulk_body W" by (intro ext) (simp only: bulk_body_def eqs)
  have sw: "sig_weak ?W = sig_weak W" by (intro ext) (simp only: sig_weak_def bb)
  have sc: "sig_critical ?W = sig_critical W" by (intro ext) (simp only: sig_critical_def sw eqs)
  have sh: "sig_hit ?W = sig_hit W" by (intro ext) (simp only: sig_hit_def sw sc hm th eqs)
  have vs: "value_step ?W = value_step W"
    by (intro ext) (simp only: value_step_def sh injection_company_def detector_hits_def strict_expr_hit_def
        include_hit_def smuggling_hit_def chr_chain_hit_def backtick_hit_def deser_hit_def xss_hit_def
        sqli_hit_def path_extension_hit_def path_backtick_hit_def path_tautology_hit_def lh eh bb eqs)
  have ph: "path_hit ?W = path_hit W" by (intro ext) (simp only: path_hit_def hm th eqs)
  show ?thesis by (simp only: stage1_def vs ph eqs)
qed

lemma monitor_custom_log_decision:
  assumes "\<forall>r\<in>set (rules W). rule_action r = ALog \<or> rule_action r = AAllow"
  shows "decision (W\<lparr>monitor_custom_rules := S\<rparr>) E request = decision W E request"
proof -
  let ?W = "W\<lparr>monitor_custom_rules := S\<rparr>"
  have n: "engine_normalize ?W E request = engine_normalize W E request"
    by (simp add: engine_normalize_def engine_opts_def)
  have s1: "stage1_of ?W E request = stage1_of W E request"
    by (simp add: stage1_of_def n monitor_custom_stage1)
  have ctx: "ctx_of ?W E request = ctx_of W E request" by (simp add: ctx_of_def n s1)
  have scope: "rule_in_scope ?W = rule_in_scope W"
    by (simp add: fun_eq_iff rule_in_scope_def effective_paranoia_def)
  have fired: "fired_of ?W E request = fired_of W E request"
    by (simp add: fired_of_def fired_rules_def rule_fires_def [abs_def] ctx s1 scope)
  have log: "rule_action r = ALog" if "r \<in> set (fired_of W E request)" for r
    using that assms by (auto simp: fired_of_def fired_rules_def rule_fires_def)
  have "map (rule_op ?W) (fired_of W E request) = map (rule_op W) (fired_of W E request)"
    by (intro map_cong refl) (simp add: rule_op_def log)
  moreover have "scorer ?W = scorer W" by simp
  ultimately have "score_of ?W E request = score_of W E request" by (simp only: score_of_def fired s1)
  moreover have "\<not> list_ex (blocking V) (fired_of W E request)" "\<not> list_ex (challenging V) (fired_of W E request)"
    for V :: "('a, 'b) WafEngine"
    using log by (auto simp: list_ex_iff blocking_def challenging_def)
  moreover have "allowed ?W E request = allowed W E request" by (simp add: allowed_def scope ctx)
  moreover have "critical_block ?W E request = critical_block W E request"
    by (simp add: critical_block_def s1)
  ultimately show ?thesis by (simp add: decision_def fired s1)
qed

text \<open>
  The per-rule monitor switch does nothing for log rules: with rules that only log or allow,
  setting or clearing the switch of any rule leaves the action of every verdict as it is, so
  a monitored log rule still feeds the blocking score and can block.
\<close>

theorem monitor_switch_ignored_by_log_rules:
  assumes "\<forall>r\<in>set (rules W). rule_action r = ALog \<or> rule_action r = AAllow"
  shows "action (inspect_reserved (W\<lparr>monitor_custom_rules := S\<rparr>) E request)
    = action (inspect_reserved W E request)"
proof (cases "mode W = ModeOff")
  case True
  then show ?thesis by (simp add: inspect_reserved_def)
next
  case False
  then show ?thesis
    using inspect_reserved_decision [of W E request]
      inspect_reserved_decision [of "W\<lparr>monitor_custom_rules := S\<rparr>" E request]
      monitor_custom_log_decision [OF assms, of S E request]
    by (simp add: under_mode_def)
qed

theorem monitor_switch_ignored_by_log_rules_witness:
  "action (inspect_reserved (demo_engine\<lparr>monitor_custom_rules := {''log-all''}\<rparr>) sample_env (request_new ''GET'' ''/''))
    = action (inspect_reserved demo_engine sample_env (request_new ''GET'' ''/''))"
  by (rule monitor_switch_ignored_by_log_rules) (simp add: sample_defs)

end
