(* ===== verification/Spec2Isabelle.thy ===== *)
theory Spec2Isabelle
  imports Circuit_Breaker Location_Route Challenge Engine
begin

text \<open>
  Verification of PingWAF: the web application firewall (\<^verbatim>\<open>src/pingwaf-waf\<close>), the challenge system
  (\<^verbatim>\<open>src/pingwaf-challenge\<close>) and the parts of the proxy that decide which client a request comes
  from, which location serves it and which backend may take it (\<^verbatim>\<open>src/pingap-core\<close>,
  \<^verbatim>\<open>src/pingap-location\<close>, \<^verbatim>\<open>src/pingap-proxy\<close>, \<^verbatim>\<open>src/pingap-upstream\<close>).

  \<^bold>\<open>How the parts interact.\<close>  The proxy resolves the host and the client address of a request and
  picks a location; its plugins then run.  The WAF plugin normalises the request into a list of
  decoded values, scans them with signatures and shape detectors, evaluates rule expressions,
  adds up an anomaly score and turns it into a verdict.  The challenge plugin decides whether
  the client must first solve a proof of work and accepts the signed cookie it earned.  At last
  the upstream picks a backend whose circuit breaker admits it.

  \<^bold>\<open>Conventions.\<close>  Text is a list of bytes, and \<open>valid_utf8\<close> says it is a Rust string; machine integers
  are words (or integers with the wrap-around written out), errors are values of sum or option
  types, shared state is passed explicitly.  Clock readings, random bytes and the outcomes of
  \<^verbatim>\<open>try_lock\<close> are arguments.  Crates outside the repository are records of functions (\<open>CryptoLib\<close>,
  \<open>HttpLib\<close>, \<open>NetLib\<close>, \<open>RegexLib\<close>, \<open>RateLib\<close> and the environments of the normaliser and the
  detectors), and what the code relies on is a named hypothesis with a concrete instance.

  \<^bold>\<open>Library.\<close>  \<open>Waf_Prelude\<close> (types, lemma collections, UTF-8), \<open>Rust_Text\<close> (searching, splitting,
  trimming and parsing of \<^verbatim>\<open>str\<close>), \<open>Ip_Addr\<close> (parsing of addresses).

  \<^bold>\<open>The firewall.\<close>
  \<^item> \<open>Waf_Types\<close>: \<^verbatim>\<open>lib.rs\<close>, levels, actions, bit sets of stacks and categories.
  \<^item> \<open>Url_Decode\<close>, \<open>Path_Normalize\<close>, \<open>Html_Entities\<close>, \<open>Body_Decode\<close>, \<open>Value_Decode\<close>, \<open>Normalize\<close>: the files of
    \<^verbatim>\<open>normalize/\<close>; \<open>Normalize_Scan\<close> holds the theorems on the scan list.  Decoding reaches a fixed
    point, undoes content encodings and JSON nesting, yields well-formed bounded values, and cuts
    the tail of long bodies.
  \<^item> \<open>Expr_Lexer\<close>, \<open>Expr_Parser\<close>, \<open>Expr_Grammar\<close>, \<open>Expr_Eval\<close>, \<open>Expr_Cache\<close>: \<^verbatim>\<open>rules/expression.rs\<close>.  The
    tokenizer is safe, the parser accepts exactly a declarative grammar (that of the code, wider than
    the documented one) within its limits of tokens and nesting and terminates, the process-wide
    cache is transparent in every interleaving (locale \<open>forgetful_cache\<close>).
  \<^item> \<open>Signatures\<close>, \<open>Detectors\<close>, \<open>Rules\<close>: \<^verbatim>\<open>rules/signatures.rs\<close>, \<^verbatim>\<open>rules/mod.rs\<close>, \<^verbatim>\<open>rules/managed.rs\<close> with
    their complete tables.  Hits are real occurrences of entries the profile keeps and no active needle
    is passed over, the expression detector reports exactly the suspicious containers of a scan
    from the left, no managed rule is lost at compilation.
  \<^item> \<open>Score\<close>: \<^verbatim>\<open>score/mod.rs\<close>; the score is the saturating sum of the hits (locale \<open>hit_accumulator\<close>).
  \<^item> \<open>Engine_Base\<close>, \<open>Engine_Stage1\<close>, \<open>Engine\<close>, \<open>Scan_Budget\<close>: \<^verbatim>\<open>engine/mod.rs\<close>.  The verdict refines a
    declarative decision, only Block mode enforces, on a site that only monitors nothing but the points
    of log rules can block, engines built
    from the shared tables equal fresh ones, and the budget counter of concurrent scans is the
    sum of the reservations held.  This theory composes decoding, scanning and verdict.

  \<^bold>\<open>The challenge system.\<close>
  \<^item> \<open>Clearance\<close>: \<^verbatim>\<open>cookie/mod.rs\<close>, \<^verbatim>\<open>fingerprint/mod.rs\<close>, \<^verbatim>\<open>js_challenge/verify.rs\<close>.  Cookies round trip and are
    accepted only with their signature; the proof-of-work test is a numeric bound.
  \<^item> \<open>Challenge\<close>: \<^verbatim>\<open>js_challenge/mod.rs\<close> (\<^verbatim>\<open>should_challenge\<close>, \<^verbatim>\<open>verify_solution\<close>, the nonces) and \<^verbatim>\<open>lib.rs\<close>.  A
    solved challenge clears its own site only, nonces are single-use within the retention time,
    and three theorems show where a foreign cookie, a respelled nonce and a shorter retention
    depart from what the comments promise.

  \<^bold>\<open>The proxy.\<close>
  \<^item> \<open>Http_Header\<close>: \<^verbatim>\<open>pingap-core/src/http_header.rs\<close>.  An untrusted peer cannot choose its address; the
    case of a trusted proxy that omits its header is shown to be different.
  \<^item> \<open>Location\<close>: \<^verbatim>\<open>pingap-location/src/location.rs\<close>, \<^verbatim>\<open>regex.rs\<close> and \<^verbatim>\<open>validate_rewrite_path\<close> of
    \<^verbatim>\<open>pingap-config/src/common.rs\<close>.  The path sent upstream is the configured one, stays absolute and
    keeps the query.
  \<^item> \<open>Location_Route\<close>: \<^verbatim>\<open>pingap-location/src/host_index.rs\<close> and \<^verbatim>\<open>find_and_apply_location\<close> of
    \<^verbatim>\<open>pingap-proxy/src/server.rs\<close>.  Routing through the index equals the linear scan (for at most 65536
    locations, the range of the stored positions), address conditions are judged on the
    connection, and the limit of concurrent requests holds.
  \<^item> \<open>Circuit_Breaker\<close>: \<^verbatim>\<open>pingap-upstream/src/backend_stats.rs\<close>, \<^verbatim>\<open>backend_circuit_state.rs\<close> and the callers
    in \<^verbatim>\<open>upstream.rs\<close>.  Runs interleave operations between the load of the state and their effect; a
    breaker that is asked again and again keeps admitting probes, a backend that reaches the limit of
    failures is rejected for the open duration, and the probe budget holds sequentially but not
    concurrently.

  \<^bold>\<open>Bounds and fuel.\<close>  The expression parser runs on fuel of four units per token and a few
  more for the level, which \<open>Expr_Grammar\<close> proves to be enough for every input; the layers of percent decoding, the JSON depth
  and all caps are those of the source.  The compare-and-swap loop of the scan budget is a step
  relation.  Every other loop is a total function.

  \<^bold>\<open>Idealisations.\<close>  A call reads each clock once; a submission of a nonce reads it before it takes the
  lock of the table, so that the instants of a sequence of submissions are sorted is a hypothesis.
  Floating-point numbers of the backend statistics are reals.  Hash maps are maps or association lists; where their iteration order could matter, the
  order is a parameter.  Relaxed atomics are interleaved loads and stores.

  \<^bold>\<open>Not modelled.\<close>  Log output and telemetry; the HTML of challenge pages; the substitution of
  variables in proxied headers, which reads details of the pingora session; the asynchronous
  callbacks and plugins that wire the parts to pingora; TLS, certificates and ACME; the HTTP
  cache, image optimisation, discovery and health probes, which are I/O through foreign crates;
  deserialisation of configuration; the agent and the control plane, which are gRPC and REST
  handlers over a database; generated protocol code.
\<close>

section \<open>Properties across components\<close>

text \<open>
  C1: Layered obfuscation does not save an attack. In Block mode with the fast path on and no allow
  rule that matches, take a query parameter whose text, before it was escaped as HTML entities
  and percent-encoded up to as many times as the engine decodes, holds a critical signature
  that is neither a mere search phrase nor downgraded by the site: the request is blocked,
  whatever its path, headers and body, as long as its values fit the scan list and a scan
  budget was granted.
\<close>

theorem obfuscated_attack_blocked:
  assumes "mode W = ModeBlock" and "fast_path_block_on_critical W" and "\<not> allowed W E request"
    and "req_query request = n @ ''='' @ (percent_encode ^^ Suc k) (html_escape s)"
    and "\<forall>c \<in> set n. param_char c" and "valid_utf8 s" and "CHR ''%'' \<notin> set s"
    and "Suc k \<le> decode_layers W" and "is_strict (level W) \<longrightarrow> CHR 0x5C \<notin> set s"
    and "unpack_string_json (env_norm E) (engine_opts W) 0 s n = []"
    and "length s \<le> MAX_DECODED_VALUE_LEN"
    and "length (request_values (env_norm E) (engine_opts W) (req_path request) (req_query request)
           (req_headers request) (req_body request)) \<le> MAX_DECODED_VALUES"
    and "h \<in> set (scan_into (signatures W) s)" and "5 \<le> hit_severity h"
    and "\<not> sig_search_phrase (env_match E) (field_value QueryParam n s) (pattern_id (signatures W) (hit_pattern h))"
    and "\<not> hit_monitored W (hit_category h) (pat_stack (pattern (signatures W) (hit_pattern h)))"
    and "try_acquire limit (estimated_scan_bytes request) used = Granted g"
  shows "action (inspect W E limit used request) = Block"
proof -
  let ?v = "field_value QueryParam n s"
  have "s \<noteq> []" using assms(13) by (auto simp: scan_into_def)
  then have v: "?v \<in> set (nr_decoded_values (engine_normalize W E request))"
    using assms(4-12) encoded_payload_value [of n s k "engine_opts W" "env_norm E"]
    by (simp add: engine_normalize_def engine_opts_def)
  have "sig_critical W (env_match E) ?v c h" for c
    using assms(14) by (simp add: sig_critical_def sig_weak_def is_meta_header_def bulk_body_def)
  then have "action (inspect_reserved W E request) = Block"
    using critical_value_blocks [OF assms(1-3) v] assms(13,15,16) by simp
  with assms(1,17) show ?thesis by (simp add: inspect_def)
qed

definition sample_attack :: RequestData where
  "sample_attack =
     (request_new ''GET'' ''/'')\<lparr>req_query := ''q'' @ ''='' @ (percent_encode ^^ Suc 1) (html_escape ''../etc/passwd'')\<rparr>"

theorem obfuscated_attack_blocked_witness:
  "action (inspect demo_engine sample_env (max_total_scan_bytes None) 0 sample_attack) = Block"
proof (rule obfuscated_attack_blocked [where n = "''q''" and k = 1 and s = "''../etc/passwd''"
      and h = "\<lparr>hit_pattern = 0, hit_category = PathTraversal, hit_severity = 5, hit_offset = 3, hit_length = 10\<rparr>"])
  show "\<forall>c \<in> set ''q''. param_char c" "valid_utf8 ''../etc/passwd''" by code_simp+
  show u: "unpack_string_json (env_norm sample_env) (engine_opts demo_engine) 0 ''../etc/passwd'' ''q'' = []"
    by (subst unpack_string_json.simps) (simp add: sample_env_def plain_env_def Let_def)
  have "snd (parse_query (env_norm sample_env) (engine_opts demo_engine)
      (''q'' @ ''='' @ (percent_encode ^^ Suc 1) (html_escape ''../etc/passwd'')))
     = (if ''q'' \<noteq> [] \<and> length ''q'' \<le> KEY_SCAN_LEN then [field_value QueryParam [] ''q''] else [])
       @ [field_value QueryParam ''q'' ''../etc/passwd'']"
    by (rule encoded_query_value [OF _ _ _ _ _ _ u])
      (code_simp, code_simp, simp_all add: engine_opts_def sample_defs clamp_nat_def)
  then show "length (request_values (env_norm sample_env) (engine_opts demo_engine) (req_path sample_attack)
      (req_query sample_attack) (req_headers sample_attack) (req_body sample_attack)) \<le> MAX_DECODED_VALUES"
    by (simp add: sample_attack_def request_new_def request_values_def raw_values_def MAX_DECODED_VALUES_def
        del: funpow.simps append_Cons)
  show "\<lparr>hit_pattern = 0, hit_category = PathTraversal, hit_severity = 5, hit_offset = 3, hit_length = 10\<rparr>
      \<in> set (scan_into (signatures demo_engine) ''../etc/passwd'')" by code_simp
  show "try_acquire (max_total_scan_bytes None) (estimated_scan_bytes sample_attack) 0
      = Granted (min (estimated_scan_bytes sample_attack) (max_total_scan_bytes None))"
    by (rule try_acquire_idle) (rule max_total_scan_bytes_bounds)
qed (simp_all add: sample_defs sample_attack_def request_new_def allowed_def clamp_nat_def
      MAX_DECODED_VALUE_LEN_def hit_monitored_def category_empty_def contains_category_def
      sig_search_phrase_def pattern_id_def pattern_def push_pattern_def stack_generic_def stack_empty_def
      stack_except_generic_def stack_is_empty_def stack_intersects_def)

end
